(* ===== verification/Prelude.thy ===== *)
theory Prelude
  imports Main "HOL-Library.Word" "HOL-Library.List_Lexorder" "HOL-Library.Multiset"
begin

text \<open>
  Shared vocabulary of the development.
  \<^item> Rust's machine integers as words, its saturating and checked arithmetic, and the
    facts that read them through \<^term>\<open>unat\<close>. A plain \<open>+\<close>, \<open>-\<close> or \<open>*\<close> of the
    source is the checked operation; \<^term>\<open>None\<close> is the arithmetic-overflow panic.
  \<^item> Byte strings, little-endian encodings (\<open>to_le_bytes\<close>, \<open>from_le_bytes\<close>) and their
    round trips.
  \<^item> The result type of fallible code, and the interface to the cryptographic crate,
    whose sources are not part of the repository.
  \<^item> Two interfaces used by many components: \<open>step_system\<close> (an invariant kept by every
    operation holds after every sequence of operations) and \<open>binding\<close> (an encoding that
    determines the data it encodes, so that its hash commits to the data).
\<close>

section \<open>Collections of facts\<close>

named_theorems rust_arith \<open>Rust integer operations read through unat\<close>
named_theorems enc_simps \<open>lengths of encodings\<close>

section \<open>Machine integers\<close>

type_synonym u8 = "8 word"
type_synonym u16 = "16 word"
type_synonym u32 = "32 word"
type_synonym u64 = "64 word"
type_synonym u128 = "128 word"

definition sat_add :: "'a::len word \<Rightarrow> 'a word \<Rightarrow> 'a word" where
  "sat_add a b = (if unat a + unat b < 2 ^ LENGTH('a) then a + b else - 1)"

definition sat_sub :: "'a::len word \<Rightarrow> 'a word \<Rightarrow> 'a word" where
  "sat_sub a b = (if b \<le> a then a - b else 0)"

definition sat_mul :: "'a::len word \<Rightarrow> 'a word \<Rightarrow> 'a word" where
  "sat_mul a b = (if unat a * unat b < 2 ^ LENGTH('a) then a * b else - 1)"

definition chk_add :: "'a::len word \<Rightarrow> 'a word \<Rightarrow> 'a word option" where
  "chk_add a b = (if unat a + unat b < 2 ^ LENGTH('a) then Some (a + b) else None)"

definition chk_sub :: "'a::len word \<Rightarrow> 'a word \<Rightarrow> 'a word option" where
  "chk_sub a b = (if b \<le> a then Some (a - b) else None)"

definition chk_mul :: "'a::len word \<Rightarrow> 'a word \<Rightarrow> 'a word option" where
  "chk_mul a b = (if unat a * unat b < 2 ^ LENGTH('a) then Some (a * b) else None)"

text \<open>\<open>iter().sum()\<close> adds from the left with the plain, overflow-checked \<open>+\<close>.\<close>

fun chk_sum_from :: "'a::len word \<Rightarrow> 'a word list \<Rightarrow> 'a word option" where
  "chk_sum_from acc [] = Some acc"
| "chk_sum_from acc (x # xs) =
     (case chk_add acc x of None \<Rightarrow> None | Some s \<Rightarrow> chk_sum_from s xs)"

definition chk_sum :: "'a::len word list \<Rightarrow> 'a word option" where
  "chk_sum xs = chk_sum_from 0 xs"

lemma unat_max_word: "unat (- 1 :: 'a::len word) = 2 ^ LENGTH('a) - 1"
  by (simp add: unsigned_minus_1_eq_mask mask_eq_exp_minus_1)

lemma unat_lt_pow: "unat (a :: 'a::len word) < 2 ^ LENGTH('a)"
  by (rule unsigned_less)

lemma unat_below_max: "w \<noteq> - 1 \<Longrightarrow> unat w + 1 < 2 ^ LENGTH('a)" for w :: "'a::len word"
proof -
  assume "w \<noteq> - 1"
  then have "unat w \<noteq> 2 ^ LENGTH('a) - 1" by (metis unat_max_word word_unat_eq_iff)
  with unat_lt_pow [of w] show ?thesis by linarith
qed

lemma unat_sat_add [rust_arith]:
  "unat (sat_add a b) = min (unat a + unat b) (2 ^ LENGTH('a) - 1)"
  for a b :: "'a::len word"
  by (auto simp: sat_add_def unat_max_word unat_word_ariths)

lemma unat_sat_sub [rust_arith]: "unat (sat_sub a b) = unat a - unat b"
  by (auto simp: sat_sub_def unat_sub word_le_nat_alt)

lemma unat_sat_mul [rust_arith]:
  "unat (sat_mul a b) = min (unat a * unat b) (2 ^ LENGTH('a) - 1)"
  for a b :: "'a::len word"
  by (auto simp: sat_mul_def unat_max_word unat_word_ariths)

lemma chk_add_Some_iff [rust_arith]: "chk_add a b = Some c \<longleftrightarrow> unat c = unat a + unat b"
  for a b c :: "'a::len word"
proof
  assume "chk_add a b = Some c"
  then show "unat c = unat a + unat b"
    by (auto simp: chk_add_def unat_word_ariths split: if_splits)
next
  assume eq: "unat c = unat a + unat b"
  then have lt: "unat a + unat b < 2 ^ LENGTH('a)"
    using unat_lt_pow [of c] by simp
  then have "unat (a + b) = unat c"
    using eq by (simp add: unat_word_ariths)
  with lt show "chk_add a b = Some c"
    by (simp add: chk_add_def word_unat_eq_iff)
qed

lemma chk_add_None_iff [rust_arith]:
  "chk_add a b = None \<longleftrightarrow> 2 ^ LENGTH('a) \<le> unat a + unat b" for a b :: "'a::len word"
  by (auto simp: chk_add_def)

lemma chk_sub_Some_iff [rust_arith]:
  "chk_sub a b = Some c \<longleftrightarrow> unat b \<le> unat a \<and> unat c = unat a - unat b"
  for a b c :: "'a::len word"
  by (auto simp: chk_sub_def word_le_nat_alt unat_sub word_unat_eq_iff)

lemma chk_sub_None_iff [rust_arith]: "chk_sub a b = None \<longleftrightarrow> unat a < unat b"
  by (auto simp: chk_sub_def word_le_nat_alt)

lemma chk_mul_Some_iff [rust_arith]: "chk_mul a b = Some c \<longleftrightarrow> unat c = unat a * unat b"
  for a b c :: "'a::len word"
proof
  assume "chk_mul a b = Some c"
  then show "unat c = unat a * unat b"
    by (auto simp: chk_mul_def unat_word_ariths split: if_splits)
next
  assume eq: "unat c = unat a * unat b"
  then have lt: "unat a * unat b < 2 ^ LENGTH('a)"
    using unat_lt_pow [of c] by simp
  then have "unat (a * b) = unat c"
    using eq by (simp add: unat_word_ariths)
  with lt show "chk_mul a b = Some c"
    by (simp add: chk_mul_def word_unat_eq_iff)
qed

lemma chk_mul_None_iff [rust_arith]:
  "chk_mul a b = None \<longleftrightarrow> 2 ^ LENGTH('a) \<le> unat a * unat b" for a b :: "'a::len word"
  by (auto simp: chk_mul_def)

lemma chk_sum_from_Some_iff:
  "chk_sum_from acc xs = Some s \<longleftrightarrow> unat s = unat acc + sum_list (map unat xs)"
  for acc :: "'a::len word"
proof (induction xs arbitrary: acc)
  case Nil
  then show ?case by (auto simp: word_unat_eq_iff)
next
  case (Cons x xs)
  show ?case
  proof (cases "chk_add acc x")
    case None
    then have "2 ^ LENGTH('a) \<le> unat acc + unat x" by (simp add: rust_arith)
    then have "unat s \<noteq> unat acc + (unat x + sum_list (map unat xs))"
      using unat_lt_pow [of s] by linarith
    with None show ?thesis by simp
  next
    case (Some t)
    then have "unat t = unat acc + unat x" by (simp add: rust_arith)
    with Some Cons.IH show ?thesis by (simp add: add.assoc)
  qed
qed

lemma chk_sum_Some_iff [rust_arith]:
  "chk_sum xs = Some s \<longleftrightarrow> unat s = sum_list (map unat xs)"
  by (simp add: chk_sum_def chk_sum_from_Some_iff)

lemma chk_sum_None_iff [rust_arith]:
  "chk_sum xs = None \<longleftrightarrow> 2 ^ LENGTH('a) \<le> sum_list (map unat xs)" for xs :: "'a::len word list"
proof -
  have "(\<exists>s. chk_sum xs = Some s) \<longleftrightarrow> sum_list (map unat xs) < 2 ^ LENGTH('a)"
    unfolding chk_sum_Some_iff
    by (metis unat_lt_pow of_nat_inverse)
  then show ?thesis by (cases "chk_sum xs") auto
qed

lemma unat_div_word [rust_arith]: "unat (a div b) = unat a div unat b"
  for a b :: "'a::len word"
  by (rule unat_div_distrib)

lemma unat_mod_word [rust_arith]: "unat (a mod b) = unat a mod unat b"
  for a b :: "'a::len word"
  by (rule unat_mod_distrib)

lemma unat_max_eq [rust_arith]: "unat (max a b) = max (unat a) (unat b)" for a b :: "'a::len word"
  by (simp add: max_def word_le_nat_alt)

lemma unat_min_eq [rust_arith]: "unat (min a b) = min (unat a) (unat b)" for a b :: "'a::len word"
  by (simp add: min_def word_le_nat_alt)

text \<open>
  \<open>usize\<close> values (lengths, counts, byte totals) are natural numbers below \<open>2\<^sup>6\<^sup>4\<close>; the
  saturating operations of the source are written out.
\<close>

definition USIZE_MAX :: nat where
  "USIZE_MAX = 18446744073709551615"

definition usize_sat_add :: "nat \<Rightarrow> nat \<Rightarrow> nat" where
  "usize_sat_add a b = min (a + b) USIZE_MAX"

definition usize_sat_mul :: "nat \<Rightarrow> nat \<Rightarrow> nat" where
  "usize_sat_mul a b = min (a * b) USIZE_MAX"

text \<open>Decimal rendering, as \<open>format!\<close> prints an unsigned integer.\<close>

fun show_nat :: "nat \<Rightarrow> string" where
  "show_nat n = (if n < 10 then [char_of (48 + n)] else show_nat (n div 10) @ [char_of (48 + n mod 10)])"

declare show_nat.simps [simp del]

fun join_with :: "string \<Rightarrow> string list \<Rightarrow> string" where
  "join_with sep [] = []"
| "join_with sep [s] = s"
| "join_with sep (s # t # ss) = s @ sep @ join_with sep (t # ss)"

section \<open>Byte strings\<close>

type_synonym bytes = "u8 list"
type_synonym hash = bytes

definition zero_hash :: hash where
  "zero_hash = replicate 32 0"

definition ascii :: "string \<Rightarrow> bytes" where
  "ascii s = map of_char s"

lemma length_ascii [simp, enc_simps]: "length (ascii s) = length s"
  by (simp add: ascii_def)

lemma length_zero_hash [simp, enc_simps]: "length zero_hash = 32"
  by (simp add: zero_hash_def)

text \<open>\<open>to_le_bytes\<close> of a word of \<open>n\<close> bytes, and \<open>from_le_bytes\<close>.\<close>

fun le_bytes :: "nat \<Rightarrow> 'a::len word \<Rightarrow> bytes" where
  "le_bytes 0 w = []"
| "le_bytes (Suc n) w = ucast w # le_bytes n (drop_bit 8 w)"

fun from_le_bytes :: "bytes \<Rightarrow> 'a::len word" where
  "from_le_bytes [] = 0"
| "from_le_bytes (b # bs) = push_bit 8 (from_le_bytes bs) + ucast b"

abbreviation le16 :: "u16 \<Rightarrow> bytes" where "le16 \<equiv> le_bytes 2"
abbreviation le32 :: "u32 \<Rightarrow> bytes" where "le32 \<equiv> le_bytes 4"
abbreviation le64 :: "u64 \<Rightarrow> bytes" where "le64 \<equiv> le_bytes 8"

lemma length_le_bytes [simp, enc_simps]: "length (le_bytes n w) = n"
  by (induction n arbitrary: w) auto

lemma ucast_u8_ucast: "ucast (ucast w :: u8) = take_bit 8 w" for w :: "'a::len word"
  by (rule bit_word_eqI) (auto simp: bit_unsigned_iff bit_take_bit_iff)

lemma from_le_bytes_le_bytes:
  "from_le_bytes (le_bytes n w) = take_bit (8 * n) w" for w :: "'a::len word"
proof (induction n arbitrary: w)
  case 0
  show ?case by simp
next
  case (Suc n)
  have "push_bit 8 (take_bit (8 * n) (drop_bit 8 w)) + take_bit 8 w
      = push_bit 8 (drop_bit 8 (take_bit (8 * Suc n) w)) + take_bit 8 (take_bit (8 * Suc n) w)"
    by (simp add: drop_bit_take_bit)
  also have "\<dots> = take_bit (8 * Suc n) w" by (rule bits_ident)
  finally show ?case using Suc by (simp add: ucast_u8_ucast)
qed

lemma le_bytes_roundtrip:
  "LENGTH('a) \<le> 8 * n \<Longrightarrow> from_le_bytes (le_bytes n w) = w" for w :: "'a::len word"
  by (simp add: from_le_bytes_le_bytes take_bit_word_eq_self)

lemma le_bytes_inj: "LENGTH('a) \<le> 8 * n \<Longrightarrow> le_bytes n a = le_bytes n b \<longleftrightarrow> a = b"
  for a b :: "'a::len word"
  by (metis le_bytes_roundtrip)

lemma le16_inj [simp]: "le16 a = le16 b \<longleftrightarrow> a = b"
  by (rule le_bytes_inj) simp

lemma le32_inj [simp]: "le32 a = le32 b \<longleftrightarrow> a = b"
  by (rule le_bytes_inj) simp

lemma le64_inj [simp]: "le64 a = le64 b \<longleftrightarrow> a = b"
  by (rule le_bytes_inj) simp

lemma bit_from_le_bytes:
  "bit (from_le_bytes bs :: 'a::len word) k \<longleftrightarrow>
     k < LENGTH('a) \<and> k < 8 * length bs \<and> bit (bs ! (k div 8)) (k mod 8)"
proof (induction bs arbitrary: k)
  case Nil
  then show ?case by simp
next
  case (Cons b bs)
  have "push_bit 8 (from_le_bytes bs :: 'a word) + ucast b = or (push_bit 8 (from_le_bytes bs)) (ucast b)"
    by (rule disjunctive_add) (auto simp: bit_push_bit_iff bit_unsigned_iff dest: bit_imp_le_length)
  then show ?case
    by (cases "k < 8")
      (auto simp: bit_or_iff bit_push_bit_iff bit_unsigned_iff Cons.IH nth_Cons' le_div_geq le_mod_geq
        dest: bit_imp_le_length)
qed

lemma nth_le_bytes: "i < n \<Longrightarrow> le_bytes n w ! i = ucast (drop_bit (8 * i) w)"
proof (induction n arbitrary: i w)
  case (Suc n)
  then show ?case by (cases i) (simp_all add: add.commute)
qed simp

lemma le_bytes_from_le_bytes:
  assumes "8 * length bs \<le> LENGTH('a)"
  shows "le_bytes (length bs) (from_le_bytes bs :: 'a::len word) = bs"
proof (rule nth_equalityI)
  fix i assume i: "i < length (le_bytes (length bs) (from_le_bytes bs :: 'a word))"
  show "le_bytes (length bs) (from_le_bytes bs :: 'a word) ! i = bs ! i"
  proof (rule bit_word_eqI)
    fix k assume k: "k < LENGTH(8)"
    then have "8 * i + k < 8 * length bs" using i by simp
    with k i assms show "bit (le_bytes (length bs) (from_le_bytes bs :: 'a word) ! i) k = bit (bs ! i) k"
      by (simp add: nth_le_bytes bit_unsigned_iff bit_drop_bit_eq bit_from_le_bytes)
  qed
qed simp
text \<open>Runs of fixed-width items are determined by their concatenation.\<close>

lemma concat_fixed_inj:
  assumes "length xs = length ys"
    and "\<forall>x\<in>set xs. length (f x) = k" and "\<forall>y\<in>set ys. length (g y) = k"
    and "concat (map f xs) @ r = concat (map g ys) @ s"
  shows "map f xs = map g ys \<and> r = s"
  using assms by (induction xs ys rule: list_induct2) (auto simp: append_eq_append_conv)

lemma length_concat_fixed [enc_simps]:
  "\<forall>x\<in>set xs. length (f x) = k \<Longrightarrow> length (concat (map f xs)) = k * length xs"
  by (induction xs) auto

lemma u32_of_nat_inj:
  "m < 2 ^ 32 \<Longrightarrow> n < 2 ^ 32 \<Longrightarrow> (of_nat m :: u32) = of_nat n \<longleftrightarrow> m = n"
proof -
  assume "m < 2 ^ 32" and "n < 2 ^ 32"
  then have "unat (of_nat m :: u32) = m" and "unat (of_nat n :: u32) = n"
    by (simp_all add: unat_of_nat)
  then show ?thesis by metis
qed

lemma map_binds_core:
  assumes "map f xs = map f ys"
    and "\<And>x y. x \<in> set xs \<Longrightarrow> y \<in> set ys \<Longrightarrow> f x = f y \<Longrightarrow> g x = g y"
  shows "map g xs = map g ys"
  using assms
proof -
  from assms(1) have "length xs = length ys" by (metis length_map)
  then show ?thesis using assms by (induction xs ys rule: list_induct2) auto
qed

section \<open>Results\<close>

text \<open>
  \<open>Result<T, E>\<close> of the source, with one more outcome for a panic of the process
  (arithmetic overflow in a plain operation, an index out of range).
\<close>

datatype ('a, 'e) result = Ok 'a | Err 'e | Panic

fun is_ok :: "('a, 'e) result \<Rightarrow> bool" where
  "is_ok (Ok _) = True"
| "is_ok _ = False"

fun bind_result :: "('a, 'e) result \<Rightarrow> ('a \<Rightarrow> ('b, 'e) result) \<Rightarrow> ('b, 'e) result" where
  "bind_result (Ok x) k = k x"
| "bind_result (Err e) k = Err e"
| "bind_result Panic k = Panic"

text \<open>\<open>iter().map(f).collect::<Result<Vec<_>, _>>()\<close>: the first error wins.\<close>

fun try_map :: "('a \<Rightarrow> ('b, 'e) result) \<Rightarrow> 'a list \<Rightarrow> ('b list, 'e) result" where
  "try_map f [] = Ok []"
| "try_map f (x # xs) = bind_result (f x) (\<lambda>y. bind_result (try_map f xs) (\<lambda>ys. Ok (y # ys)))"

lemma bind_result_Ok_iff: "bind_result r k = Ok y \<longleftrightarrow> (\<exists>x. r = Ok x \<and> k x = Ok y)"
  by (cases r) auto

lemma try_map_Ok_iff: "try_map f xs = Ok ys \<longleftrightarrow> list_all2 (\<lambda>x y. f x = Ok y) xs ys"
proof (induction xs arbitrary: ys)
  case Nil
  then show ?case by auto
next
  case (Cons x xs)
  show ?case
    by (cases ys) (auto simp: bind_result_Ok_iff Cons.IH)
qed

section \<open>Ordered maps\<close>

text \<open>
  A \<open>BTreeMap\<close> is the list of its entries in key order: \<open>values()\<close> and iteration read the list
  from the left. \<open>get\<close> is \<^const>\<open>map_of\<close>.
\<close>

fun bt_insert :: "'k::linorder \<Rightarrow> 'v \<Rightarrow> ('k \<times> 'v) list \<Rightarrow> ('k \<times> 'v) list" where
  "bt_insert k v [] = [(k, v)]"
| "bt_insert k v ((k', v') # m) =
     (if k < k' then (k, v) # (k', v') # m
      else if k = k' then (k, v) # m
      else (k', v') # bt_insert k v m)"

definition bt_wf :: "('k::linorder \<times> 'v) list \<Rightarrow> bool" where
  "bt_wf m \<longleftrightarrow> sorted_wrt (<) (map fst m)"

definition bt_of_list :: "('a \<Rightarrow> 'k::linorder) \<Rightarrow> 'a list \<Rightarrow> ('k \<times> 'a) list" where
  "bt_of_list key xs = fold (\<lambda>x m. bt_insert (key x) x m) xs []"

lemma bt_wf_Nil [simp]: "bt_wf []"
  by (simp add: bt_wf_def)

lemma map_of_bt_insert [simp]: "map_of (bt_insert k v m) = (map_of m)(k \<mapsto> v)"
  by (induction k v m rule: bt_insert.induct) (auto simp: fun_eq_iff)

lemma keys_bt_insert [simp]: "fst ` set (bt_insert k v m) = insert k (fst ` set m)"
  by (induction k v m rule: bt_insert.induct) auto

lemma bt_wf_insert [simp]: "bt_wf m \<Longrightarrow> bt_wf (bt_insert k v m)"
proof (induction k v m rule: bt_insert.induct)
  case (2 k v k' v' m)
  then show ?case
    by (auto simp: bt_wf_def keys_bt_insert [unfolded image_set [symmetric]])
qed (simp add: bt_wf_def)

lemma bt_wf_distinct: "bt_wf m \<Longrightarrow> distinct (map fst m)"
  by (simp add: bt_wf_def strict_sorted_iff)

lemma mset_bt_insert_new:
  "k \<notin> fst ` set m \<Longrightarrow> mset (bt_insert k v m) = add_mset (k, v) (mset m)"
  by (induction k v m rule: bt_insert.induct) auto

lemma mset_bt_of_list_aux:
  assumes "distinct (map key xs)" and "key ` set xs \<inter> fst ` set m = {}"
  shows "mset (fold (\<lambda>x m. bt_insert (key x) x m) xs m) = mset (map (\<lambda>x. (key x, x)) xs) + mset m"
  using assms
proof (induction xs arbitrary: m)
  case Nil
  then show ?case by simp
next
  case (Cons x xs)
  then have "mset (fold (\<lambda>x m. bt_insert (key x) x m) xs (bt_insert (key x) x m))
      = mset (map (\<lambda>x. (key x, x)) xs) + mset (bt_insert (key x) x m)"
    by (intro Cons.IH) auto
  then show ?case using Cons.prems by (simp add: mset_bt_insert_new)
qed

lemma mset_bt_of_list:
  "distinct (map key xs) \<Longrightarrow> mset (map snd (bt_of_list key xs)) = mset xs"
  by (simp add: bt_of_list_def mset_bt_of_list_aux multiset.map_comp comp_def)

section \<open>The cryptographic crate\<close>

text \<open>
  \<open>aevum-crypto\<close> is not part of the repository. What the code calls of it is a parameter:
  BLAKE3 over the concatenation of everything given to \<open>Hasher::update\<close>, the 32-byte form
  of a public key, its parser and its signature check.
\<close>

record 'pk crypto_api =
  blake3 :: "bytes \<Rightarrow> hash"
  pk_bytes :: "'pk \<Rightarrow> bytes"
  pk_from_bytes :: "bytes \<Rightarrow> 'pk option"
  pk_verify :: "'pk \<Rightarrow> bytes \<Rightarrow> bytes \<Rightarrow> bool"

text \<open>
  Collision resistance is only ever assumed of two given preimages: the hypothesis says
  that these two are not a collision.
\<close>

definition no_collision :: "'pk crypto_api \<Rightarrow> bytes \<Rightarrow> bytes \<Rightarrow> bool" where
  "no_collision C x y \<longleftrightarrow> (blake3 C x = blake3 C y \<longrightarrow> x = y)"

text \<open>Public keys are told apart by their 32 bytes.\<close>

definition pk_wf :: "'pk crypto_api \<Rightarrow> bool" where
  "pk_wf C \<longleftrightarrow> inj (pk_bytes C) \<and> (\<forall>k. length (pk_bytes C k) = 32)"

lemma pk_wf_length: "pk_wf C \<Longrightarrow> length (pk_bytes C k) = 32"
  by (simp add: pk_wf_def)

lemma pk_wf_inj: "pk_wf C \<Longrightarrow> pk_bytes C a = pk_bytes C b \<longleftrightarrow> a = b"
  by (auto simp: pk_wf_def dest: injD)

section \<open>Interfaces\<close>

text \<open>
  A preimage encoding \<open>enc\<close> that determines the part \<open>core\<close> of the data it encodes.
  The hash of the encoding then commits to \<open>core\<close>.
\<close>

locale binding =
  fixes enc :: "'a \<Rightarrow> bytes" and valid :: "'a \<Rightarrow> bool" and core :: "'a \<Rightarrow> 'c"
  assumes enc_binds: "valid x \<Longrightarrow> valid y \<Longrightarrow> enc x = enc y \<Longrightarrow> core x = core y"
begin

lemma hash_binds:
  assumes "valid x" and "valid y" and "no_collision C (enc x) (enc y)"
    and "blake3 C (enc x) = blake3 C (enc y)"
  shows "core x = core y"
proof -
  from assms(3,4) have "enc x = enc y" by (simp add: no_collision_def)
  then show ?thesis by (rule enc_binds [OF assms(1,2)])
qed

lemma tamper_evident:
  assumes "valid x" and "valid y" and "no_collision C (enc x) (enc y)" and "core x \<noteq> core y"
  shows "blake3 C (enc x) \<noteq> blake3 C (enc y)"
  using assms(4) hash_binds [OF assms(1-3)] by blast

end

text \<open>
  A component with a state and operations on it: an invariant that every operation keeps
  holds after every sequence of operations.
\<close>

locale step_system =
  fixes init :: "'s" and step :: "'op \<Rightarrow> 's \<Rightarrow> 's" and inv :: "'s \<Rightarrow> bool"
  assumes init_inv: "inv init"
    and step_inv: "inv s \<Longrightarrow> inv (step x s)"
begin

lemma run_inv: "inv s \<Longrightarrow> inv (fold step xs s)"
  by (induction xs arbitrary: s) (auto intro: step_inv)

lemma run_init_inv: "inv (fold step xs init)"
  by (rule run_inv) (rule init_inv)

end

text \<open>A quantity that no operation decreases, such as a height or a nonce.\<close>

locale monotone_system = step_system init step inv
  for init :: "'s" and step :: "'op \<Rightarrow> 's \<Rightarrow> 's" and inv :: "'s \<Rightarrow> bool" +
  fixes level :: "'s \<Rightarrow> nat"
  assumes step_mono: "inv s \<Longrightarrow> level s \<le> level (step x s)"
begin

lemma run_mono: "inv s \<Longrightarrow> level s \<le> level (fold step xs s)"
proof (induction xs arbitrary: s)
  case Nil
  then show ?case by simp
next
  case (Cons x xs)
  then have "level (step x s) \<le> level (fold step xs (step x s))"
    by (blast intro: step_inv)
  with step_mono [OF Cons.prems, of x] show ?case by simp
qed

end

section \<open>A concrete instance of the parameters\<close>

text \<open>
  Used by the witnesses only: keys are single bytes, the hash keeps its whole input (so it
  has no collisions), and a signature is the signed message.
\<close>

definition sample_crypto :: "u8 crypto_api" where
  "sample_crypto =
     \<lparr>blake3 = (\<lambda>bs. bs), pk_bytes = (\<lambda>k. k # replicate 31 0),
      pk_from_bytes = (\<lambda>bs. case bs of [] \<Rightarrow> None | b # _ \<Rightarrow> Some b),
      pk_verify = (\<lambda>k msg sig. sig = msg)\<rparr>"

lemma sample_crypto_wf [simp]: "pk_wf sample_crypto"
  by (simp add: pk_wf_def sample_crypto_def inj_def)

lemma sample_crypto_no_collision [simp]: "no_collision sample_crypto x y"
  by (simp add: no_collision_def sample_crypto_def)

end
