(* ===== verification/Transaction.thy ===== *)
theory Transaction
  imports Prelude
begin

text \<open>
  \<open>crates/aevum-core/src/transaction.rs\<close>: inputs, outputs, transactions, their hash, and
  the heartbeat checks. \<open>'pk\<close> is the public-key type of the cryptographic crate, \<open>'zk\<close> the
  proof type of \<open>jt_utxo.rs\<close> and \<open>'dna\<close> the provenance type of \<open>dna.rs\<close>; none of the three
  is part of the repository, and the code only stores and clones their values.

  The lemmas: what the transaction hash commits to (every field it lists, including the
  number and content of witnesses) and what it leaves out; and the meaning of an accepted
  heartbeat.
\<close>

section \<open>Data\<close>

definition CHAIN_ID_MAINNET :: u32 where "CHAIN_ID_MAINNET = 2"
definition COINBASE_RESTRICTION_LEVEL :: u64 where "COINBASE_RESTRICTION_LEVEL = 0x2000"

datatype transaction_type = Standard | Coinbase | Heartbeat

fun tx_type_byte :: "transaction_type \<Rightarrow> u8" where
  "tx_type_byte Standard = 0"
| "tx_type_byte Coinbase = 1"
| "tx_type_byte Heartbeat = 2"

record 'pk tx_input =
  in_tx_hash :: hash
  in_output_index :: u32
  in_nullifier :: hash
  in_signature :: bytes
  in_public_key :: 'pk
  in_signed_hash :: hash
  in_nonce :: u64

record ('pk, 'zk, 'dna) tx_output =
  out_amount :: u64
  out_owner :: 'pk
  out_amount_commitment :: bytes
  out_tag_commitment :: bytes
  out_nullifier :: hash
  out_serial :: u64
  out_zk_proof :: 'zk
  out_tx_hash :: hash
  out_view_key_public :: bytes
  out_encrypted_amount :: bytes
  out_auth_tag :: bytes
  out_restriction_level :: u64
  out_output_index :: u32
  out_taint_distance :: u16
  out_taint_origin :: u64
  out_taint_timestamp :: u64
  out_dna :: 'dna
  out_dna_range_id :: "hash option"

record ('pk, 'zk, 'dna) transaction =
  tx_version :: u32
  tx_chain_id :: u32
  tx_type :: transaction_type
  tx_inputs :: "'pk tx_input list"
  tx_outputs :: "('pk, 'zk, 'dna) tx_output list"
  tx_fee :: u64
  tx_hash :: hash
  tx_poh_tick :: u64
  tx_locktime :: u64
  tx_heartbeat_witnesses :: "bytes list"

text \<open>The accessors of \<open>JtUtxo\<close> that the code calls, and the two constants it uses.\<close>

record ('u, 'pk, 'zk, 'dna) jt_api =
  jt_amount :: "'u \<Rightarrow> u64"
  jt_owner :: "'u \<Rightarrow> 'pk"
  jt_amount_commitment :: "'u \<Rightarrow> bytes"
  jt_tag_commitment :: "'u \<Rightarrow> bytes"
  jt_nullifier :: "'u \<Rightarrow> hash"
  jt_serial :: "'u \<Rightarrow> u64"
  jt_zk_proof :: "'u \<Rightarrow> 'zk"
  jt_tx_hash :: "'u \<Rightarrow> hash"
  jt_restriction_level :: "'u \<Rightarrow> u64"
  jt_taint_distance :: "'u \<Rightarrow> u16"
  jt_taint_origin :: "'u \<Rightarrow> u64"
  jt_taint_timestamp :: "'u \<Rightarrow> u64"
  jt_dna :: "'u \<Rightarrow> 'dna"
  jt_consensus_bytes :: "'u \<Rightarrow> bytes"
  zk_empty :: 'zk
  dna_default :: 'dna

section \<open>Outputs\<close>

definition from_jt_utxo ::
  "('u, 'pk, 'zk, 'dna) jt_api \<Rightarrow> 'u \<Rightarrow> u32 \<Rightarrow> ('pk, 'zk, 'dna) tx_output" where
  "from_jt_utxo J utxo index =
     \<lparr>out_amount = jt_amount J utxo, out_owner = jt_owner J utxo,
      out_amount_commitment = jt_amount_commitment J utxo,
      out_tag_commitment = jt_tag_commitment J utxo,
      out_nullifier = jt_nullifier J utxo, out_serial = jt_serial J utxo,
      out_zk_proof = jt_zk_proof J utxo, out_tx_hash = jt_tx_hash J utxo,
      out_view_key_public = replicate 32 0, out_encrypted_amount = replicate 8 0,
      out_auth_tag = replicate 8 0,
      out_restriction_level = jt_restriction_level J utxo, out_output_index = index,
      out_taint_distance = jt_taint_distance J utxo, out_taint_origin = jt_taint_origin J utxo,
      out_taint_timestamp = jt_taint_timestamp J utxo,
      out_dna = jt_dna J utxo, out_dna_range_id = None\<rparr>"

definition output_new_coinbase ::
  "'pk crypto_api \<Rightarrow> ('u, 'pk, 'zk, 'dna) jt_api \<Rightarrow> 'pk \<Rightarrow> u64 \<Rightarrow> u64 \<Rightarrow> u32 \<Rightarrow> ('pk, 'zk, 'dna) tx_output"
where
  "output_new_coinbase C J owner amount serial output_index =
     \<lparr>out_amount = amount, out_owner = owner,
      out_amount_commitment = replicate 32 0, out_tag_commitment = replicate 32 0,
      out_nullifier =
        blake3 C (ascii ''AEVUM_COINBASE_NULLIFIER_V1'' @ pk_bytes C owner @ le64 serial),
      out_serial = serial, out_zk_proof = zk_empty J, out_tx_hash = zero_hash,
      out_view_key_public = replicate 32 0, out_encrypted_amount = replicate 8 0,
      out_auth_tag = replicate 8 0,
      out_restriction_level = COINBASE_RESTRICTION_LEVEL, out_output_index = output_index,
      out_taint_distance = 0, out_taint_origin = 0x2000, out_taint_timestamp = 0,
      out_dna = dna_default J, out_dna_range_id = None\<rparr>"

section \<open>The transaction hash\<close>

definition input_preimage :: "'pk crypto_api \<Rightarrow> 'pk tx_input \<Rightarrow> bytes" where
  "input_preimage C i =
     in_tx_hash i @ le32 (in_output_index i) @ in_nullifier i @ pk_bytes C (in_public_key i)
       @ in_signed_hash i @ le64 (in_nonce i)"

definition output_preimage :: "'pk crypto_api \<Rightarrow> ('pk, 'zk, 'dna) tx_output \<Rightarrow> bytes" where
  "output_preimage C o' =
     le64 (out_amount o') @ pk_bytes C (out_owner o') @ out_amount_commitment o'
       @ out_tag_commitment o' @ out_nullifier o' @ le64 (out_serial o')
       @ le64 (out_restriction_level o') @ le32 (out_output_index o')
       @ le16 (out_taint_distance o') @ le64 (out_taint_origin o') @ le64 (out_taint_timestamp o')"

definition witness_preimage :: "bytes \<Rightarrow> bytes" where
  "witness_preimage w = le32 (of_nat (length w)) @ w"

definition tx_preimage :: "'pk crypto_api \<Rightarrow> ('pk, 'zk, 'dna) transaction \<Rightarrow> bytes" where
  "tx_preimage C tx =
     ascii ''AEVUM_TX_V4'' @ le32 (tx_chain_id tx) @ le32 (tx_version tx)
       @ [tx_type_byte (tx_type tx)]
       @ le32 (of_nat (length (tx_inputs tx))) @ concat (map (input_preimage C) (tx_inputs tx))
       @ le32 (of_nat (length (tx_outputs tx))) @ concat (map (output_preimage C) (tx_outputs tx))
       @ le64 (tx_fee tx) @ le64 (tx_poh_tick tx) @ le64 (tx_locktime tx)
       @ le32 (of_nat (length (tx_heartbeat_witnesses tx)))
       @ concat (map witness_preimage (tx_heartbeat_witnesses tx))"

definition recompute_hash :: "'pk crypto_api \<Rightarrow> ('pk, 'zk, 'dna) transaction \<Rightarrow> hash" where
  "recompute_hash C tx = blake3 C (tx_preimage C tx)"

definition tx_compute_hash ::
  "'pk crypto_api \<Rightarrow> ('pk, 'zk, 'dna) transaction \<Rightarrow> ('pk, 'zk, 'dna) transaction" where
  "tx_compute_hash C tx = tx\<lparr>tx_hash := recompute_hash C tx\<rparr>"

section \<open>Constructors\<close>

definition tx_new_raw ::
  "u32 \<Rightarrow> u32 \<Rightarrow> 'pk tx_input list \<Rightarrow> ('pk, 'zk, 'dna) tx_output list \<Rightarrow> u64 \<Rightarrow> u64 \<Rightarrow> u64
     \<Rightarrow> ('pk, 'zk, 'dna) transaction" where
  "tx_new_raw v c inputs outputs fee poh lock =
     \<lparr>tx_version = v, tx_chain_id = c, tx_type = Standard, tx_inputs = inputs,
      tx_outputs = outputs, tx_fee = fee, tx_hash = zero_hash, tx_poh_tick = poh,
      tx_locktime = lock, tx_heartbeat_witnesses = []\<rparr>"

definition tx_new ::
  "'pk crypto_api \<Rightarrow> 'pk tx_input list \<Rightarrow> ('pk, 'zk, 'dna) tx_output list \<Rightarrow> u64
     \<Rightarrow> ('pk, 'zk, 'dna) transaction" where
  "tx_new C inputs outputs fee =
     tx_compute_hash C (tx_new_raw 1 CHAIN_ID_MAINNET inputs outputs fee 0 0)"

definition new_heartbeat ::
  "'pk crypto_api \<Rightarrow> bytes list \<Rightarrow> u32 \<Rightarrow> ('pk, 'zk, 'dna) transaction" where
  "new_heartbeat C witnesses chain_id = tx_compute_hash C
     \<lparr>tx_version = 1, tx_chain_id = chain_id, tx_type = Heartbeat, tx_inputs = [],
      tx_outputs = [], tx_fee = 0, tx_hash = zero_hash, tx_poh_tick = 0, tx_locktime = 0,
      tx_heartbeat_witnesses = witnesses\<rparr>"

definition tx_new_coinbase ::
  "'pk crypto_api \<Rightarrow> ('pk, 'zk, 'dna) tx_output list \<Rightarrow> u64 \<Rightarrow> u32 \<Rightarrow> ('pk, 'zk, 'dna) transaction"
where
  "tx_new_coinbase C outputs poh chain_id = tx_compute_hash C
     \<lparr>tx_version = 1, tx_chain_id = chain_id, tx_type = Coinbase, tx_inputs = [],
      tx_outputs = outputs, tx_fee = 0, tx_hash = zero_hash, tx_poh_tick = poh,
      tx_locktime = 0, tx_heartbeat_witnesses = []\<rparr>"

section \<open>Checks\<close>

definition is_coinbase :: "('pk, 'zk, 'dna) transaction \<Rightarrow> bool" where
  "is_coinbase tx \<longleftrightarrow> tx_type tx = Coinbase"

definition is_heartbeat :: "('pk, 'zk, 'dna) transaction \<Rightarrow> bool" where
  "is_heartbeat tx \<longleftrightarrow> tx_type tx = Heartbeat"

definition witness_id :: "bytes \<Rightarrow> bytes" where
  "witness_id w = take 32 w"

definition witness_ts :: "bytes \<Rightarrow> u64" where
  "witness_ts w = from_le_bytes (take 8 (drop 32 w))"

fun check_witnesses :: "u64 \<Rightarrow> bytes option \<Rightarrow> bytes list \<Rightarrow> (unit, string) result" where
  "check_witnesses now prev [] = Ok ()"
| "check_witnesses now prev (w # ws) =
     (if length w < 40 then Err ''too short''
      else if 180 < sat_sub now (witness_ts w) then Err ''stale''
      else if (case prev of Some p \<Rightarrow> witness_id w \<le> p | None \<Rightarrow> False)
        then Err ''unsorted or duplicate''
      else check_witnesses now (Some (witness_id w)) ws)"

definition verify_heartbeat :: "('pk, 'zk, 'dna) transaction \<Rightarrow> u64 \<Rightarrow> (unit, string) result" where
  "verify_heartbeat tx now =
     (if \<not> is_heartbeat tx then Err ''not heartbeat''
      else if tx_heartbeat_witnesses tx = [] then Err ''empty witnesses''
      else check_witnesses now None (tx_heartbeat_witnesses tx))"

text \<open>The product is formed in \<open>u128\<close>; the cast back to \<open>u64\<close> keeps the low 64 bits.\<close>

definition heartbeat_coverage_bps :: "('pk, 'zk, 'dna) transaction \<Rightarrow> nat \<Rightarrow> u64" where
  "heartbeat_coverage_bps tx n_total =
     (if n_total = 0 then 0
      else of_nat (card (set (tx_heartbeat_witnesses tx)) * 10000 div n_total))"

definition input_verify_signature :: "'pk crypto_api \<Rightarrow> 'pk tx_input \<Rightarrow> bool" where
  "input_verify_signature C i \<longleftrightarrow>
     length (in_signature i) = 64 \<and> pk_verify C (in_public_key i) (in_signed_hash i) (in_signature i)"

section \<open>What the hash commits to\<close>

text \<open>The fixed-size arrays that enter the preimage have their size; a vector has fewer than \<open>2\<^sup>3\<^sup>2\<close> items.\<close>

definition input_wf :: "'pk tx_input \<Rightarrow> bool" where
  "input_wf i \<longleftrightarrow> length (in_tx_hash i) = 32 \<and> length (in_nullifier i) = 32
     \<and> length (in_signed_hash i) = 32"

definition output_wf :: "('pk, 'zk, 'dna) tx_output \<Rightarrow> bool" where
  "output_wf o' \<longleftrightarrow> length (out_amount_commitment o') = 32
     \<and> length (out_tag_commitment o') = 32 \<and> length (out_nullifier o') = 32"

definition tx_wf :: "('pk, 'zk, 'dna) transaction \<Rightarrow> bool" where
  "tx_wf tx \<longleftrightarrow> (\<forall>i\<in>set (tx_inputs tx). input_wf i) \<and> (\<forall>o'\<in>set (tx_outputs tx). output_wf o')
     \<and> length (tx_inputs tx) < 2 ^ 32 \<and> length (tx_outputs tx) < 2 ^ 32
     \<and> length (tx_heartbeat_witnesses tx) < 2 ^ 32
     \<and> (\<forall>w\<in>set (tx_heartbeat_witnesses tx). length w < 2 ^ 32)"

text \<open>The fields that enter the hash.\<close>

definition input_core :: "'pk tx_input \<Rightarrow> hash \<times> u32 \<times> hash \<times> 'pk \<times> hash \<times> u64" where
  "input_core i = (in_tx_hash i, in_output_index i, in_nullifier i, in_public_key i,
     in_signed_hash i, in_nonce i)"

definition output_core ::
  "('pk, 'zk, 'dna) tx_output \<Rightarrow> u64 \<times> 'pk \<times> bytes \<times> bytes \<times> hash \<times> u64 \<times> u64 \<times> u32 \<times> u16 \<times> u64 \<times> u64"
where
  "output_core o' = (out_amount o', out_owner o', out_amount_commitment o', out_tag_commitment o',
     out_nullifier o', out_serial o', out_restriction_level o', out_output_index o',
     out_taint_distance o', out_taint_origin o', out_taint_timestamp o')"

definition tx_core :: "('pk, 'zk, 'dna) transaction \<Rightarrow> _" where
  "tx_core tx = (tx_chain_id tx, tx_version tx, tx_type tx, map input_core (tx_inputs tx),
     map output_core (tx_outputs tx), tx_fee tx, tx_poh_tick tx, tx_locktime tx,
     tx_heartbeat_witnesses tx)"

lemma tx_type_byte_inj [simp]: "tx_type_byte a = tx_type_byte b \<longleftrightarrow> a = b"
  by (cases a; cases b) auto

lemma length_input_preimage:
  "pk_wf C \<Longrightarrow> input_wf i \<Longrightarrow> length (input_preimage C i) = 140"
  by (simp add: input_preimage_def input_wf_def pk_wf_length)

lemma length_output_preimage:
  "pk_wf C \<Longrightarrow> output_wf o' \<Longrightarrow> length (output_preimage C o') = 174"
  by (simp add: output_preimage_def output_wf_def pk_wf_length)

lemma input_preimage_binds:
  assumes "pk_wf C" "input_wf i" "input_wf j" "input_preimage C i = input_preimage C j"
  shows "input_core i = input_core j"
  using assms by (simp add: input_preimage_def input_wf_def input_core_def pk_wf_length pk_wf_inj)

lemma output_preimage_binds:
  assumes "pk_wf C" "output_wf i" "output_wf j" "output_preimage C i = output_preimage C j"
  shows "output_core i = output_core j"
  using assms by (simp add: output_preimage_def output_wf_def output_core_def pk_wf_length pk_wf_inj)

lemma witnesses_preimage_inj:
  assumes "length ws = length vs" and "\<forall>w\<in>set ws. length w < 2 ^ 32" and "\<forall>v\<in>set vs. length v < 2 ^ 32"
    and "concat (map witness_preimage ws) = concat (map witness_preimage vs)"
  shows "ws = vs"
  using assms
proof (induction ws vs rule: list_induct2)
  case Nil
  show ?case by simp
next
  case (Cons w ws v vs)
  then have "le32 (of_nat (length w)) = le32 (of_nat (length v))"
    and rest: "w @ concat (map witness_preimage ws) = v @ concat (map witness_preimage vs)"
    by (simp_all add: witness_preimage_def [of w] witness_preimage_def [of v])
  then have "length w = length v" using Cons.prems by (simp add: u32_of_nat_inj)
  with rest Cons show ?case by simp
qed

lemma tx_preimage_binds:
  fixes x y :: "('pk, 'zk, 'dna) transaction"
  assumes C: "pk_wf C" and x: "tx_wf x" and y: "tx_wf y" and eq: "tx_preimage C x = tx_preimage C y"
  shows "tx_core x = tx_core y"
proof -
  let ?I = "\<lambda>t. concat (map (input_preimage C) (tx_inputs t))"
  let ?O = "\<lambda>t. concat (map (output_preimage C) (tx_outputs t))"
  let ?tail = "\<lambda>t. le64 (tx_fee t) @ le64 (tx_poh_tick t) @ le64 (tx_locktime t)
    @ le32 (of_nat (length (tx_heartbeat_witnesses t)))
    @ concat (map witness_preimage (tx_heartbeat_witnesses t))"
  let ?mid = "\<lambda>t. le32 (of_nat (length (tx_outputs t))) @ ?O t @ ?tail t"
  from eq have head: "tx_chain_id x = tx_chain_id y" "tx_version x = tx_version y" "tx_type x = tx_type y"
    and nin: "le32 (of_nat (length (tx_inputs x))) = le32 (of_nat (length (tx_inputs y)))"
    and ins: "?I x @ ?mid x = ?I y @ ?mid y"
    by (simp_all add: tx_preimage_def)
  have "length (tx_inputs x) = length (tx_inputs y)"
    using nin x y by (simp add: u32_of_nat_inj tx_wf_def)
  from concat_fixed_inj [OF this _ _ ins, of 140] C x y
  have mi: "map (input_preimage C) (tx_inputs x) = map (input_preimage C) (tx_inputs y)"
    and mid: "?mid x = ?mid y"
    by (auto simp: tx_wf_def length_input_preimage)
  from mid have nout: "le32 (of_nat (length (tx_outputs x))) = le32 (of_nat (length (tx_outputs y)))"
    and outs: "?O x @ ?tail x = ?O y @ ?tail y"
    by simp_all
  have "length (tx_outputs x) = length (tx_outputs y)"
    using nout x y by (simp add: u32_of_nat_inj tx_wf_def)
  from concat_fixed_inj [OF this _ _ outs, of 174] C x y
  have mo: "map (output_preimage C) (tx_outputs x) = map (output_preimage C) (tx_outputs y)"
    and tail: "?tail x = ?tail y"
    by (auto simp: tx_wf_def length_output_preimage)
  from tail have nums: "tx_fee x = tx_fee y" "tx_poh_tick x = tx_poh_tick y" "tx_locktime x = tx_locktime y"
    and nw: "le32 (of_nat (length (tx_heartbeat_witnesses x))) = le32 (of_nat (length (tx_heartbeat_witnesses y)))"
    and ws: "concat (map witness_preimage (tx_heartbeat_witnesses x))
      = concat (map witness_preimage (tx_heartbeat_witnesses y))"
    by simp_all
  have "tx_heartbeat_witnesses x = tx_heartbeat_witnesses y"
    using nw ws x y by (intro witnesses_preimage_inj) (auto simp: u32_of_nat_inj tx_wf_def)
  moreover have "map input_core (tx_inputs x) = map input_core (tx_inputs y)"
    by (rule map_binds_core [OF mi]) (use C x y in \<open>auto simp: tx_wf_def intro: input_preimage_binds\<close>)
  moreover have "map output_core (tx_outputs x) = map output_core (tx_outputs y)"
    by (rule map_binds_core [OF mo]) (use C x y in \<open>auto simp: tx_wf_def intro: output_preimage_binds\<close>)
  ultimately show ?thesis using head nums by (simp add: tx_core_def)
qed

interpretation tx_binding: binding "tx_preimage C" "\<lambda>tx. pk_wf C \<and> tx_wf tx" tx_core for C
  by unfold_locales (blast intro: tx_preimage_binds)

lemma tx_preimage_core:
  fixes x y :: "('pk, 'zk, 'dna) transaction"
  assumes "tx_core x = tx_core y"
  shows "tx_preimage C x = tx_preimage C y"
proof -
  from assms have ins: "map input_core (tx_inputs x) = map input_core (tx_inputs y)"
    and outs: "map output_core (tx_outputs x) = map output_core (tx_outputs y)"
    by (simp_all add: tx_core_def)
  have "map (input_preimage C) (tx_inputs x) = map (input_preimage C) (tx_inputs y)"
    by (rule map_binds_core [OF ins]) (simp add: input_core_def input_preimage_def)
  moreover have "map (output_preimage C) (tx_outputs x) = map (output_preimage C) (tx_outputs y)"
    by (rule map_binds_core [OF outs]) (simp add: output_core_def output_preimage_def)
  moreover have "length (tx_inputs x) = length (tx_inputs y)"
    and "length (tx_outputs x) = length (tx_outputs y)"
    using ins outs by (metis length_map)+
  ultimately show ?thesis using assms by (simp add: tx_core_def tx_preimage_def)
qed

text \<open>C32. The transaction hash commits to exactly the listed fields: two transactions whose
  preimages are not a BLAKE3 collision have the same hash if and only if they agree on chain,
  version, type, every input apart from its signature bytes, the hashed part of every output,
  fee, tick, locktime and every witness. Signatures, proofs, view keys, encrypted amounts and
  provenance are outside the hash.\<close>

theorem tx_hash_commits:
  fixes x y :: "('pk, 'zk, 'dna) transaction"
  assumes "pk_wf C" and "tx_wf x" and "tx_wf y"
    and "no_collision C (tx_preimage C x) (tx_preimage C y)"
  shows "recompute_hash C x = recompute_hash C y \<longleftrightarrow> tx_core x = tx_core y"
  using tx_binding.hash_binds [of C x y C] tx_preimage_core [of x y C] assms
  by (auto simp: recompute_hash_def)

theorem tx_hash_commits_witness:
  "recompute_hash sample_crypto (tx_new_raw 1 2 [] [] 5 0 0 :: (u8, unit, unit) transaction)
     \<noteq> recompute_hash sample_crypto (tx_new_raw 1 2 [] [] 6 0 0 :: (u8, unit, unit) transaction)"
  using tx_hash_commits [of sample_crypto "tx_new_raw 1 2 [] [] 5 0 0 :: (u8, unit, unit) transaction"
      "tx_new_raw 1 2 [] [] 6 0 0"]
  by (simp add: tx_new_raw_def tx_wf_def tx_core_def)

section \<open>Heartbeats\<close>

definition witness_fresh :: "u64 \<Rightarrow> bytes \<Rightarrow> bool" where
  "witness_fresh now w \<longleftrightarrow> 40 \<le> length w \<and> unat now \<le> unat (witness_ts w) + 180"

lemma stale_iff: "180 < sat_sub now ts \<longleftrightarrow> \<not> unat now \<le> unat ts + 180" for now ts :: u64
  by (auto simp: word_less_nat_alt unat_sat_sub)

lemma check_witnesses_Ok_iff:
  "check_witnesses now prev ws = Ok () \<longleftrightarrow>
     (\<forall>w\<in>set ws. witness_fresh now w)
     \<and> sorted_wrt (<) ((case prev of None \<Rightarrow> [] | Some p \<Rightarrow> [p]) @ map witness_id ws)"
proof (induction ws arbitrary: prev)
  case Nil
  then show ?case by (simp split: option.splits)
next
  case (Cons w ws)
  show ?case
    by (cases prev) (auto simp: Cons.IH witness_fresh_def stale_iff)
qed

text \<open>A heartbeat is accepted exactly when it is of the heartbeat type, carries a witness,
  every witness has at least 40 bytes and a timestamp no more than 180 behind \<open>now\<close>, and the
  32-byte node identifiers are strictly increasing, so that no node is counted twice.\<close>

theorem verify_heartbeat_accepts:
  "verify_heartbeat tx now = Ok () \<longleftrightarrow>
     is_heartbeat tx \<and> tx_heartbeat_witnesses tx \<noteq> []
     \<and> list_all (\<lambda>w. 40 \<le> length w \<and> unat now \<le> unat (witness_ts w) + 180) (tx_heartbeat_witnesses tx)
     \<and> sorted_wrt (<) (map witness_id (tx_heartbeat_witnesses tx))"
  by (auto simp: verify_heartbeat_def check_witnesses_Ok_iff witness_fresh_def list_all_iff)

end
