(* ===== verification/Merkle.thy ===== *)
theory Merkle
  imports Prelude
begin

text \<open>
  The Merkle fold that \<open>block.rs\<close>, \<open>state_root.rs\<close> and \<open>settlement.rs\<close> each write out:
  pair up a level, hash each pair under a domain tag, pair the last hash with itself when
  the level is odd, and repeat until one hash is left. The three copies differ in the tag
  only, so the fold is stated once over the pair hash \<open>node\<close>.

  The lemmas: the fold ends with one hash; two lists of the same length with one root are
  equal unless the folds exhibit a collision of \<open>node\<close>; and, because an odd level repeats its
  last hash, a list of odd length above one has the root of the list with its last item
  repeated.
\<close>

section \<open>The fold\<close>

fun merkle_pairs :: "('h \<Rightarrow> 'h \<Rightarrow> 'h) \<Rightarrow> 'h list \<Rightarrow> 'h list" where
  "merkle_pairs node [] = []"
| "merkle_pairs node [x] = [node x x]"
| "merkle_pairs node (x # y # r) = node x y # merkle_pairs node r"

lemma length_merkle_pairs [simp]: "length (merkle_pairs node xs) = (length xs + 1) div 2"
  by (induction node xs rule: merkle_pairs.induct) auto

function merkle_loop :: "('h \<Rightarrow> 'h \<Rightarrow> 'h) \<Rightarrow> 'h list \<Rightarrow> 'h list" where
  "merkle_loop node level =
     (if 1 < length level then merkle_loop node (merkle_pairs node level) else level)"
  by pat_completeness auto
termination
  by (relation "measure (\<lambda>(node, level). length level)") auto

declare merkle_loop.simps [simp del]

definition merkle_top :: "('h \<Rightarrow> 'h \<Rightarrow> 'h) \<Rightarrow> 'h list \<Rightarrow> 'h" where
  "merkle_top node level = merkle_loop node level ! 0"

definition merkle_node :: "'pk crypto_api \<Rightarrow> string \<Rightarrow> hash \<Rightarrow> hash \<Rightarrow> hash" where
  "merkle_node C tag a b = blake3 C (ascii tag @ a @ b)"

section \<open>Shape\<close>

lemma merkle_loop_single: "xs \<noteq> [] \<Longrightarrow> length (merkle_loop node xs) = 1"
proof (induction node xs rule: merkle_loop.induct)
  case (1 node level)
  show ?case
  proof (cases "1 < length level")
    case True
    then have "merkle_pairs node level \<noteq> []" by (cases "(node, level)" rule: merkle_pairs.cases) auto
    with True 1 show ?thesis by (simp add: merkle_loop.simps [of node level])
  next
    case False
    with "1.prems" show ?thesis by (cases level) (auto simp: merkle_loop.simps)
  qed
qed

lemma merkle_top_single [simp]: "merkle_top node [x] = x"
  by (simp add: merkle_top_def merkle_loop.simps)

lemma merkle_top_step: "1 < length xs \<Longrightarrow> merkle_top node xs = merkle_top node (merkle_pairs node xs)"
  by (simp add: merkle_top_def merkle_loop.simps [of node xs])

section \<open>The root determines the leaves, up to a collision\<close>

text \<open>The pairs of one level that are hashed.\<close>

fun level_pairs :: "'h list \<Rightarrow> ('h \<times> 'h) set" where
  "level_pairs [] = {}"
| "level_pairs [x] = {(x, x)}"
| "level_pairs (x # y # r) = insert (x, y) (level_pairs r)"

text \<open>All the pairs the whole fold hashes.\<close>

function fold_pairs :: "('h \<Rightarrow> 'h \<Rightarrow> 'h) \<Rightarrow> 'h list \<Rightarrow> ('h \<times> 'h) set" where
  "fold_pairs node xs =
     (if 1 < length xs then level_pairs xs \<union> fold_pairs node (merkle_pairs node xs) else {})"
  by pat_completeness auto
termination
  by (relation "measure (\<lambda>(node, xs). length xs)") auto

declare fold_pairs.simps [simp del]

lemma fold_pairs_step:
  "1 < length xs \<Longrightarrow>
     fold_pairs node xs = level_pairs xs \<union> fold_pairs node (merkle_pairs node xs)"
  by (simp add: fold_pairs.simps [of node xs])

definition node_collision :: "('h \<Rightarrow> 'h \<Rightarrow> 'h) \<Rightarrow> ('h \<times> 'h) set \<Rightarrow> ('h \<times> 'h) set \<Rightarrow> bool" where
  "node_collision node P Q \<longleftrightarrow>
     (\<exists>(a, b)\<in>P. \<exists>(c, d)\<in>Q. (a, b) \<noteq> (c, d) \<and> node a b = node c d)"

lemma node_collision_mono:
  "node_collision node P Q \<Longrightarrow> P \<subseteq> P' \<Longrightarrow> Q \<subseteq> Q' \<Longrightarrow> node_collision node P' Q'"
  unfolding node_collision_def by blast

lemma merkle_pairs_binds:
  assumes "length xs = length ys" and "merkle_pairs node xs = merkle_pairs node ys"
  shows "xs = ys \<or> node_collision node (level_pairs xs) (level_pairs ys)"
  using assms
proof (induction node xs arbitrary: ys rule: merkle_pairs.induct)
  case (1 node)
  then show ?case by simp
next
  case (2 node x)
  then obtain y where "ys = [y]" by (cases ys) auto
  with 2 show ?case by (auto simp: node_collision_def)
next
  case (3 node x y r)
  from "3.prems" obtain x' y' r' where ys: "ys = x' # y' # r'"
    by (auto simp: length_Suc_conv Suc_length_conv)
  show ?case
  proof (cases "(x, y) = (x', y')")
    case True
    with "3.IH" [of r'] "3.prems" ys show ?thesis
      by (auto intro: node_collision_mono)
  next
    case False
    with "3.prems" ys show ?thesis by (auto simp: node_collision_def)
  qed
qed

lemma merkle_top_binds:
  assumes "length xs = length ys" and "merkle_top node xs = merkle_top node ys" and "xs \<noteq> []"
  shows "xs = ys \<or> node_collision node (fold_pairs node xs) (fold_pairs node ys)"
  using assms
proof (induction node xs arbitrary: ys rule: merkle_loop.induct)
  case (1 node xs)
  show ?case
  proof (cases "1 < length xs")
    case True
    let ?px = "merkle_pairs node xs" and ?py = "merkle_pairs node ys"
    have "?px = ?py \<or> node_collision node (fold_pairs node ?px) (fold_pairs node ?py)"
      using True "1.prems" by (intro "1.IH") (auto simp: merkle_top_step simp flip: length_0_conv)
    then show ?thesis
    proof
      assume "?px = ?py"
      then have "xs = ys \<or> node_collision node (level_pairs xs) (level_pairs ys)"
        by (rule merkle_pairs_binds [OF "1.prems"(1)])
      then show ?thesis
        using True "1.prems"(1)
        by (auto simp: fold_pairs_step
            intro: node_collision_mono [OF _ Un_upper1 Un_upper1]
              node_collision_mono [OF _ Un_upper2 Un_upper2])
    next
      assume "node_collision node (fold_pairs node ?px) (fold_pairs node ?py)"
      then show ?thesis
        using True "1.prems"(1)
        by (auto simp: fold_pairs_step
            intro: node_collision_mono [OF _ Un_upper1 Un_upper1]
              node_collision_mono [OF _ Un_upper2 Un_upper2])
    qed
  next
    case False
    with "1.prems" obtain x y where "xs = [x]" "ys = [y]"
      by (cases xs; cases ys) auto
    with "1.prems" show ?thesis by simp
  qed
qed

section \<open>Odd levels repeat their last hash\<close>

lemma merkle_pairs_repeat_last:
  "even (length xs) \<Longrightarrow> merkle_pairs node (xs @ [x, x]) = merkle_pairs node (xs @ [x])"
  by (induction node xs rule: merkle_pairs.induct) auto

lemma merkle_top_repeat_last:
  assumes "even (length xs)" and "xs \<noteq> []"
  shows "merkle_top node (xs @ [x, x]) = merkle_top node (xs @ [x])"
  using assms by (cases xs) (auto simp: merkle_top_step merkle_pairs_repeat_last
      simp flip: append_Cons)

end
