(* ===== verification/Block.thy ===== *)
theory Block
  imports Transaction Merkle
begin

text \<open>
  \<open>crates/aevum-core/src/block.rs\<close>: candidates, previews, blocks, the block hash, the
  transaction root and the internal validation of a block.

  The lemmas: an exact description of the blocks that \<open>validate_internal\<close> accepts; the
  block hash commits to the header; the transaction root commits to the transaction hashes up
  to a collision, and repeating the last transaction of an odd block does not change it; a
  built block carries its own hash, root and size.
\<close>

section \<open>Data\<close>

definition MAX_BLOCK_BYTES :: nat where "MAX_BLOCK_BYTES = 16 * 1024 * 1024"
definition MAX_TRANSACTIONS :: nat where "MAX_TRANSACTIONS = 100000"

record settlement_checkpoint =
  cp_epoch_id :: u64
  cp_cursor :: u64
  cp_total_participants :: u64
  cp_participants_commitment :: bytes

record ('pk, 'zk, 'dna) block_candidate =
  cand_prev_hash :: hash
  cand_height :: u64
  cand_poh_tick_start :: u64
  cand_poh_tick_end :: u64
  cand_transactions :: "('pk, 'zk, 'dna) transaction list"
  cand_is_presence_block :: bool
  cand_settlement_checkpoint :: "settlement_checkpoint option"

datatype state_root = StateRoot (root_hash: hash)

record state_preview =
  pv_state_root :: state_root
  pv_new_total_supply :: u64

datatype block_error =
    ZeroStateRoot u64
  | ZeroSupply u64 u64
  | InvalidBlockHash hash hash
  | TooLarge nat nat
  | TooManyTransactions nat nat
  | InvalidPoHTicks u64 u64
  | InvalidTransactionsRoot hash hash
  | Consensus string

record ('pk, 'zk, 'dna) block =
  blk_prev_hash :: hash
  blk_height :: u64
  blk_poh_tick_start :: u64
  blk_poh_tick_end :: u64
  blk_transactions_root :: hash
  blk_transactions :: "('pk, 'zk, 'dna) transaction list"
  blk_state_root :: state_root
  blk_total_supply :: u64
  blk_block_hash :: hash
  blk_block_size :: nat
  blk_is_presence_block :: bool
  blk_settlement_checkpoint :: "settlement_checkpoint option"

section \<open>Hashes\<close>

definition compute_transactions_root ::
  "'pk crypto_api \<Rightarrow> ('pk, 'zk, 'dna) transaction list \<Rightarrow> hash" where
  "compute_transactions_root C txs =
     (if txs = [] then zero_hash
      else merkle_top (merkle_node C ''AEVUM_MERKLE_V15'') (map tx_hash txs))"

definition bool_byte :: "bool \<Rightarrow> u8" where
  "bool_byte b = (if b then 1 else 0)"

definition checkpoint_preimage :: "settlement_checkpoint option \<Rightarrow> bytes" where
  "checkpoint_preimage c =
     (case c of None \<Rightarrow> []
      | Some cp \<Rightarrow> le64 (cp_epoch_id cp) @ le64 (cp_cursor cp) @ le64 (cp_total_participants cp)
          @ cp_participants_commitment cp)"

definition block_preimage :: "('pk, 'zk, 'dna) block \<Rightarrow> bytes" where
  "block_preimage b =
     ascii ''AEVUM_BLOCK'' @ le64 (blk_height b) @ blk_prev_hash b
       @ le64 (blk_poh_tick_start b) @ le64 (blk_poh_tick_end b)
       @ blk_transactions_root b @ root_hash (blk_state_root b)
       @ le64 (blk_total_supply b) @ [bool_byte (blk_is_presence_block b)]
       @ checkpoint_preimage (blk_settlement_checkpoint b)"

definition block_compute_hash :: "'pk crypto_api \<Rightarrow> ('pk, 'zk, 'dna) block \<Rightarrow> hash" where
  "block_compute_hash C b = blake3 C (block_preimage b)"

section \<open>Construction\<close>

definition estimated_block_size :: "'a list \<Rightarrow> nat" where
  "estimated_block_size txs = usize_sat_add 256 (usize_sat_mul (length txs) 512)"

definition from_candidate ::
  "'pk crypto_api \<Rightarrow> ('pk, 'zk, 'dna) block_candidate \<Rightarrow> state_preview
     \<Rightarrow> (('pk, 'zk, 'dna) block, block_error) result" where
  "from_candidate C candidate preview =
     (if pv_state_root preview = StateRoot zero_hash \<and> 0 < cand_height candidate
        then Err (ZeroStateRoot (cand_height candidate))
      else if pv_new_total_supply preview = 0 \<and> 0 < cand_height candidate
        then Err (ZeroSupply (cand_height candidate) (pv_new_total_supply preview))
      else
        let block =
          \<lparr>blk_prev_hash = cand_prev_hash candidate, blk_height = cand_height candidate,
           blk_poh_tick_start = cand_poh_tick_start candidate,
           blk_poh_tick_end = cand_poh_tick_end candidate,
           blk_transactions_root = compute_transactions_root C (cand_transactions candidate),
           blk_transactions = cand_transactions candidate,
           blk_state_root = pv_state_root preview, blk_total_supply = pv_new_total_supply preview,
           blk_block_hash = zero_hash,
           blk_block_size = estimated_block_size (cand_transactions candidate),
           blk_is_presence_block = cand_is_presence_block candidate,
           blk_settlement_checkpoint = cand_settlement_checkpoint candidate\<rparr>
        in Ok (block\<lparr>blk_block_hash := block_compute_hash C block\<rparr>))"

definition block_new ::
  "'pk crypto_api \<Rightarrow> hash \<Rightarrow> u64 \<Rightarrow> u64 \<Rightarrow> u64 \<Rightarrow> ('pk, 'zk, 'dna) transaction list \<Rightarrow> hash \<Rightarrow> u64
     \<Rightarrow> ('pk, 'zk, 'dna) block" where
  "block_new C prev_hash height poh_start poh_end txs state_root supply =
     (let block =
        \<lparr>blk_prev_hash = prev_hash, blk_height = height, blk_poh_tick_start = poh_start,
         blk_poh_tick_end = poh_end, blk_transactions_root = compute_transactions_root C txs,
         blk_transactions = txs, blk_state_root = StateRoot state_root, blk_total_supply = supply,
         blk_block_hash = zero_hash, blk_block_size = estimated_block_size txs,
         blk_is_presence_block = True, blk_settlement_checkpoint = None\<rparr>
      in block\<lparr>blk_block_hash := block_compute_hash C block\<rparr>)"

definition finalize_state ::
  "'pk crypto_api \<Rightarrow> state_root \<Rightarrow> u64 \<Rightarrow> ('pk, 'zk, 'dna) block \<Rightarrow> ('pk, 'zk, 'dna) block" where
  "finalize_state C sr new_supply b =
     (let b' = b\<lparr>blk_state_root := sr, blk_total_supply := new_supply\<rparr>
      in b'\<lparr>blk_block_hash := block_compute_hash C b'\<rparr>)"

section \<open>Queries\<close>

definition block_is_genesis :: "('pk, 'zk, 'dna) block \<Rightarrow> bool" where
  "block_is_genesis b \<longleftrightarrow> blk_height b = 0 \<and> blk_prev_hash b = zero_hash"

definition heartbeat_tx :: "('pk, 'zk, 'dna) block \<Rightarrow> ('pk, 'zk, 'dna) transaction option" where
  "heartbeat_tx b =
     (case blk_transactions b of [] \<Rightarrow> None | t # _ \<Rightarrow> if is_heartbeat t then Some t else None)"

definition coinbase_tx :: "('pk, 'zk, 'dna) block \<Rightarrow> ('pk, 'zk, 'dna) transaction option" where
  "coinbase_tx b = find is_coinbase (blk_transactions b)"

section \<open>Validation\<close>

fun check_nullifiers :: "hash set \<Rightarrow> 'pk tx_input list \<Rightarrow> (hash set, block_error) result" where
  "check_nullifiers seen [] = Ok seen"
| "check_nullifiers seen (inp # r) =
     (if in_nullifier inp = replicate 32 0 then Err (Consensus ''zero nullifier'')
      else if in_nullifier inp \<in> seen then Err (Consensus ''duplicate nullifier'')
      else check_nullifiers (insert (in_nullifier inp) seen) r)"

text \<open>The loop over \<open>transactions.iter().enumerate()\<close>; \<open>sum()\<close> may overflow and panic.\<close>

fun check_txs ::
  "('pk, 'zk, 'dna) block \<Rightarrow> nat \<Rightarrow> u8 \<Rightarrow> u8 \<Rightarrow> hash set \<Rightarrow> ('pk, 'zk, 'dna) transaction list
     \<Rightarrow> (u8 \<times> u8, block_error) result" where
  "check_txs b i heartbeat coinbase seen [] = Ok (heartbeat, coinbase)"
| "check_txs b i heartbeat coinbase seen (tx # txs) =
     (if is_heartbeat tx then
        (if i \<noteq> 0 then Err (Consensus ''heartbeat not first'')
         else check_txs b (Suc i) (sat_add heartbeat 1) coinbase seen txs)
      else if is_coinbase tx then
        (if 1 < sat_add coinbase 1 then Err (Consensus ''duplicate coinbase'')
         else check_txs b (Suc i) heartbeat (sat_add coinbase 1) seen txs)
      else if tx_poh_tick tx < blk_poh_tick_start b \<or> blk_poh_tick_end b < tx_poh_tick tx
        then Err (Consensus ''tx outside PoH'')
      else (case check_nullifiers seen (tx_inputs tx) of
          Err e \<Rightarrow> Err e
        | Panic \<Rightarrow> Panic
        | Ok seen' \<Rightarrow>
            (case chk_sum (map out_amount (tx_outputs tx)) of
               None \<Rightarrow> Panic
             | Some out_sum \<Rightarrow>
                 if out_sum = 0 \<and> tx_fee tx = 0 then Err (Consensus ''zero value tx'')
                 else if 0 < tx_locktime tx \<and> blk_height b < tx_locktime tx
                   then Err (Consensus ''tx locked'')
                 else check_txs b (Suc i) heartbeat coinbase seen' txs)))"

definition validate_internal ::
  "'pk crypto_api \<Rightarrow> ('pk, 'zk, 'dna) block \<Rightarrow> (unit, block_error) result" where
  "validate_internal C b =
     (if blk_block_hash b \<noteq> block_compute_hash C b
        then Err (InvalidBlockHash (block_compute_hash C b) (blk_block_hash b))
      else if MAX_BLOCK_BYTES < blk_block_size b
        then Err (TooLarge (blk_block_size b) MAX_BLOCK_BYTES)
      else if blk_transactions b = [] \<or> MAX_TRANSACTIONS < length (blk_transactions b)
        then Err (TooManyTransactions (length (blk_transactions b)) MAX_TRANSACTIONS)
      else if blk_poh_tick_end b < blk_poh_tick_start b
        then Err (InvalidPoHTicks (blk_poh_tick_start b) (blk_poh_tick_end b))
      else if blk_transactions_root b \<noteq> compute_transactions_root C (blk_transactions b)
        then Err (InvalidTransactionsRoot (compute_transactions_root C (blk_transactions b))
               (blk_transactions_root b))
      else (case check_txs b 0 0 0 {} (blk_transactions b) of
          Err e \<Rightarrow> Err e
        | Panic \<Rightarrow> Panic
        | Ok (heartbeat, coinbase) \<Rightarrow>
            if heartbeat \<noteq> (if block_is_genesis b then 0 else 1) \<or> coinbase \<noteq> 1
            then Err (Consensus (''hb='' @ show_nat (unat heartbeat) @ '' cb='' @ show_nat (unat coinbase)))
            else Ok ()))"

section \<open>What a valid block is\<close>

definition is_ordinary :: "('pk, 'zk, 'dna) transaction \<Rightarrow> bool" where
  "is_ordinary tx \<longleftrightarrow> \<not> is_heartbeat tx \<and> \<not> is_coinbase tx"

definition spent_nullifiers :: "('pk, 'zk, 'dna) transaction list \<Rightarrow> hash list" where
  "spent_nullifiers txs = concat (map (\<lambda>tx. map in_nullifier (tx_inputs tx)) (filter is_ordinary txs))"

definition ordinary_ok :: "('pk, 'zk, 'dna) block \<Rightarrow> ('pk, 'zk, 'dna) transaction \<Rightarrow> bool" where
  "ordinary_ok b tx \<longleftrightarrow>
     blk_poh_tick_start b \<le> tx_poh_tick tx \<and> tx_poh_tick tx \<le> blk_poh_tick_end b
     \<and> (\<Sum>o'\<leftarrow>tx_outputs tx. unat (out_amount o')) < 2 ^ 64
     \<and> ((\<Sum>o'\<leftarrow>tx_outputs tx. unat (out_amount o')) \<noteq> 0 \<or> tx_fee tx \<noteq> 0)
     \<and> tx_locktime tx \<le> blk_height b"

definition block_body_ok :: "('pk, 'zk, 'dna) block \<Rightarrow> bool" where
  "block_body_ok b \<longleftrightarrow>
     (\<forall>tx\<in>set (blk_transactions b). is_ordinary tx \<longrightarrow> ordinary_ok b tx)
     \<and> distinct (spent_nullifiers (blk_transactions b))
     \<and> zero_hash \<notin> set (spent_nullifiers (blk_transactions b))
     \<and> length (filter is_coinbase (blk_transactions b)) = 1
     \<and> (\<forall>tx\<in>set (tl (blk_transactions b)). \<not> is_heartbeat tx)
     \<and> (is_heartbeat (hd (blk_transactions b)) \<longleftrightarrow> \<not> block_is_genesis b)"

lemma check_nullifiers_Ok_iff:
  "check_nullifiers seen ins = Ok seen' \<longleftrightarrow>
     distinct (map in_nullifier ins) \<and> zero_hash \<notin> set (map in_nullifier ins)
     \<and> set (map in_nullifier ins) \<inter> seen = {} \<and> seen' = seen \<union> set (map in_nullifier ins)"
  by (induction seen ins rule: check_nullifiers.induct) (auto simp: zero_hash_def)

lemma check_nullifiers_no_Panic: "check_nullifiers seen ins \<noteq> Panic"
  by (induction seen ins rule: check_nullifiers.induct) auto

lemma spent_nullifiers_simps [simp]:
  "spent_nullifiers [] = []"
  "spent_nullifiers (tx # txs) =
     (if is_ordinary tx then map in_nullifier (tx_inputs tx) else []) @ spent_nullifiers txs"
  by (simp_all add: spent_nullifiers_def)

lemma locked_iff: "0 < l \<and> h < l \<longleftrightarrow> h < l" for l h :: u64
  by (meson le_less_trans word_zero_le)

text \<open>One ordinary transaction passes the loop body exactly when it is well formed and fresh.\<close>

lemma check_txs_ordinary:
  assumes "is_ordinary tx"
  shows "check_txs b i hb cb seen (tx # txs) = Ok r \<longleftrightarrow>
    ordinary_ok b tx \<and> distinct (map in_nullifier (tx_inputs tx))
    \<and> zero_hash \<notin> set (map in_nullifier (tx_inputs tx))
    \<and> set (map in_nullifier (tx_inputs tx)) \<inter> seen = {}
    \<and> check_txs b (Suc i) hb cb (seen \<union> set (map in_nullifier (tx_inputs tx))) txs = Ok r"
proof (cases "check_nullifiers seen (tx_inputs tx)")
  case (Ok seen')
  note ok = Ok [unfolded check_nullifiers_Ok_iff]
  show ?thesis
  proof (cases "chk_sum (map out_amount (tx_outputs tx))")
    case None
    then have "2 ^ 64 \<le> (\<Sum>o'\<leftarrow>tx_outputs tx. unat (out_amount o'))"
      by (simp add: rust_arith comp_def)
    with None show ?thesis using assms Ok by (auto simp: is_ordinary_def ordinary_ok_def)
  next
    case (Some s)
    then have "unat s = (\<Sum>o'\<leftarrow>tx_outputs tx. unat (out_amount o'))"
      by (simp add: rust_arith comp_def)
    then have "s = 0 \<longleftrightarrow> (\<Sum>o'\<leftarrow>tx_outputs tx. unat (out_amount o')) = 0"
      and "(\<Sum>o'\<leftarrow>tx_outputs tx. unat (out_amount o')) < 2 ^ 64"
      using unat_lt_pow [of s] by (simp_all flip: unat_eq_zero)
    with assms Ok Some ok show ?thesis
      by (auto simp: is_ordinary_def ordinary_ok_def not_less locked_iff)
  qed
next
  case (Err e)
  then show ?thesis using assms check_nullifiers_Ok_iff [of seen "tx_inputs tx"]
    by (auto simp: is_ordinary_def)
next
  case Panic
  then show ?thesis by (simp add: check_nullifiers_no_Panic)
qed

lemma sat_add_1_u8: "unat c \<le> 1 \<Longrightarrow> unat (sat_add c 1 :: u8) = Suc (unat c)"
  by (simp add: unat_sat_add)

lemma check_txs_later:
  assumes "unat cb \<le> 1"
  shows "check_txs b (Suc i) hb cb seen txs = Ok (hb', cb') \<longleftrightarrow>
    (\<forall>tx\<in>set txs. \<not> is_heartbeat tx) \<and> (\<forall>tx\<in>set txs. is_ordinary tx \<longrightarrow> ordinary_ok b tx)
    \<and> distinct (spent_nullifiers txs) \<and> zero_hash \<notin> set (spent_nullifiers txs)
    \<and> set (spent_nullifiers txs) \<inter> seen = {}
    \<and> hb' = hb \<and> unat cb' = unat cb + length (filter is_coinbase txs) \<and> unat cb' \<le> 1"
  using assms
proof (induction txs arbitrary: i cb seen)
  case Nil
  then show ?case by (auto simp: word_unat_eq_iff)
next
  case (Cons tx txs)
  consider (hb) "is_heartbeat tx" | (cb) "is_coinbase tx" "\<not> is_heartbeat tx" | (ord) "is_ordinary tx"
    by (auto simp: is_ordinary_def)
  then show ?case
  proof cases
    case hb
    then show ?thesis by simp
  next
    case cb
    show ?thesis
    proof (cases "unat cb = 0")
      case True
      with Cons.prems have "unat (sat_add cb 1) = 1" by (simp add: sat_add_1_u8)
      with cb True Cons.IH [of "sat_add cb 1"] show ?thesis
        by (auto simp: is_ordinary_def word_less_nat_alt)
    next
      case False
      with Cons.prems have "unat (sat_add cb 1) = 2" by (simp add: sat_add_1_u8)
      with cb False show ?thesis by (auto simp: word_less_nat_alt)
    qed
  next
    case ord
    then have "\<not> is_heartbeat tx" "\<not> is_coinbase tx" by (simp_all add: is_ordinary_def)
    with ord Cons show ?thesis unfolding check_txs_ordinary [OF ord] by auto
  qed
qed

lemma check_txs_all:
  assumes "txs \<noteq> []"
  shows "check_txs b 0 0 0 {} txs = Ok (hb', cb') \<longleftrightarrow>
    (\<forall>tx\<in>set (tl txs). \<not> is_heartbeat tx) \<and> (\<forall>tx\<in>set txs. is_ordinary tx \<longrightarrow> ordinary_ok b tx)
    \<and> distinct (spent_nullifiers txs) \<and> zero_hash \<notin> set (spent_nullifiers txs)
    \<and> hb' = (if is_heartbeat (hd txs) then 1 else 0)
    \<and> unat cb' = length (filter is_coinbase txs) \<and> unat cb' \<le> 1"
proof -
  from assms obtain tx ts where txs: "txs = tx # ts" by (cases txs) auto
  have [simp]: "(sat_add 0 1 :: u8) = 1" by (simp add: sat_add_def)
  have [simp]: "\<not> is_ordinary tx" if "is_heartbeat tx \<or> is_coinbase tx" using that
    by (auto simp: is_ordinary_def)
  consider (hb) "is_heartbeat tx" | (cb) "is_coinbase tx" "\<not> is_heartbeat tx" | (ord) "is_ordinary tx"
    by (auto simp: is_ordinary_def)
  then show ?thesis
  proof cases
    case hb
    then have "\<not> is_coinbase tx" by (simp add: is_heartbeat_def is_coinbase_def)
    with hb show ?thesis by (auto simp: txs check_txs_later)
  next
    case cb
    then show ?thesis by (auto simp: txs check_txs_later)
  next
    case ord
    then have "\<not> is_heartbeat tx" "\<not> is_coinbase tx" by (simp_all add: is_ordinary_def)
    with ord show ?thesis unfolding txs check_txs_ordinary [OF ord] by (auto simp: check_txs_later)
  qed
qed

lemma validate_internal_iff:
  "validate_internal C b = Ok () \<longleftrightarrow>
     blk_block_hash b = block_compute_hash C b \<and> blk_block_size b \<le> MAX_BLOCK_BYTES
     \<and> blk_transactions b \<noteq> [] \<and> length (blk_transactions b) \<le> MAX_TRANSACTIONS
     \<and> blk_poh_tick_start b \<le> blk_poh_tick_end b
     \<and> blk_transactions_root b = compute_transactions_root C (blk_transactions b)
     \<and> block_body_ok b"
proof (cases "blk_transactions b = []")
  case True
  then show ?thesis by (simp add: validate_internal_def)
next
  case False
  have body: "block_body_ok b \<longleftrightarrow>
      check_txs b 0 0 0 {} (blk_transactions b) = Ok (if block_is_genesis b then 0 else 1, 1)"
    by (auto simp: check_txs_all [OF False] block_body_ok_def word_unat_eq_iff)
  show ?thesis unfolding body using False
    by (auto simp: validate_internal_def not_less split: result.splits)
qed

text \<open>C9. \<open>validate_internal\<close> accepts a block exactly when its hash and transaction root are
  the computed ones, size and count are within bounds, its ticks are ordered, and its body is
  sound: one coinbase, a heartbeat first and nowhere else (none in the genesis block), every
  ordinary transaction (of neither of these types) inside the tick window, past its locktime, with outputs
  that add up to less than 2 to the power of 64 and with outputs or fee not zero, and no nullifier of an
  ordinary transaction zero or spent twice in the block.\<close>

theorem validate_internal_accepts:
  "validate_internal C b = Ok () \<longleftrightarrow>
     blk_block_hash b = block_compute_hash C b \<and> blk_block_size b \<le> MAX_BLOCK_BYTES
     \<and> blk_transactions b \<noteq> [] \<and> length (blk_transactions b) \<le> MAX_TRANSACTIONS
     \<and> blk_poh_tick_start b \<le> blk_poh_tick_end b
     \<and> blk_transactions_root b = compute_transactions_root C (blk_transactions b)
     \<and> block_body_ok b"
  by (rule validate_internal_iff)

section \<open>When the check panics\<close>

text \<open>The first transaction on which the loop over the transactions stops with an overflow: the ones before it
  pass, it passes the checks that come before its sum, and its outputs add up to \<open>2\<^sup>6\<^sup>4\<close> or more.\<close>

definition overflows_first ::
  "('pk, 'zk, 'dna) block \<Rightarrow> nat \<Rightarrow> u8 \<Rightarrow> u8 \<Rightarrow> hash set \<Rightarrow> ('pk, 'zk, 'dna) transaction list
     \<Rightarrow> ('pk, 'zk, 'dna) transaction \<Rightarrow> bool" where
  "overflows_first b i hb cb seen pre tx \<longleftrightarrow>
     is_ok (check_txs b i hb cb seen pre) \<and> is_ordinary tx
     \<and> blk_poh_tick_start b \<le> tx_poh_tick tx \<and> tx_poh_tick tx \<le> blk_poh_tick_end b
     \<and> distinct (map in_nullifier (tx_inputs tx)) \<and> zero_hash \<notin> set (map in_nullifier (tx_inputs tx))
     \<and> set (map in_nullifier (tx_inputs tx)) \<inter> (seen \<union> set (spent_nullifiers pre)) = {}
     \<and> 2 ^ 64 \<le> (\<Sum>o'\<leftarrow>tx_outputs tx. unat (out_amount o'))"

lemma check_nullifiers_cases:
  obtains (fresh) "check_nullifiers seen ins = Ok (seen \<union> set (map in_nullifier ins))"
      and "distinct (map in_nullifier ins)" and "zero_hash \<notin> set (map in_nullifier ins)"
      and "set (map in_nullifier ins) \<inter> seen = {}"
  | (bad) e where "check_nullifiers seen ins = Err e"
      and "\<not> (distinct (map in_nullifier ins) \<and> zero_hash \<notin> set (map in_nullifier ins)
              \<and> set (map in_nullifier ins) \<inter> seen = {})"
proof (cases "check_nullifiers seen ins")
  case (Ok seen')
  with check_nullifiers_Ok_iff [of seen ins seen'] fresh show thesis by auto
next
  case (Err e)
  with check_nullifiers_Ok_iff [of seen ins] bad show thesis by auto
qed (simp add: check_nullifiers_no_Panic)

lemma check_txs_Panic_iff:
  "check_txs b i hb cb seen txs = Panic \<longleftrightarrow>
     (\<exists>pre tx post. txs = pre @ tx # post \<and> overflows_first b i hb cb seen pre tx)"
proof (induction txs arbitrary: i hb cb seen)
  case (Cons t txs)
  have split: "(\<exists>pre tx post. t # txs = pre @ tx # post \<and> P pre tx) \<longleftrightarrow>
      P [] t \<or> (\<exists>pre tx post. txs = pre @ tx # post \<and> P (t # pre) tx)" for P
    by (simp add: Cons_eq_append_conv) blast
  show ?case
    unfolding split
  proof (cases "is_ordinary t")
    case False
    then show "check_txs b i hb cb seen (t # txs) = Panic \<longleftrightarrow> overflows_first b i hb cb seen [] t
        \<or> (\<exists>pre tx post. txs = pre @ tx # post \<and> overflows_first b i hb cb seen (t # pre) tx)"
      by (auto simp: Cons.IH overflows_first_def is_ordinary_def split: if_splits)
  next
    case True
    show "check_txs b i hb cb seen (t # txs) = Panic \<longleftrightarrow> overflows_first b i hb cb seen [] t
        \<or> (\<exists>pre tx post. txs = pre @ tx # post \<and> overflows_first b i hb cb seen (t # pre) tx)"
    proof (cases "blk_poh_tick_start b \<le> tx_poh_tick t \<and> tx_poh_tick t \<le> blk_poh_tick_end b")
      case False
      with True show ?thesis by (auto simp: overflows_first_def is_ordinary_def)
    next
      case ticks: True
      show ?thesis
      proof (cases rule: check_nullifiers_cases [of seen "tx_inputs t"])
        case (bad e)
        with True ticks show ?thesis by (auto simp: overflows_first_def is_ordinary_def)
      next
        case fresh
        show ?thesis
        proof (cases "chk_sum (map out_amount (tx_outputs t))")
          case None
          then have "2 ^ 64 \<le> (\<Sum>o'\<leftarrow>tx_outputs t. unat (out_amount o'))"
            by (simp add: chk_sum_None_iff comp_def)
          with True ticks fresh None show ?thesis
            by (auto simp: overflows_first_def is_ordinary_def not_less)
        next
          case (Some v)
          then have "\<not> overflows_first b i hb cb seen [] t"
            using chk_sum_None_iff [of "map out_amount (tx_outputs t)"] by (simp add: overflows_first_def comp_def)
          with True ticks fresh Some Cons.IH show ?thesis
            by (auto simp: overflows_first_def is_ordinary_def Un_assoc)
        qed
      qed
    qed
  qed
qed (simp add: overflows_first_def)
text \<open>C10. \<open>validate_internal\<close> ends in a panic exactly for a block whose hash, sizes, ticks and root pass, and in which
  some ordinary transaction, reached by the loop because all before it pass and its own tick and nullifiers
  are good, has outputs that add up to \<open>2\<^sup>6\<^sup>4\<close> or more. Every other block gets a verdict.\<close>

theorem validate_internal_panics:
  "validate_internal C b = Panic \<longleftrightarrow>
     blk_block_hash b = block_compute_hash C b \<and> blk_block_size b \<le> MAX_BLOCK_BYTES
     \<and> length (blk_transactions b) \<le> MAX_TRANSACTIONS
     \<and> blk_poh_tick_start b \<le> blk_poh_tick_end b
     \<and> blk_transactions_root b = compute_transactions_root C (blk_transactions b)
     \<and> (\<exists>pre tx post. blk_transactions b = pre @ tx # post \<and> overflows_first b 0 0 0 {} pre tx)"
  unfolding check_txs_Panic_iff [symmetric]
  by (cases "blk_transactions b = []") (auto simp: validate_internal_def split: result.splits)

text \<open>Two outputs of \<open>2\<^sup>6\<^sup>3\<close> are enough, and anyone can send such a block.\<close>

definition half_output :: "(u8, unit, unit) tx_output" where
  "half_output =
     \<lparr>out_amount = 0x8000000000000000, out_owner = 0, out_amount_commitment = [], out_tag_commitment = [],
      out_nullifier = [], out_serial = 0, out_zk_proof = (), out_tx_hash = [], out_view_key_public = [],
      out_encrypted_amount = [], out_auth_tag = [], out_restriction_level = 0, out_output_index = 0,
      out_taint_distance = 0, out_taint_origin = 0, out_taint_timestamp = 0, out_dna = (), out_dna_range_id = None\<rparr>"

lemma half_outputs_overflow: "chk_sum (map out_amount [half_output, half_output]) = None"
  by (simp add: chk_sum_None_iff half_output_def)

lemma overflow_block_panics:
  "a \<le> z \<Longrightarrow>
     validate_internal C (block_new C p h a z [tx_new_raw 1 2 [] [half_output, half_output] fee a 0] sr su) = Panic"
  using half_outputs_overflow
  by (simp add: validate_internal_def block_new_def tx_new_raw_def is_heartbeat_def is_coinbase_def Let_def
      block_compute_hash_def block_preimage_def estimated_block_size_def usize_sat_add_def usize_sat_mul_def
      USIZE_MAX_def MAX_BLOCK_BYTES_def MAX_TRANSACTIONS_def)

section \<open>The block hash\<close>

definition checkpoint_wf :: "settlement_checkpoint option \<Rightarrow> bool" where
  "checkpoint_wf c \<longleftrightarrow> (\<forall>cp. c = Some cp \<longrightarrow> length (cp_participants_commitment cp) = 32)"

definition block_wf :: "('pk, 'zk, 'dna) block \<Rightarrow> bool" where
  "block_wf b \<longleftrightarrow> length (blk_prev_hash b) = 32 \<and> length (blk_transactions_root b) = 32
     \<and> length (root_hash (blk_state_root b)) = 32 \<and> checkpoint_wf (blk_settlement_checkpoint b)"

definition block_header :: "('pk, 'zk, 'dna) block \<Rightarrow>
  u64 \<times> hash \<times> u64 \<times> u64 \<times> hash \<times> state_root \<times> u64 \<times> bool \<times> settlement_checkpoint option" where
  "block_header b = (blk_height b, blk_prev_hash b, blk_poh_tick_start b, blk_poh_tick_end b,
     blk_transactions_root b, blk_state_root b, blk_total_supply b, blk_is_presence_block b,
     blk_settlement_checkpoint b)"

lemma checkpoint_preimage_inj:
  "checkpoint_wf c \<Longrightarrow> checkpoint_wf d \<Longrightarrow> checkpoint_preimage c = checkpoint_preimage d \<Longrightarrow> c = d"
  by (cases c; cases d)
    (auto simp: checkpoint_preimage_def checkpoint_wf_def simp flip: length_0_conv)

lemma bool_byte_inj [simp]: "bool_byte a = bool_byte b \<longleftrightarrow> a = b"
  by (auto simp: bool_byte_def split: if_splits)

lemma block_preimage_binds:
  assumes "block_wf x" and "block_wf y" and "block_preimage x = block_preimage y"
  shows "block_header x = block_header y"
  using assms
  by (auto simp: block_preimage_def block_wf_def block_header_def intro: checkpoint_preimage_inj
      state_root.expand)

interpretation block_binding: binding block_preimage block_wf block_header
  by unfold_locales (rule block_preimage_binds)

lemma block_preimage_header:
  "block_header x = block_header y \<Longrightarrow> block_preimage x = block_preimage y"
  by (simp add: block_header_def block_preimage_def)

text \<open>C33. The block hash commits to the whole header, the optional settlement checkpoint
  included: two blocks whose preimages are not a BLAKE3 collision have the same hash if and only
  if their headers are equal. (Block size and the transaction bodies are not hashed directly.)\<close>

theorem block_hash_commits:
  fixes x y :: "('pk, 'zk, 'dna) block"
  assumes "block_wf x" and "block_wf y" and "no_collision C (block_preimage x) (block_preimage y)"
  shows "block_compute_hash C x = block_compute_hash C y \<longleftrightarrow> block_header x = block_header y"
  using block_binding.hash_binds [OF assms] block_preimage_header [of x y]
  by (auto simp: block_compute_hash_def)

definition sample_block :: "u64 \<Rightarrow> (u8, unit, unit) block" where
  "sample_block h = block_new sample_crypto zero_hash h 0 0 [] zero_hash 7"

theorem block_hash_commits_witness:
  "block_compute_hash sample_crypto (sample_block 1) \<noteq> block_compute_hash sample_crypto (sample_block 2)"
  using block_hash_commits [of "sample_block 1" "sample_block 2" sample_crypto]
  by (simp add: sample_block_def block_new_def block_wf_def checkpoint_wf_def block_header_def
      compute_transactions_root_def)

section \<open>The transaction root\<close>

text \<open>The transaction root commits to the transaction hashes: two non-empty lists with the
  same number of transactions and the same root list the same hashes, or else the two Merkle
  folds exhibit two different pairs with one node hash.\<close>

theorem transactions_root_commits:
  assumes "txs \<noteq> []" and "length txs = length txs'"
    and "compute_transactions_root C txs = compute_transactions_root C txs'"
  shows "map tx_hash txs = map tx_hash txs'
    \<or> node_collision (merkle_node C ''AEVUM_MERKLE_V15'')
        (fold_pairs (merkle_node C ''AEVUM_MERKLE_V15'') (map tx_hash txs))
        (fold_pairs (merkle_node C ''AEVUM_MERKLE_V15'') (map tx_hash txs'))"
proof -
  from assms(1,2) have "txs' \<noteq> []" by auto
  with assms show ?thesis
    by (intro merkle_top_binds) (auto simp: compute_transactions_root_def)
qed

definition sample_tx :: "u64 \<Rightarrow> (u8, unit, unit) transaction" where
  "sample_tx f = tx_new sample_crypto [] [] f"

theorem transactions_root_commits_witness:
  "map tx_hash [sample_tx 1, sample_tx 2] = map tx_hash [sample_tx 1, sample_tx 2]
    \<or> node_collision (merkle_node sample_crypto ''AEVUM_MERKLE_V15'')
        (fold_pairs (merkle_node sample_crypto ''AEVUM_MERKLE_V15'') (map tx_hash [sample_tx 1, sample_tx 2]))
        (fold_pairs (merkle_node sample_crypto ''AEVUM_MERKLE_V15'') (map tx_hash [sample_tx 1, sample_tx 2]))"
  by (rule transactions_root_commits) simp_all

text \<open>The root does not commit to the number of transactions: repeating the last
  transaction of a list of odd length above one leaves the root unchanged, because the fold
  pairs the last hash of an odd level with itself.\<close>

theorem transactions_root_repeat_last:
  assumes "even (length txs)" and "txs \<noteq> []"
  shows "compute_transactions_root C (txs @ [t, t]) = compute_transactions_root C (txs @ [t])"
  using assms by (simp add: compute_transactions_root_def merkle_top_repeat_last)

theorem transactions_root_repeat_last_witness:
  "compute_transactions_root sample_crypto [sample_tx 1, sample_tx 2, sample_tx 3, sample_tx 3]
     = compute_transactions_root sample_crypto [sample_tx 1, sample_tx 2, sample_tx 3]"
  using transactions_root_repeat_last [of "[sample_tx 1, sample_tx 2]" sample_crypto "sample_tx 3"]
  by simp

section \<open>Built blocks\<close>

lemma block_compute_hash_upd_hash [simp]:
  "block_compute_hash C (b\<lparr>blk_block_hash := h\<rparr>) = block_compute_hash C b"
  by (simp add: block_compute_hash_def block_preimage_def)

lemma from_candidate_Ok:
  assumes "from_candidate C cand pv = Ok b"
  shows "blk_block_hash b = block_compute_hash C b"
    and "blk_transactions b = cand_transactions cand"
    and "blk_transactions_root b = compute_transactions_root C (cand_transactions cand)"
    and "blk_block_size b = estimated_block_size (cand_transactions cand)"
    and "blk_poh_tick_start b = cand_poh_tick_start cand"
    and "blk_poh_tick_end b = cand_poh_tick_end cand"
  using assms
  by (auto simp: from_candidate_def Let_def block_compute_hash_def block_preimage_def split: if_splits)

lemma estimated_block_size_bound:
  "estimated_block_size txs \<le> MAX_BLOCK_BYTES \<longleftrightarrow> length txs \<le> 32767"
  by (auto simp: estimated_block_size_def usize_sat_add_def usize_sat_mul_def USIZE_MAX_def
      MAX_BLOCK_BYTES_def min_def)

text \<open>A block built from a candidate always carries the right hash and root, so it is
  valid exactly when its body is sound, its ticks are ordered, and it has between 1 and 32767
  transactions: the size estimate of 512 bytes per transaction meets the 16 MiB limit long before
  the limit of 100000 transactions.\<close>

theorem from_candidate_valid:
  assumes "from_candidate C cand pv = Ok b"
  shows "validate_internal C b = Ok () \<longleftrightarrow>
    0 < length (cand_transactions cand) \<and> length (cand_transactions cand) \<le> 32767
    \<and> cand_poh_tick_start cand \<le> cand_poh_tick_end cand \<and> block_body_ok b"
  using from_candidate_Ok [OF assms] estimated_block_size_bound [of "cand_transactions cand"]
  by (auto simp: validate_internal_iff MAX_TRANSACTIONS_def)

definition sample_candidate :: "(u8, unit, unit) block_candidate" where
  "sample_candidate =
     \<lparr>cand_prev_hash = zero_hash, cand_height = 0, cand_poh_tick_start = 0, cand_poh_tick_end = 9,
      cand_transactions = [tx_new_coinbase sample_crypto [] 0 2], cand_is_presence_block = True,
      cand_settlement_checkpoint = None\<rparr>"

definition sample_preview :: state_preview where
  "sample_preview = \<lparr>pv_state_root = StateRoot zero_hash, pv_new_total_supply = 5\<rparr>"

theorem from_candidate_valid_witness:
  "\<exists>b. from_candidate sample_crypto sample_candidate sample_preview = Ok b
     \<and> validate_internal sample_crypto b = Ok ()"
proof -
  obtain b where b: "from_candidate sample_crypto sample_candidate sample_preview = Ok b"
    and "blk_height b = 0" and "blk_prev_hash b = zero_hash"
    by (simp add: from_candidate_def sample_candidate_def Let_def)
  then have "block_body_ok b"
    using from_candidate_Ok(2) [OF b]
    by (simp add: block_body_ok_def sample_candidate_def spent_nullifiers_def is_ordinary_def
        tx_new_coinbase_def tx_compute_hash_def is_coinbase_def is_heartbeat_def block_is_genesis_def)
  with b from_candidate_valid [OF b] show ?thesis by (simp add: sample_candidate_def)
qed

end
