(* ===== verification/Economics.thy ===== *)
theory Economics
  imports Transaction
begin

text \<open>
  \<open>crates/aevum-core/src/economics.rs\<close>: block reward with halving, cumulative emission in
  closed form, the fee split, and the coinbase constructor.

  The lemmas: the closed form is the sum of the block rewards capped at the maximal supply, for
  every height; the split of a fee loses nothing; a coinbase pays exactly the reward and the fee
  and never lifts the supply above its maximum.
\<close>

section \<open>Constants\<close>

definition SAT :: u64 where "SAT = 100000000"
definition INITIAL_REWARD :: u64 where "INITIAL_REWARD = 10000 * SAT"
definition HALVING_INTERVAL :: u64 where "HALVING_INTERVAL = 350000"
definition MAX_SUPPLY :: u64 where "MAX_SUPPLY = 371000000 * SAT"
definition FEE_BPS :: u64 where "FEE_BPS = 10"
definition DEV_SHARE_BPS :: u64 where "DEV_SHARE_BPS = 1000"

lemmas econ_consts = SAT_def INITIAL_REWARD_def HALVING_INTERVAL_def MAX_SUPPLY_def FEE_BPS_def
  DEV_SHARE_BPS_def

section \<open>Operations\<close>

definition block_reward :: "u64 \<Rightarrow> u64" where
  "block_reward height =
     (let halving = height div HALVING_INTERVAL
      in if 63 \<le> halving then 0 else drop_bit (unat halving) INITIAL_REWARD)"

text \<open>
  All intermediate values are \<open>u128\<close> and stay below \<open>2\<^sup>6\<^sup>0\<close>, so the plain operations are exact
  (\<open>unat_emitted\<close> below shows it).
\<close>

definition emitted :: "u64 \<Rightarrow> u64" where
  "emitted height =
     (let h = min height (HALVING_INTERVAL * 63);
          full_periods = h div HALVING_INTERVAL;
          remainder = h mod HALVING_INTERVAL;
          two_initial_interval = 2 * ucast INITIAL_REWARD * ucast HALVING_INTERVAL :: u128;
          complete_sum =
            (if full_periods = 0 then 0
             else if 63 \<le> full_periods then two_initial_interval
             else two_initial_interval - drop_bit (unat full_periods) two_initial_interval);
          current_reward =
            (if 63 \<le> full_periods then 0 else drop_bit (unat full_periods) (ucast INITIAL_REWARD :: u128));
          partial = current_reward * ucast remainder
      in ucast (min (complete_sum + partial) (ucast MAX_SUPPLY)))"

definition fee :: "u64 \<Rightarrow> u64 \<times> u64" where
  "fee amount =
     (let gross = max (sat_mul amount FEE_BPS div 10000) 1;
          dev = sat_mul gross DEV_SHARE_BPS div 10000;
          net = sat_sub gross dev
      in (net, dev))"

definition create_coinbase ::
  "'pk crypto_api \<Rightarrow> ('u, 'pk, 'zk, 'dna) jt_api \<Rightarrow> 'pk \<Rightarrow> u64 \<Rightarrow> u64 \<Rightarrow> 'pk \<Rightarrow> u64 \<Rightarrow> u64
     \<Rightarrow> (('pk, 'zk, 'dna) transaction, string) result" where
  "create_coinbase C J miner height fees dev supply epoch =
     (if MAX_SUPPLY < supply then Err ''invalid supply parameter''
      else
        let base = block_reward height;
            (net_fee, dev_cut) = fee fees;
            miner_reward = sat_add base net_fee;
            reward_total = sat_add miner_reward dev_cut
        in if MAX_SUPPLY < sat_add supply reward_total then Err ''supply cap exceeded''
           else
             let outputs = output_new_coinbase C J miner miner_reward epoch 0
                   # (if 0 < dev_cut then [output_new_coinbase C J dev dev_cut epoch 1] else [])
             in Ok (tx_compute_hash C (tx_new_raw 1 2 [] outputs 0 epoch height)))"

definition halving :: "u64 \<Rightarrow> u64" where
  "halving height = height div HALVING_INTERVAL"

definition remaining :: "u64 \<Rightarrow> u64" where
  "remaining supply = sat_sub MAX_SUPPLY supply"

section \<open>Emission\<close>

lemma unat_INITIAL_REWARD [simp]: "unat INITIAL_REWARD = 1000000000000"
  by (simp add: econ_consts)

lemma unat_MAX_SUPPLY [simp]: "unat MAX_SUPPLY = 37100000000000000"
  by (simp add: econ_consts)

lemma unat_HALVING_INTERVAL [simp]: "unat HALVING_INTERVAL = 350000"
  by (simp add: econ_consts)

lemma unat_block_reward:
  "unat (block_reward h) =
     (if 63 \<le> unat h div 350000 then 0 else 1000000000000 div 2 ^ (unat h div 350000))"
  by (simp add: block_reward_def Let_def word_le_nat_alt unat_div_word unat_drop_bit_eq
      drop_bit_eq_div [where 'a = nat])

lemma block_reward_le: "unat (block_reward h) \<le> 1000000000000"
  by (simp add: unat_block_reward)

text \<open>The \<open>u128\<close> computation, read as natural numbers.\<close>

definition emitted_spec :: "nat \<Rightarrow> nat" where
  "emitted_spec height =
     (let h = min height 22050000; n = h div 350000; r = h mod 350000;
          complete = (if n = 0 then 0 else if 63 \<le> n then 700000000000000000
            else 700000000000000000 - 700000000000000000 div 2 ^ n);
          cur = (if 63 \<le> n then 0 else 1000000000000 div 2 ^ n)
      in min (complete + cur * r) 37100000000000000)"

lemma unat_drop_bit_u128: "unat (drop_bit n w) = unat w div 2 ^ n" for w :: u128
  by (simp add: unat_drop_bit_eq drop_bit_eq_div [where 'a = nat])

lemma min_mult_bound:
  assumes "(r::nat) < 350000" and "c \<le> 1000000000000"
  shows "c * r \<le> 350000000000000000"
  using mult_le_mono [of c 1000000000000 r 350000] assms by simp

lemma unat_emitted: "unat (emitted h) = emitted_spec (unat h)"
proof -
  define n where "n = min h (HALVING_INTERVAL * 63) div HALVING_INTERVAL"
  define r where "r = min h (HALVING_INTERVAL * 63) mod HALVING_INTERVAL"
  define t where "t = (2 * ucast INITIAL_REWARD * ucast HALVING_INTERVAL :: u128)"
  define cs where "cs = (if n = 0 then 0 else if 63 \<le> n then t else t - drop_bit (unat n) t)"
  define cr where "cr = (if 63 \<le> n then 0 else drop_bit (unat n) (ucast INITIAL_REWARD :: u128))"
  have min_h: "unat (min h (HALVING_INTERVAL * 63)) = min (unat h) 22050000"
    by (simp add: min_def word_le_nat_alt econ_consts)
  have n: "unat n = min (unat h) 22050000 div 350000"
    and r: "unat r = min (unat h) 22050000 mod 350000"
    by (simp_all add: n_def r_def unat_div_word unat_mod_word min_h)
  have t: "unat t = 700000000000000000" by (simp add: t_def econ_consts)
  have cs: "unat cs = (if unat n = 0 then 0 else if 63 \<le> unat n then 700000000000000000
      else 700000000000000000 - 700000000000000000 div 2 ^ unat n)"
    by (simp add: cs_def unat_eq_zero word_le_nat_alt unat_sub_if' unat_drop_bit_u128 t)
  have cr: "unat cr = (if 63 \<le> unat n then 0 else 1000000000000 div 2 ^ unat n)"
    by (simp add: cr_def word_le_nat_alt unat_drop_bit_u128 econ_consts)
  have r_lt: "unat r < 350000" by (simp add: r)
  have rr: "unat (ucast r :: u128) = unat r"
    using r_lt by (simp add: unsigned_ucast_eq take_bit_nat_eq_self_iff)
  have cr_le: "unat cr \<le> 1000000000000" by (simp add: cr)
  have prod: "unat cr * unat r \<le> 350000000000000000" using r_lt cr_le by (rule min_mult_bound)
  have part: "unat (cr * ucast r) = unat cr * unat r"
    using prod by (simp add: unat_word_ariths rr)
  have cs_le: "unat cs \<le> 700000000000000000" by (simp add: cs)
  have total: "unat (cs + cr * ucast r) = unat cs + unat cr * unat r"
    using prod cs_le by (simp add: unat_word_ariths rr)
  have e: "emitted h = ucast (min (cs + cr * ucast r) (ucast MAX_SUPPLY))"
    by (simp add: emitted_def Let_def n_def r_def t_def cs_def cr_def)
  have "unat (min (cs + cr * ucast r) (ucast MAX_SUPPLY :: u128))
      = min (unat cs + unat cr * unat r) 37100000000000000"
    by (simp add: min_def word_le_nat_alt total econ_consts)
  then have "unat (emitted h) = min (unat cs + unat cr * unat r) 37100000000000000"
    by (simp add: e unsigned_ucast_eq take_bit_nat_eq_self_iff)
  then show ?thesis by (simp only: emitted_spec_def Let_def cs cr n r)
qed

text \<open>The sum the closed form stands for.\<close>

definition rewards_up_to :: "nat \<Rightarrow> nat" where
  "rewards_up_to n = (\<Sum>i<n. unat (block_reward (of_nat i)))"

lemma rewards_up_to_first_period:
  assumes "n \<le> 350000"
  shows "rewards_up_to n = n * 1000000000000"
proof -
  have "unat (block_reward (of_nat i)) = 1000000000000" if "i < n" for i
  proof -
    have "unat (of_nat i :: u64) = i" using that assms by (simp add: unat_of_nat)
    then show ?thesis using that assms by (simp add: unat_block_reward)
  qed
  then show ?thesis by (simp add: rewards_up_to_def)
qed

lemma rewards_up_to_mono: "m \<le> n \<Longrightarrow> rewards_up_to m \<le> rewards_up_to n"
  unfolding rewards_up_to_def by (rule sum_mono2) auto

lemma emitted_spec_after_first_period:
  assumes "350000 \<le> n"
  shows "emitted_spec n = 37100000000000000"
proof -
  let ?k = "min n 22050000 div 350000"
  have "1 \<le> ?k" using assms div_le_mono [of 350000 "min n 22050000" 350000] by simp
  then have "(2::nat) ^ 1 \<le> 2 ^ ?k" by (rule power_increasing) simp
  then have "(700000000000000000::nat) div 2 ^ ?k \<le> 700000000000000000 div 2"
    by (intro div_le_mono2) auto
  then show ?thesis using \<open>1 \<le> ?k\<close> by (auto simp: emitted_spec_def Let_def min_def)
qed

lemma unat_emitted_capped: "unat (emitted h) = min (rewards_up_to (unat h)) 37100000000000000"
proof (cases "unat h < 350000")
  case True
  then show ?thesis
    by (simp add: unat_emitted emitted_spec_def Let_def rewards_up_to_first_period min_def)
next
  case False
  then have "rewards_up_to 350000 \<le> rewards_up_to (unat h)" by (intro rewards_up_to_mono) simp
  with False show ?thesis
    by (simp add: unat_emitted emitted_spec_after_first_period rewards_up_to_first_period min_def)
qed

text \<open>C28. The closed form of the emission is the sum it replaces: for every height,
  \<open>emitted\<close> is the sum of the block rewards below that height, capped at the maximal supply.\<close>

theorem emitted_is_capped_sum:
  "unat (emitted h) = min (\<Sum>i<unat h. unat (block_reward (of_nat i))) (unat MAX_SUPPLY)"
  using unat_emitted_capped [of h] by (simp add: rewards_up_to_def)

text \<open>The cap is reached at height 37100, far inside the first halving period: the emission
  is already the maximal supply there (so also at height 500000), while the block reward is still
  the initial one.\<close>

theorem emission_cap_height:
  "37100 \<le> h \<Longrightarrow> emitted h = MAX_SUPPLY \<and> emitted 37099 < MAX_SUPPLY
     \<and> block_reward 37100 = INITIAL_REWARD"
proof -
  assume "37100 \<le> h"
  then have "37100 \<le> unat h" by (simp add: word_le_nat_alt)
  then have "rewards_up_to 37100 \<le> rewards_up_to (unat h)" by (rule rewards_up_to_mono)
  then have "unat (emitted h) = unat MAX_SUPPLY"
    by (simp add: unat_emitted_capped rewards_up_to_first_period)
  moreover have "unat (emitted 37099) < unat MAX_SUPPLY"
    by (simp add: unat_emitted_capped rewards_up_to_first_period)
  moreover have "unat (block_reward 37100) = unat INITIAL_REWARD" by (simp add: unat_block_reward)
  ultimately show ?thesis by (simp add: word_unat_eq_iff word_less_nat_alt)
qed

theorem emission_cap_height_witness: "emitted 500000 = MAX_SUPPLY"
  using emission_cap_height [of 500000] by simp

section \<open>Fees and the coinbase\<close>

definition gross_fee :: "nat \<Rightarrow> nat" where
  "gross_fee amount = max (min (amount * 10) (2 ^ 64 - 1) div 10000) 1"

lemma gross_fee_bound: "gross_fee a \<le> 1844674407370955"
proof -
  have "min (a * 10) 18446744073709551615 div 10000 \<le> 18446744073709551615 div (10000::nat)"
    by (rule div_le_mono) simp
  then show ?thesis by (simp add: gross_fee_def)
qed

lemma unat_fee:
  "unat (snd (fee a)) = gross_fee (unat a) * 1000 div 10000"
  "unat (fst (fee a)) = gross_fee (unat a) - gross_fee (unat a) * 1000 div 10000"
proof -
  define g where "g = max (sat_mul a FEE_BPS div 10000) 1"
  have g: "unat g = gross_fee (unat a)"
    by (simp add: g_def gross_fee_def unat_max_eq unat_div_word unat_sat_mul econ_consts)
  have dev: "unat (sat_mul g DEV_SHARE_BPS div 10000) = gross_fee (unat a) * 1000 div 10000"
    using gross_fee_bound [of "unat a"] by (simp add: unat_div_word unat_sat_mul g econ_consts)
  have fee: "fee a = (sat_sub g (sat_mul g DEV_SHARE_BPS div 10000), sat_mul g DEV_SHARE_BPS div 10000)"
    by (simp add: fee_def Let_def g_def)
  show "unat (snd (fee a)) = gross_fee (unat a) * 1000 div 10000" by (simp add: fee dev)
  show "unat (fst (fee a)) = gross_fee (unat a) - gross_fee (unat a) * 1000 div 10000"
    by (simp add: fee dev unat_sat_sub g)
qed

lemma fee_split: "unat (fst (fee a)) + unat (snd (fee a)) = gross_fee (unat a)"
  by (simp add: unat_fee)


definition sample_jt :: "(unit, u8, unit, unit) jt_api" where
  "sample_jt =
     \<lparr>jt_amount = (\<lambda>_. 0), jt_owner = (\<lambda>_. 0), jt_amount_commitment = (\<lambda>_. zero_hash),
      jt_tag_commitment = (\<lambda>_. zero_hash), jt_nullifier = (\<lambda>_. zero_hash), jt_serial = (\<lambda>_. 0),
      jt_zk_proof = (\<lambda>_. ()), jt_tx_hash = (\<lambda>_. zero_hash), jt_restriction_level = (\<lambda>_. 0),
      jt_taint_distance = (\<lambda>_. 0), jt_taint_origin = (\<lambda>_. 0), jt_taint_timestamp = (\<lambda>_. 0),
      jt_dna = (\<lambda>_. ()), jt_consensus_bytes = (\<lambda>_. []), zk_empty = (), dna_default = ()\<rparr>"


end
