(* ===== verification/State_Root.thy ===== *)
theory State_Root
  imports Block
begin

text \<open>
  \<open>crates/aevum-core/src/state_root.rs\<close>: the state root over the unspent outputs and the spent
  nullifiers, with its supply and uniqueness checks.

  The lemmas: when the computation succeeds and with what; the lightweight preview is the full
  computation; the root does not depend on the order in which outputs and nullifiers are listed
  (the caller reads the nullifiers from a hash set, whose order is arbitrary); the root commits to
  height, supply and the four component roots.
\<close>

section \<open>Data\<close>

datatype state_error =
    SupplyMismatch u64 u64
  | SupplyOverflow
  | DuplicateNullifier bytes
  | DuplicateUtxoNullifier bytes

definition debug_bytes :: "bytes \<Rightarrow> string" where
  "debug_bytes bs = ''['' @ join_with '', '' (map (\<lambda>b. show_nat (unat b)) bs) @ '']''"

fun state_error_display :: "state_error \<Rightarrow> string" where
  "state_error_display (SupplyMismatch expected computed) =
     ''supply mismatch: '' @ show_nat (unat expected) @ '' vs '' @ show_nat (unat computed)"
| "state_error_display SupplyOverflow = ''supply overflow''"
| "state_error_display (DuplicateNullifier n) = ''duplicate nullifier: '' @ debug_bytes n"
| "state_error_display (DuplicateUtxoNullifier n) = ''duplicate UTXO nullifier: '' @ debug_bytes n"

record 'u state_root_data =
  srd_hash :: hash
  srd_block_height :: u64
  srd_total_supply :: u64
  srd_dna_root :: hash
  srd_oracle_root :: hash
  srd_utxo_count :: nat
  srd_spent_nullifier_count :: nat
  srd_new_utxos :: "'u list"
  srd_spent_nullifiers :: "hash list"

definition into_preview :: "'u state_root_data \<Rightarrow> state_preview" where
  "into_preview d = \<lparr>pv_state_root = StateRoot (srd_hash d), pv_new_total_supply = srd_total_supply d\<rparr>"

section \<open>Roots\<close>

definition empty_tree_hash :: "'pk crypto_api \<Rightarrow> hash" where
  "empty_tree_hash C = blake3 C (ascii ''AEVUM_EMPTY_TREE_V5'')"

definition state_merkle_root :: "'pk crypto_api \<Rightarrow> (bytes \<times> bytes) list \<Rightarrow> string \<Rightarrow> hash" where
  "state_merkle_root C entries domain =
     (if entries = [] then empty_tree_hash C
      else merkle_top (merkle_node C ''AEVUM_MERKLE_NODE_V5'')
             (map (\<lambda>(k, v). blake3 C (ascii domain @ k @ v)) entries))"

definition compute_merkle_roots ::
  "'pk crypto_api \<Rightarrow> ('u, 'pk, 'zk, 'dna) jt_api \<Rightarrow> 'u list \<Rightarrow> hash list \<Rightarrow> hash \<times> hash" where
  "compute_merkle_roots C J utxos spent =
     (let eh = empty_tree_hash C;
          utxo_root = (if utxos = [] then eh
            else state_merkle_root C
              (sort_key fst (map (\<lambda>u. (jt_nullifier J u, jt_consensus_bytes J u)) utxos)) ''AEVUM_UTXO_V5'');
          nullifier_root = (if spent = [] then eh
            else state_merkle_root C (sort_key fst (map (\<lambda>n. (n, n)) spent)) ''AEVUM_NULLIFIER_V5'')
      in (utxo_root, nullifier_root))"

definition state_root_preimage :: "u64 \<times> u64 \<times> hash \<times> hash \<times> hash \<times> hash \<Rightarrow> bytes" where
  "state_root_preimage = (\<lambda>(block_height, supply, utxo_root, nullifier_root, dna_root, oracle_root).
     ascii ''AEVUM_STATE_ROOT_V5'' @ le64 block_height @ le64 supply
       @ utxo_root @ nullifier_root @ dna_root @ oracle_root)"

definition compute_state_root_hash ::
  "'pk crypto_api \<Rightarrow> u64 \<Rightarrow> u64 \<Rightarrow> hash \<Rightarrow> hash \<Rightarrow> hash \<Rightarrow> hash \<Rightarrow> hash" where
  "compute_state_root_hash C block_height supply utxo_root nullifier_root dna_root oracle_root =
     blake3 C (state_root_preimage
       (block_height, supply, utxo_root, nullifier_root, dna_root, oracle_root))"

definition genesis_state_root :: "'pk crypto_api \<Rightarrow> state_root" where
  "genesis_state_root C =
     (let eh = empty_tree_hash C
      in StateRoot (compute_state_root_hash C 0 0 eh eh zero_hash zero_hash))"

section \<open>Computation\<close>

text \<open>The loop over a \<open>HashSet\<close>: the first item that is already there.\<close>

fun first_duplicate :: "'a set \<Rightarrow> 'a list \<Rightarrow> 'a option" where
  "first_duplicate seen [] = None"
| "first_duplicate seen (x # xs) =
     (if x \<in> seen then Some x else first_duplicate (insert x seen) xs)"

definition compute_state_root ::
  "'pk crypto_api \<Rightarrow> ('u, 'pk, 'zk, 'dna) jt_api \<Rightarrow> u64 \<Rightarrow> u64 \<Rightarrow> 'u list \<Rightarrow> hash list \<Rightarrow> hash \<Rightarrow> hash
     \<Rightarrow> ('u state_root_data, state_error) result" where
  "compute_state_root C J block_height supply utxos spent dna_root oracle_root =
     (case chk_sum (map (jt_amount J) utxos) of
        None \<Rightarrow> Err SupplyOverflow
      | Some computed \<Rightarrow>
          if supply \<noteq> computed then Err (SupplyMismatch supply computed)
          else (case first_duplicate {} (map (jt_nullifier J) utxos) of
              Some n \<Rightarrow> Err (DuplicateUtxoNullifier n)
            | None \<Rightarrow>
                (case first_duplicate {} spent of
                   Some n \<Rightarrow> Err (DuplicateNullifier n)
                 | None \<Rightarrow>
                     let (utxo_root, nullifier_root) = compute_merkle_roots C J utxos spent;
                         h = compute_state_root_hash C block_height supply utxo_root nullifier_root
                               dna_root oracle_root
                     in Ok \<lparr>srd_hash = h, srd_block_height = block_height,
                            srd_total_supply = supply, srd_dna_root = dna_root,
                            srd_oracle_root = oracle_root, srd_utxo_count = length utxos,
                            srd_spent_nullifier_count = length spent,
                            srd_new_utxos = utxos, srd_spent_nullifiers = spent\<rparr>)))"

definition compute_state_preview ::
  "'pk crypto_api \<Rightarrow> ('u, 'pk, 'zk, 'dna) jt_api \<Rightarrow> u64 \<Rightarrow> u64 \<Rightarrow> 'u list \<Rightarrow> hash list \<Rightarrow> hash \<Rightarrow> hash
     \<Rightarrow> (state_preview, state_error) result" where
  "compute_state_preview C J block_height supply utxos spent dna_root oracle_root =
     (case chk_sum (map (jt_amount J) utxos) of
        None \<Rightarrow> Err SupplyOverflow
      | Some computed \<Rightarrow>
          if supply \<noteq> computed then Err (SupplyMismatch supply computed)
          else (case first_duplicate {} (map (jt_nullifier J) utxos) of
              Some n \<Rightarrow> Err (DuplicateUtxoNullifier n)
            | None \<Rightarrow>
                (case first_duplicate {} spent of
                   Some n \<Rightarrow> Err (DuplicateNullifier n)
                 | None \<Rightarrow>
                     let (utxo_root, nullifier_root) = compute_merkle_roots C J utxos spent;
                         h = compute_state_root_hash C block_height supply utxo_root nullifier_root
                               dna_root oracle_root
                     in Ok \<lparr>pv_state_root = StateRoot h, pv_new_total_supply = supply\<rparr>)))"

section \<open>Success\<close>

lemma first_duplicate_None_iff:
  "first_duplicate seen xs = None \<longleftrightarrow> distinct xs \<and> set xs \<inter> seen = {}"
  by (induction seen xs rule: first_duplicate.induct) auto

definition state_consistent ::
  "('u, 'pk, 'zk, 'dna) jt_api \<Rightarrow> u64 \<Rightarrow> 'u list \<Rightarrow> hash list \<Rightarrow> bool" where
  "state_consistent J supply utxos spent \<longleftrightarrow>
     unat supply = (\<Sum>u\<leftarrow>utxos. unat (jt_amount J u))
     \<and> distinct (map (jt_nullifier J) utxos) \<and> distinct spent"

definition state_root_of ::
  "'pk crypto_api \<Rightarrow> ('u, 'pk, 'zk, 'dna) jt_api \<Rightarrow> u64 \<Rightarrow> u64 \<Rightarrow> 'u list \<Rightarrow> hash list \<Rightarrow> hash \<Rightarrow> hash \<Rightarrow> hash"
where
  "state_root_of C J h supply utxos spent dna_root oracle_root =
     (let (ur, nr) = compute_merkle_roots C J utxos spent
      in compute_state_root_hash C h supply ur nr dna_root oracle_root)"

lemma compute_state_root_Ok_iff:
  "compute_state_root C J h supply utxos spent dna_root oracle_root = Ok d \<longleftrightarrow>
     state_consistent J supply utxos spent
     \<and> d = \<lparr>srd_hash = state_root_of C J h supply utxos spent dna_root oracle_root,
            srd_block_height = h, srd_total_supply = supply, srd_dna_root = dna_root,
            srd_oracle_root = oracle_root, srd_utxo_count = length utxos,
            srd_spent_nullifier_count = length spent, srd_new_utxos = utxos,
            srd_spent_nullifiers = spent\<rparr>"
proof -
  have sum: "chk_sum (map (jt_amount J) utxos) = Some s
      \<longleftrightarrow> unat s = (\<Sum>u\<leftarrow>utxos. unat (jt_amount J u))" for s
    by (simp add: rust_arith comp_def)
  show ?thesis
  proof (cases "state_consistent J supply utxos spent")
    case True
    then have "chk_sum (map (jt_amount J) utxos) = Some supply"
      and "first_duplicate {} (map (jt_nullifier J) utxos) = None"
      and "first_duplicate {} spent = None"
      by (simp_all add: state_consistent_def sum first_duplicate_None_iff)
    with True show ?thesis
      by (auto simp: compute_state_root_def state_root_of_def Let_def split: prod.splits)
  next
    case False
    then show ?thesis
      by (auto simp: compute_state_root_def state_consistent_def sum first_duplicate_None_iff
          Let_def split: option.splits prod.splits)
  qed
qed

lemma compute_state_preview_eq:
  "compute_state_preview C J h supply utxos spent dna_root oracle_root =
     bind_result (compute_state_root C J h supply utxos spent dna_root oracle_root)
       (\<lambda>d. Ok (into_preview d))"
  by (simp add: compute_state_preview_def compute_state_root_def into_preview_def Let_def
      split: option.splits prod.splits)

text \<open>A repeated item, at its first repetition.\<close>

definition first_repeat :: "'a list \<Rightarrow> 'a \<Rightarrow> bool" where
  "first_repeat xs x \<longleftrightarrow> (\<exists>pre post. xs = pre @ x # post \<and> distinct pre \<and> x \<in> set pre)"

lemma first_duplicate_Some_iff:
  "first_duplicate seen xs = Some x \<longleftrightarrow>
     (\<exists>pre post. xs = pre @ x # post \<and> distinct pre \<and> set pre \<inter> seen = {} \<and> x \<in> set pre \<union> seen)"
proof (induction seen xs rule: first_duplicate.induct)
  case (2 seen y ys)
  show ?case
  proof (cases "y \<in> seen")
    case True
    have "(\<exists>pre post. y # ys = pre @ x # post \<and> distinct pre \<and> set pre \<inter> seen = {} \<and> x \<in> set pre \<union> seen) \<longleftrightarrow> x = y"
    proof
      assume "\<exists>pre post. y # ys = pre @ x # post \<and> distinct pre \<and> set pre \<inter> seen = {} \<and> x \<in> set pre \<union> seen"
      then show "x = y" using True by (auto simp: Cons_eq_append_conv)
    next
      assume "x = y"
      then show "\<exists>pre post. y # ys = pre @ x # post \<and> distinct pre \<and> set pre \<inter> seen = {} \<and> x \<in> set pre \<union> seen"
        using True by (intro exI [of _ "[]"] exI [of _ ys]) simp
    qed
    with True show ?thesis by auto
  next
    case False
    have "(\<exists>pre post. y # ys = pre @ x # post \<and> distinct pre \<and> set pre \<inter> seen = {} \<and> x \<in> set pre \<union> seen) \<longleftrightarrow>
        (\<exists>pre post. ys = pre @ x # post \<and> distinct pre \<and> set pre \<inter> insert y seen = {} \<and> x \<in> set pre \<union> insert y seen)"
      (is "(\<exists>pre. ?L pre) \<longleftrightarrow> (\<exists>pre. ?R pre)")
    proof
      assume "\<exists>pre. ?L pre"
      then obtain pre where "?L pre" by blast
      with False show "\<exists>pre. ?R pre" by (cases pre) auto
    next
      assume "\<exists>pre. ?R pre"
      then obtain pre where "?R pre" by blast
      with False have "?L (y # pre)" by auto
      then show "\<exists>pre. ?L pre" by blast
    qed
    with 2 False show ?thesis by simp
  qed
qed simp

lemma first_repeat_iff: "first_repeat xs x \<longleftrightarrow> first_duplicate {} xs = Some x"
  by (simp add: first_repeat_def first_duplicate_Some_iff)

lemma no_repeat_iff: "distinct xs \<longleftrightarrow> first_duplicate {} xs = None"
  by (simp add: first_duplicate_None_iff)

lemma chk_sum_amounts:
  "chk_sum (map (jt_amount J) utxos) = Some s \<longleftrightarrow> unat s = (\<Sum>u\<leftarrow>utxos. unat (jt_amount J u))"
  by (simp add: rust_arith comp_def)

lemma chk_sum_amounts_None:
  "chk_sum (map (jt_amount J) utxos) = None \<longleftrightarrow> 2 ^ 64 \<le> (\<Sum>u\<leftarrow>utxos. unat (jt_amount J u))"
proof -
  have "(\<exists>s :: u64. unat s = n) \<longleftrightarrow> n < 2 ^ 64" for n
  proof
    assume "\<exists>s :: u64. unat s = n"
    then obtain s :: u64 where "unat s = n" by blast
    with unat_lt_pow [of s] show "n < 2 ^ 64" by simp
  next
    assume "n < 2 ^ 64"
    then have "unat (of_nat n :: u64) = n" by (simp add: unat_of_nat)
    then show "\<exists>s :: u64. unat s = n" by blast
  qed
  then show ?thesis
    using chk_sum_amounts [of J utxos] by (metis linorder_not_le not_None_eq)
qed

text \<open>C6. The state root is computed exactly when the declared supply is the true sum of the unspent
  amounts (without overflow) and no unspent output and no spent nullifier is listed twice. It never
  panics, and every other input is the error of the first check it fails: an overflow exactly when the
  amounts add up to 2 to the power of 64 or more, a mismatch with both sums, the first repeated nullifier of an unspent
  output, the first repeated spent nullifier. The preview path computes the same root and supply as the
  full path, on success and on every error.\<close>

theorem state_root_defined:
  "let res = compute_state_root C J h supply utxos spent dna_root oracle_root;
       supply_sum = (\<Sum>u\<leftarrow>utxos. unat (jt_amount J u));
       nullifiers = map (jt_nullifier J) utxos
   in ((\<exists>d. res = Ok d) \<longleftrightarrow> unat supply = supply_sum \<and> distinct nullifiers \<and> distinct spent)
    \<and> res \<noteq> Panic
    \<and> (res = Err SupplyOverflow \<longleftrightarrow> 2 ^ 64 \<le> supply_sum)
    \<and> (res = Err (SupplyMismatch declared computed) \<longleftrightarrow>
         declared = supply \<and> unat computed = supply_sum \<and> supply \<noteq> computed)
    \<and> (res = Err (DuplicateUtxoNullifier n) \<longleftrightarrow> unat supply = supply_sum \<and> first_repeat nullifiers n)
    \<and> (res = Err (DuplicateNullifier n) \<longleftrightarrow>
         unat supply = supply_sum \<and> distinct nullifiers \<and> first_repeat spent n)
    \<and> compute_state_preview C J h supply utxos spent dna_root oracle_root =
       (case res of
          Ok d \<Rightarrow> Ok \<lparr>pv_state_root = StateRoot (srd_hash d), pv_new_total_supply = srd_total_supply d\<rparr>
        | Err e \<Rightarrow> Err e | Panic \<Rightarrow> Panic)"
proof -
  let ?res = "compute_state_root C J h supply utxos spent dna_root oracle_root"
  let ?sum = "\<Sum>u\<leftarrow>utxos. unat (jt_amount J u)"
  have preview: "compute_state_preview C J h supply utxos spent dna_root oracle_root =
      (case ?res of
         Ok d \<Rightarrow> Ok \<lparr>pv_state_root = StateRoot (srd_hash d), pv_new_total_supply = srd_total_supply d\<rparr>
       | Err e \<Rightarrow> Err e | Panic \<Rightarrow> Panic)"
    by (cases ?res) (simp_all add: compute_state_preview_eq into_preview_def)
  have ok: "(\<exists>d. ?res = Ok d) \<longleftrightarrow> unat supply = ?sum \<and> distinct (map (jt_nullifier J) utxos) \<and> distinct spent"
    by (simp add: compute_state_root_Ok_iff state_consistent_def)
  note defs = compute_state_root_def Let_def
  have overflow: "?res = Err SupplyOverflow \<longleftrightarrow> 2 ^ 64 \<le> ?sum"
    unfolding chk_sum_amounts_None [symmetric] by (simp add: defs split: option.splits prod.splits)
  have mismatch: "?res = Err (SupplyMismatch declared computed) \<longleftrightarrow>
      declared = supply \<and> unat computed = ?sum \<and> supply \<noteq> computed"
    unfolding chk_sum_amounts [symmetric] by (auto simp: defs split: option.splits prod.splits)
  have utxo: "?res = Err (DuplicateUtxoNullifier n) \<longleftrightarrow> unat supply = ?sum \<and> first_repeat (map (jt_nullifier J) utxos) n"
    unfolding chk_sum_amounts [symmetric] first_repeat_iff by (auto simp: defs split: option.splits prod.splits)
  have null: "?res = Err (DuplicateNullifier n) \<longleftrightarrow>
      unat supply = ?sum \<and> distinct (map (jt_nullifier J) utxos) \<and> first_repeat spent n"
    unfolding chk_sum_amounts [symmetric] first_repeat_iff no_repeat_iff
    by (auto simp: defs split: option.splits prod.splits)
  have "?res \<noteq> Panic" by (simp add: defs split: option.splits prod.splits)
  with preview ok overflow mismatch utxo null show ?thesis unfolding Let_def by blast
qed

section \<open>Order independence\<close>

lemma sort_key_fst_cong:
  assumes "mset xs = mset ys" and "distinct (map fst xs)"
  shows "sort_key fst xs = sort_key fst ys"
  using assms by (intro sort_key_inj_key_eq) (auto simp: distinct_map)

lemma compute_merkle_roots_perm:
  assumes "mset utxos = mset utxos'" and "mset spent = mset spent'"
    and "distinct (map (jt_nullifier J) utxos)" and "distinct spent"
  shows "compute_merkle_roots C J utxos spent = compute_merkle_roots C J utxos' spent'"
proof -
  have "utxos = [] \<longleftrightarrow> utxos' = []" and "spent = [] \<longleftrightarrow> spent' = []"
    using assms(1,2) by (metis mset_zero_iff_right mset_zero_iff)+
  moreover have "sort_key fst (map (\<lambda>u. (jt_nullifier J u, jt_consensus_bytes J u)) utxos)
      = sort_key fst (map (\<lambda>u. (jt_nullifier J u, jt_consensus_bytes J u)) utxos')"
    using assms(1,3) by (intro sort_key_fst_cong) (simp_all add: comp_def)
  moreover have "sort_key fst (map (\<lambda>n. (n, n)) spent) = sort_key fst (map (\<lambda>n. (n, n)) spent')"
    using assms(2,4) by (intro sort_key_fst_cong) (simp_all add: comp_def)
  ultimately show ?thesis by (simp add: compute_merkle_roots_def Let_def)
qed

lemma state_consistent_perm:
  assumes "mset utxos = mset utxos'" and "mset spent = mset spent'"
  shows "state_consistent J supply utxos spent \<longleftrightarrow> state_consistent J supply utxos' spent'"
proof -
  have "(\<Sum>u\<leftarrow>utxos. unat (jt_amount J u)) = (\<Sum>u\<leftarrow>utxos'. unat (jt_amount J u))"
    using assms(1) by (metis mset_map sum_mset_sum_list)
  moreover have "distinct (map (jt_nullifier J) utxos) \<longleftrightarrow> distinct (map (jt_nullifier J) utxos')"
    using assms(1) by (metis mset_map mset_eq_imp_distinct_iff)
  moreover have "distinct spent \<longleftrightarrow> distinct spent'"
    using assms(2) by (rule mset_eq_imp_distinct_iff)
  ultimately show ?thesis by (simp add: state_consistent_def)
qed

text \<open>The state root is deterministic: listing the same unspent outputs and the same spent
  nullifiers in another order gives the same preview, so the arbitrary iteration order of the
  node's hash set of nullifiers cannot make two nodes disagree.\<close>

theorem state_preview_order_independent:
  assumes "mset utxos = mset utxos'" and "mset spent = mset spent'"
  shows "compute_state_preview C J h supply utxos spent dna_root oracle_root = Ok p \<longleftrightarrow>
    compute_state_preview C J h supply utxos' spent' dna_root oracle_root = Ok p"
proof -
  have "state_root_of C J h supply utxos spent dna_root oracle_root
      = state_root_of C J h supply utxos' spent' dna_root oracle_root"
    if "state_consistent J supply utxos spent"
    using compute_merkle_roots_perm [OF assms, of J C] that
    by (simp add: state_root_of_def state_consistent_def)
  then show ?thesis using state_consistent_perm [OF assms, of J "supply"]
    by (auto simp: compute_state_preview_eq bind_result_Ok_iff compute_state_root_Ok_iff into_preview_def)
qed

definition sample_utxos :: "(u64, u8, unit, unit) jt_api" where
  "sample_utxos =
     \<lparr>jt_amount = (\<lambda>u. u), jt_owner = (\<lambda>_. 0), jt_amount_commitment = (\<lambda>_. zero_hash),
      jt_tag_commitment = (\<lambda>_. zero_hash), jt_nullifier = (\<lambda>u. le64 u), jt_serial = (\<lambda>_. 0),
      jt_zk_proof = (\<lambda>_. ()), jt_tx_hash = (\<lambda>_. zero_hash), jt_restriction_level = (\<lambda>_. 0),
      jt_taint_distance = (\<lambda>_. 0), jt_taint_origin = (\<lambda>_. 0), jt_taint_timestamp = (\<lambda>_. 0),
      jt_dna = (\<lambda>_. ()), jt_consensus_bytes = (\<lambda>u. le64 u), zk_empty = (), dna_default = ()\<rparr>"

theorem state_preview_order_independent_witness:
  "\<exists>p. compute_state_preview sample_crypto sample_utxos 1 12 [5, 7] [] zero_hash zero_hash = Ok p
     \<and> compute_state_preview sample_crypto sample_utxos 1 12 [7, 5] [] zero_hash zero_hash = Ok p"
proof -
  have "\<exists>p. compute_state_preview sample_crypto sample_utxos 1 12 [5, 7] [] zero_hash zero_hash = Ok p"
    by (simp add: compute_state_preview_eq bind_result_Ok_iff compute_state_root_Ok_iff
        state_consistent_def sample_utxos_def)
  moreover have "mset [5, 7 :: u64] = mset [7, 5]" by simp
  ultimately show ?thesis
    using state_preview_order_independent [of "[5, 7]" "[7, 5]" "[]" "[]" sample_crypto sample_utxos]
    by blast
qed

section \<open>Commitment\<close>

definition roots_wf :: "u64 \<times> u64 \<times> hash \<times> hash \<times> hash \<times> hash \<Rightarrow> bool" where
  "roots_wf = (\<lambda>(h, s, ur, nr, dr, orr). length ur = 32 \<and> length nr = 32 \<and> length dr = 32 \<and> length orr = 32)"

lemma state_root_preimage_inj:
  "roots_wf x \<Longrightarrow> roots_wf y \<Longrightarrow> state_root_preimage x = state_root_preimage y \<Longrightarrow> x = y"
  by (auto simp: roots_wf_def state_root_preimage_def split: prod.splits)

interpretation state_root_binding: binding state_root_preimage roots_wf "\<lambda>x. x"
  by unfold_locales (rule state_root_preimage_inj)

end
