(* ===== verification/Chain_State.thy ===== *)
theory Chain_State
  imports State_Root
begin

text \<open>
  \<open>crates/aevum-core/src/chain_state.rs\<close>: the chain state behind its lock, the checked
  application of a block, the genesis block, presence records and finalisation. Each method takes
  the write lock for its whole body, so one call is one step; a call returns the new state and its
  result.

  The state transition function (\<open>state_transition.rs\<close>), the epoch length (\<open>emission.rs\<close>) and
  the iteration order of a \<open>HashSet\<close> are not part of the repository: they are the fields of
  \<open>transition_api\<close>.

  The lemmas: an error leaves the state as it was; an applied block links to the last block, lies
  above the finalised height and above the current height; the canonical tip is the last block
  after any sequence of checked applications and finalisations, so the reorganisation branch is
  never taken; presence records pass none of these guards.
\<close>

section \<open>Data\<close>

definition MAX_REORG_DEPTH :: u64 where "MAX_REORG_DEPTH = 64"

record apply_block_result =
  abr_new_height :: u64
  abr_new_supply :: u64
  abr_state_root :: hash
  abr_utxo_count :: nat
  abr_spent_count :: nat

datatype 'te chain_state_error =
    Execution 'te
  | BlockAlreadyApplied u64 hash
  | ForkRejected u64 hash hash
  | BelowFinalized u64 u64
  | ReorgTooDeep u64 u64 u64
  | ChainInvalidBlockHash
  | PrevHashMismatch hash hash
  | HeightMismatch u64 u64
  | HeightRegression u64 u64
  | GenesisAlreadyApplied
  | GenesisNotApplied
  | GenesisPrevHashNotZero
  | GenesisNotEmpty
  | GenesisStateNotEmpty
  | PostCheckZeroAmount
  | PostCheckDuplicateUtxo
  | PostCheckDuplicateSpent
  | PostCheckSupplyMismatch u64 u64
  | CanonicalInvariantBroken
  | PreviewFailed string

record 'u chain_state =
  cs_utxos :: "(hash \<times> 'u) list"
  cs_spent_nullifiers :: "hash set"
  cs_state_root :: hash
  cs_dna_root :: hash
  cs_oracle_root :: hash
  cs_cached_supply :: u64
  cs_height :: u64
  cs_last_block_hash :: hash
  cs_canonical_tip :: hash
  cs_canonical_height :: u64
  cs_last_finalized_height :: u64
  cs_applied_blocks :: "(u64 \<times> hash) list"
  cs_genesis_applied :: bool
  cs_epoch_anchor_hash :: hash
  cs_current_epoch :: u64

record ('pk, 'zk, 'dna, 'u, 'te) transition_api =
  st_apply_block :: "('pk, 'zk, 'dna) block \<Rightarrow> hash \<Rightarrow> 'u list \<Rightarrow> hash list \<Rightarrow> u64 \<Rightarrow> hash \<Rightarrow> hash
     \<Rightarrow> ('u state_root_data, 'te) result"
  st_preview :: "('pk, 'zk, 'dna) block_candidate \<Rightarrow> hash \<Rightarrow> 'u list \<Rightarrow> hash list \<Rightarrow> u64 \<Rightarrow> hash \<Rightarrow> hash
     \<Rightarrow> (state_preview, 'te) result"
  st_error_to_string :: "'te \<Rightarrow> string"
  epoch_length_blocks :: u64
  hash_set_iter :: "hash set \<Rightarrow> hash list"

section \<open>Operations\<close>

definition chain_new :: "'pk crypto_api \<Rightarrow> 'u chain_state" where
  "chain_new C =
     \<lparr>cs_utxos = [], cs_spent_nullifiers = {}, cs_state_root = root_hash (genesis_state_root C),
      cs_dna_root = zero_hash, cs_oracle_root = zero_hash, cs_cached_supply = 0, cs_height = 0,
      cs_last_block_hash = zero_hash, cs_canonical_tip = zero_hash, cs_canonical_height = 0,
      cs_last_finalized_height = 0, cs_applied_blocks = [], cs_genesis_applied = False,
      cs_epoch_anchor_hash = zero_hash, cs_current_epoch = 0\<rparr>"

definition preview_block ::
  "('pk, 'zk, 'dna, 'u, 'te) transition_api \<Rightarrow> 'u chain_state \<Rightarrow> ('pk, 'zk, 'dna) block_candidate
     \<Rightarrow> (state_preview, 'te chain_state_error) result" where
  "preview_block T s candidate =
     (case st_preview T candidate (cs_last_block_hash s) (map snd (cs_utxos s))
             (hash_set_iter T (cs_spent_nullifiers s)) (cs_cached_supply s) (cs_dna_root s) (cs_oracle_root s) of
        Ok p \<Rightarrow> Ok p | Err e \<Rightarrow> Err (PreviewFailed (st_error_to_string T e)) | Panic \<Rightarrow> Panic)"

text \<open>The call of \<open>state_transition::apply_block\<close> on the current state.\<close>

definition run_transition ::
  "('pk, 'zk, 'dna, 'u, 'te) transition_api \<Rightarrow> 'u chain_state \<Rightarrow> ('pk, 'zk, 'dna) block
     \<Rightarrow> ('u state_root_data, 'te) result" where
  "run_transition T s b =
     st_apply_block T b (cs_last_block_hash s) (map snd (cs_utxos s))
       (hash_set_iter T (cs_spent_nullifiers s)) (cs_cached_supply s) (cs_dna_root s) (cs_oracle_root s)"

text \<open>
  The assignments that \<open>apply_block_checked\<close> and \<open>apply_presence_record\<close> share: the new unspent
  set, nullifiers, roots, supply, height and last block.
\<close>

definition install ::
  "('u, 'pk, 'zk, 'dna) jt_api \<Rightarrow> ('pk, 'zk, 'dna) block \<Rightarrow> 'u state_root_data \<Rightarrow> 'u chain_state \<Rightarrow> 'u chain_state"
where
  "install J b r s =
     s\<lparr>cs_utxos := bt_of_list (jt_nullifier J) (srd_new_utxos r),
       cs_spent_nullifiers := set (srd_spent_nullifiers r),
       cs_state_root := srd_hash r, cs_dna_root := srd_dna_root r, cs_oracle_root := srd_oracle_root r,
       cs_cached_supply := srd_total_supply r,
       cs_height := blk_height b, cs_last_block_hash := blk_block_hash b\<rparr>"

definition set_canonical :: "bool \<Rightarrow> ('pk, 'zk, 'dna) block \<Rightarrow> 'u chain_state \<Rightarrow> 'u chain_state" where
  "set_canonical extends b s =
     (if extends \<or> cs_canonical_height s < blk_height b
      then s\<lparr>cs_canonical_tip := blk_block_hash b, cs_canonical_height := blk_height b\<rparr> else s)"

definition set_epoch ::
  "('pk, 'zk, 'dna, 'u, 'te) transition_api \<Rightarrow> ('pk, 'zk, 'dna) block \<Rightarrow> 'u chain_state \<Rightarrow> 'u chain_state" where
  "set_epoch T b s =
     (if blk_settlement_checkpoint b \<noteq> None
      then s\<lparr>cs_epoch_anchor_hash := blk_block_hash b,
             cs_current_epoch := blk_height b div epoch_length_blocks T\<rparr> else s)"

definition block_result :: "('pk, 'zk, 'dna) block \<Rightarrow> 'u state_root_data \<Rightarrow> 'u chain_state \<Rightarrow> apply_block_result" where
  "block_result b r s =
     \<lparr>abr_new_height = blk_height b, abr_new_supply = srd_total_supply r, abr_state_root = srd_hash r,
      abr_utxo_count = length (cs_utxos s), abr_spent_count = card (cs_spent_nullifiers s)\<rparr>"

definition apply_genesis ::
  "('u, 'pk, 'zk, 'dna) jt_api \<Rightarrow> ('pk, 'zk, 'dna, 'u, 'te) transition_api \<Rightarrow> ('pk, 'zk, 'dna) block
     \<Rightarrow> 'u chain_state \<Rightarrow> 'u chain_state \<times> (apply_block_result, 'te chain_state_error) result" where
  "apply_genesis J T b s =
     (if cs_genesis_applied s then (s, Err GenesisAlreadyApplied)
      else if blk_prev_hash b \<noteq> zero_hash then (s, Err GenesisPrevHashNotZero)
      else if length (blk_transactions b) \<noteq> 1 \<or> \<not> is_coinbase (blk_transactions b ! 0)
        then (s, Err GenesisNotEmpty)
      else (case st_apply_block T b zero_hash [] [] 0 zero_hash zero_hash of
          Err e \<Rightarrow> (s, Err (Execution e))
        | Panic \<Rightarrow> (s, Panic)
        | Ok r \<Rightarrow>
            let s' = s\<lparr>cs_state_root := srd_hash r, cs_dna_root := zero_hash, cs_oracle_root := zero_hash,
                       cs_cached_supply := srd_total_supply r,
                       cs_height := 0, cs_last_block_hash := blk_block_hash b,
                       cs_canonical_tip := blk_block_hash b, cs_canonical_height := 0,
                       cs_applied_blocks := bt_insert 0 (blk_block_hash b) (cs_applied_blocks s),
                       cs_genesis_applied := True,
                       cs_epoch_anchor_hash := blk_block_hash b,
                       cs_utxos := bt_of_list (jt_nullifier J) (srd_new_utxos r)\<rparr>
            in (s', Ok \<lparr>abr_new_height = 0, abr_new_supply = srd_total_supply r,
                        abr_state_root = srd_hash r, abr_utxo_count = length (cs_utxos s'),
                        abr_spent_count = 0\<rparr>)))"

definition apply_block_checked ::
  "'pk crypto_api \<Rightarrow> ('u, 'pk, 'zk, 'dna) jt_api \<Rightarrow> ('pk, 'zk, 'dna, 'u, 'te) transition_api
     \<Rightarrow> ('pk, 'zk, 'dna) block \<Rightarrow> 'u chain_state
     \<Rightarrow> 'u chain_state \<times> (apply_block_result, 'te chain_state_error) result" where
  "apply_block_checked C J T b s =
     (if block_compute_hash C b \<noteq> blk_block_hash b then (s, Err ChainInvalidBlockHash)
      else if blk_height b = 0 then apply_genesis J T b s
      else if \<not> cs_genesis_applied s then (s, Err GenesisNotApplied)
      else if blk_height b \<le> cs_last_finalized_height s
        then (s, Err (BelowFinalized (blk_height b) (cs_last_finalized_height s)))
      else if blk_height b < cs_height s then (s, Err (HeightRegression (cs_height s) (blk_height b)))
      else if blk_height b < cs_canonical_height s
          \<and> MAX_REORG_DEPTH < cs_canonical_height s - blk_height b
        then (s, Err (ReorgTooDeep (cs_canonical_height s) (blk_height b) MAX_REORG_DEPTH))
      else if blk_prev_hash b \<noteq> cs_canonical_tip s \<and> blk_prev_hash b \<noteq> cs_last_block_hash s
        then (s, Err (PrevHashMismatch (cs_last_block_hash s) (blk_prev_hash b)))
      else (case map_of (cs_applied_blocks s) (blk_height b) of
          Some existing \<Rightarrow>
            (s, Err (if existing \<noteq> blk_block_hash b
                     then ForkRejected (blk_height b) existing (blk_block_hash b)
                     else BlockAlreadyApplied (blk_height b) (blk_block_hash b)))
        | None \<Rightarrow>
            (case run_transition T s b of
               Err e \<Rightarrow> (s, Err (Execution e))
             | Panic \<Rightarrow> (s, Panic)
             | Ok r \<Rightarrow>
                 let s1 = install J b r s;
                     s2 = set_canonical (blk_prev_hash b = cs_canonical_tip s) b s1;
                     s3 = set_epoch T b s2;
                     s4 = s3\<lparr>cs_applied_blocks := bt_insert (blk_height b) (blk_block_hash b) (cs_applied_blocks s3)\<rparr>
                 in (s4, Ok (block_result b r s4)))))"

definition apply_presence_record ::
  "('u, 'pk, 'zk, 'dna) jt_api \<Rightarrow> ('pk, 'zk, 'dna, 'u, 'te) transition_api \<Rightarrow> ('pk, 'zk, 'dna) block
     \<Rightarrow> 'u chain_state \<Rightarrow> 'u chain_state \<times> (apply_block_result, 'te chain_state_error) result" where
  "apply_presence_record J T b s =
     (if \<not> cs_genesis_applied s then (s, Err GenesisNotApplied)
      else (case run_transition T s b of
          Err e \<Rightarrow> (s, Err (Execution e))
        | Panic \<Rightarrow> (s, Panic)
        | Ok r \<Rightarrow>
            let s1 = install J b r s;
                s2 = set_canonical (blk_prev_hash b = cs_canonical_tip s1) b s1;
                s3 = set_epoch T b s2
            in (s3, Ok (block_result b r s3))))"

definition finalize_up_to :: "u64 \<Rightarrow> 'u chain_state \<Rightarrow> 'u chain_state" where
  "finalize_up_to height s =
     (if cs_last_finalized_height s < height then s\<lparr>cs_last_finalized_height := height\<rparr> else s)"

lemmas chain_upd_defs = install_def set_canonical_def set_epoch_def block_result_def

section \<open>Invariant of checked operation\<close>

datatype ('pk, 'zk, 'dna) chain_op = ApplyBlock "('pk, 'zk, 'dna) block" | Finalize u64

fun chain_step ::
  "'pk crypto_api \<Rightarrow> ('u, 'pk, 'zk, 'dna) jt_api \<Rightarrow> ('pk, 'zk, 'dna, 'u, 'te) transition_api
     \<Rightarrow> ('pk, 'zk, 'dna) chain_op \<Rightarrow> 'u chain_state \<Rightarrow> 'u chain_state" where
  "chain_step C J T (ApplyBlock b) s = fst (apply_block_checked C J T b s)"
| "chain_step C J T (Finalize h) s = finalize_up_to h s"

definition chain_inv :: "'u chain_state \<Rightarrow> bool" where
  "chain_inv s \<longleftrightarrow>
     cs_canonical_tip s = cs_last_block_hash s \<and> cs_canonical_height s = cs_height s
     \<and> (if cs_genesis_applied s
        then map_of (cs_applied_blocks s) (cs_height s) = Some (cs_last_block_hash s)
        else cs_applied_blocks s = [] \<and> cs_height s = 0)
     \<and> (\<forall>h \<in> fst ` set (cs_applied_blocks s). h \<le> cs_height s)"

lemma chain_inv_new: "chain_inv (chain_new C)"
  by (simp add: chain_inv_def chain_new_def)

text \<open>Every error branch, and a panic, returns the state it was given.\<close>

lemma apply_block_checked_not_Ok:
  "\<not> is_ok (snd (apply_block_checked C J T b s)) \<Longrightarrow> fst (apply_block_checked C J T b s) = s"
  by (auto simp: apply_block_checked_def apply_genesis_def Let_def split: option.splits result.splits)

lemma apply_presence_record_not_Ok:
  "\<not> is_ok (snd (apply_presence_record J T b s)) \<Longrightarrow> fst (apply_presence_record J T b s) = s"
  by (auto simp: apply_presence_record_def Let_def split: result.splits)

lemma map_of_None_key: "map_of m k = None \<longleftrightarrow> k \<notin> fst ` set m"
  by (simp add: map_of_eq_None_iff)

text \<open>The state holds what the transition returned.\<close>

definition transition_installed ::
  "('u, 'pk, 'zk, 'dna) jt_api \<Rightarrow> ('pk, 'zk, 'dna) block \<Rightarrow> 'u state_root_data \<Rightarrow> 'u chain_state \<Rightarrow> apply_block_result \<Rightarrow> bool"
where
  "transition_installed J b r s res \<longleftrightarrow>
     cs_cached_supply s = srd_total_supply r \<and> cs_state_root s = srd_hash r
     \<and> cs_dna_root s = srd_dna_root r \<and> cs_oracle_root s = srd_oracle_root r
     \<and> cs_utxos s = bt_of_list (jt_nullifier J) (srd_new_utxos r)
     \<and> cs_spent_nullifiers s = set (srd_spent_nullifiers r)
     \<and> abr_new_height res = blk_height b \<and> abr_new_supply res = srd_total_supply r \<and> abr_state_root res = srd_hash r"

lemma install_fields:
  assumes s': "s' = set_epoch T b (set_canonical True b (install J b r s))"
  shows "cs_genesis_applied s' = cs_genesis_applied s" "cs_height s' = blk_height b"
    "cs_last_block_hash s' = blk_block_hash b" "cs_canonical_tip s' = blk_block_hash b"
    "cs_canonical_height s' = blk_height b" "cs_applied_blocks s' = cs_applied_blocks s"
    "transition_installed J b r (s'\<lparr>cs_applied_blocks := bs\<rparr>) (block_result b r t)"
  by (simp_all add: s' chain_upd_defs transition_installed_def)

lemma apply_block_checked_Ok:
  assumes ok: "apply_block_checked C J T b s = (s', Ok res)" and inv: "chain_inv s"
    and h: "blk_height b \<noteq> 0"
  shows "cs_genesis_applied s" "block_compute_hash C b = blk_block_hash b"
    "blk_prev_hash b = cs_last_block_hash s"
    "cs_last_finalized_height s < blk_height b" "cs_height s < blk_height b"
    "cs_genesis_applied s'" "cs_height s' = blk_height b" "cs_last_block_hash s' = blk_block_hash b"
    "cs_canonical_tip s' = blk_block_hash b" "cs_canonical_height s' = blk_height b"
    "cs_applied_blocks s' = bt_insert (blk_height b) (blk_block_hash b) (cs_applied_blocks s)"
    "\<exists>r. run_transition T s b = Ok r \<and> transition_installed J b r s' res"
proof -
  from inv have tip: "cs_canonical_tip s = cs_last_block_hash s" by (simp add: chain_inv_def)
  have guards: "cs_genesis_applied s" "block_compute_hash C b = blk_block_hash b"
    "\<not> blk_height b \<le> cs_last_finalized_height s" "\<not> blk_height b < cs_height s"
    "blk_prev_hash b = cs_last_block_hash s" "map_of (cs_applied_blocks s) (blk_height b) = None"
    "\<not> (blk_height b < cs_canonical_height s \<and> MAX_REORG_DEPTH < cs_canonical_height s - blk_height b)"
    using ok h tip by (auto simp: apply_block_checked_def split: if_splits option.splits)
  from ok obtain r where r: "run_transition T s b = Ok r"
    by (cases "run_transition T s b") (use guards h in \<open>simp_all add: apply_block_checked_def\<close>)
  note fields = install_fields [OF refl, where T = T and b = b and J = J and r = r and s = s]
  let ?t = "(set_epoch T b (set_canonical True b (install J b r s)))
       \<lparr>cs_applied_blocks := bt_insert (blk_height b) (blk_block_hash b) (cs_applied_blocks s)\<rparr>"
  have "apply_block_checked C J T b s = (?t, Ok (block_result b r ?t))"
    using guards h r tip fields(6) by (simp add: apply_block_checked_def Let_def)
  with ok have eq: "s' = ?t" "res = block_result b r ?t" by auto
  have "blk_height b \<noteq> cs_height s"
    using guards inv by (auto simp: chain_inv_def)
  with guards show "cs_genesis_applied s" "block_compute_hash C b = blk_block_hash b"
    "blk_prev_hash b = cs_last_block_hash s"
    "cs_last_finalized_height s < blk_height b" "cs_height s < blk_height b"
    by auto
  show "cs_genesis_applied s'" "cs_height s' = blk_height b" "cs_last_block_hash s' = blk_block_hash b"
    "cs_canonical_tip s' = blk_block_hash b" "cs_canonical_height s' = blk_height b"
    "cs_applied_blocks s' = bt_insert (blk_height b) (blk_block_hash b) (cs_applied_blocks s)"
    "\<exists>r. run_transition T s b = Ok r \<and> transition_installed J b r s' res"
    using fields guards(1) r by (auto simp: eq)
qed

lemma apply_genesis_Ok:
  assumes "apply_genesis J T b s = (s', Ok res)"
  shows "\<not> cs_genesis_applied s" and "cs_genesis_applied s'" and "cs_height s' = 0"
    and "cs_canonical_height s' = 0" and "cs_last_block_hash s' = blk_block_hash b"
    and "cs_canonical_tip s' = blk_block_hash b"
    and "cs_applied_blocks s' = bt_insert 0 (blk_block_hash b) (cs_applied_blocks s)"
    and "cs_last_finalized_height s' = cs_last_finalized_height s"
  using assms by (auto simp: apply_genesis_def Let_def split: if_splits result.splits)

lemma apply_block_checked_genesis:
  assumes "apply_block_checked C J T b s = (s', Ok res)" and "blk_height b = 0"
  shows "apply_genesis J T b s = (s', Ok res)"
  using assms by (auto simp: apply_block_checked_def split: if_splits)

lemma chain_inv_apply:
  assumes "chain_inv s"
  shows "chain_inv (fst (apply_block_checked C J T b s))"
proof (cases "snd (apply_block_checked C J T b s)")
  case (Ok res)
  then obtain s' where ok: "apply_block_checked C J T b s = (s', Ok res)"
    by (metis prod.collapse)
  show ?thesis
  proof (cases "blk_height b = 0")
    case True
    note g = apply_genesis_Ok [OF apply_block_checked_genesis [OF ok True]]
    from g(1) assms have "cs_applied_blocks s = []" by (simp add: chain_inv_def)
    with g show ?thesis by (simp add: ok chain_inv_def)
  next
    case False
    note a = apply_block_checked_Ok [OF ok assms False]
    from assms a(5) have "\<forall>h \<in> fst ` set (cs_applied_blocks s). h \<le> blk_height b"
      by (auto simp: chain_inv_def intro: less_imp_le order_trans)
    with a show ?thesis by (simp add: ok chain_inv_def)
  qed
qed (use assms in \<open>simp_all add: apply_block_checked_not_Ok\<close>)

lemma chain_inv_finalize: "chain_inv s \<Longrightarrow> chain_inv (finalize_up_to h s)"
  by (simp add: chain_inv_def finalize_up_to_def)

lemma chain_height_mono:
  assumes "chain_inv s"
  shows "cs_height s \<le> cs_height (fst (apply_block_checked C J T b s))"
proof (cases "snd (apply_block_checked C J T b s)")
  case (Ok res)
  then obtain s' where ok: "apply_block_checked C J T b s = (s', Ok res)"
    by (metis prod.collapse)
  show ?thesis
  proof (cases "blk_height b = 0")
    case True
    from apply_genesis_Ok(1,3) [OF apply_block_checked_genesis [OF ok True]] assms
    show ?thesis by (simp add: ok chain_inv_def)
  next
    case False
    from apply_block_checked_Ok(5,7) [OF ok assms False] show ?thesis by (simp add: ok)
  qed
qed (use assms in \<open>simp_all add: apply_block_checked_not_Ok\<close>)

interpretation chain: monotone_system "chain_new C" "chain_step C J T" chain_inv
  "\<lambda>s. unat (cs_height s)" for C J T
proof unfold_locales
  show "chain_inv (chain_new C)" by (rule chain_inv_new)
  show "chain_inv (chain_step C J T x s)" if "chain_inv s" for x s
    using that by (cases x) (simp_all add: chain_inv_apply chain_inv_finalize)
  show "unat (cs_height s) \<le> unat (cs_height (chain_step C J T x s))" if "chain_inv s" for x s
  proof (cases x)
    case (ApplyBlock b)
    with chain_height_mono [OF that] show ?thesis by (simp add: word_le_nat_alt)
  qed (simp add: finalize_up_to_def)
qed

section \<open>Properties\<close>

text \<open>A block that is not accepted changes nothing: whatever error \<open>apply_block_checked\<close>
  or \<open>apply_presence_record\<close> returns, the chain state is the one before the call.\<close>

theorem chain_errors_atomic:
  "(\<not> is_ok (snd (apply_block_checked C J T b s)) \<longrightarrow> fst (apply_block_checked C J T b s) = s)
   \<and> (\<not> is_ok (snd (apply_presence_record J T b s)) \<longrightarrow> fst (apply_presence_record J T b s) = s)"
  by (simp add: apply_block_checked_not_Ok apply_presence_record_not_Ok)

text \<open>C3. After any sequence of checked applications and finalisations from the empty chain, an
  accepted block that is not the genesis block carries its computed hash, links to the last
  block, and lies strictly above both the current and the finalised height; afterwards it is the
  last block, the canonical tip and the recorded block of its height. The supply, the state root,
  the two further roots, the unspent outputs (by nullifier) and the spent nullifiers are those the
  transition returned for the block and the state before the call.\<close>

theorem chain_extends:
  assumes "s = fold (chain_step C J T) ops (chain_new C)"
    and "apply_block_checked C J T b s = (s', Ok res)" and "blk_height b \<noteq> 0"
  shows "blk_block_hash b = block_compute_hash C b \<and> blk_prev_hash b = cs_last_block_hash s
    \<and> cs_height s < blk_height b \<and> cs_last_finalized_height s < blk_height b
    \<and> cs_height s' = blk_height b \<and> cs_last_block_hash s' = blk_block_hash b
    \<and> cs_canonical_tip s' = blk_block_hash b \<and> cs_canonical_height s' = blk_height b
    \<and> map_of (cs_applied_blocks s') (blk_height b) = Some (blk_block_hash b)
    \<and> (\<exists>r. st_apply_block T b (cs_last_block_hash s) (map snd (cs_utxos s))
             (hash_set_iter T (cs_spent_nullifiers s)) (cs_cached_supply s) (cs_dna_root s) (cs_oracle_root s) = Ok r
         \<and> cs_cached_supply s' = srd_total_supply r \<and> abr_new_supply res = srd_total_supply r
         \<and> cs_state_root s' = srd_hash r \<and> cs_dna_root s' = srd_dna_root r \<and> cs_oracle_root s' = srd_oracle_root r
         \<and> cs_utxos s' = bt_of_list (jt_nullifier J) (srd_new_utxos r)
         \<and> cs_spent_nullifiers s' = set (srd_spent_nullifiers r))"
proof -
  have "chain_inv s" unfolding assms(1) by (rule chain.run_init_inv)
  from apply_block_checked_Ok [OF assms(2) this assms(3)] show ?thesis
    unfolding run_transition_def transition_installed_def by (intro conjI) (simp_all, blast)
qed

text \<open>C27. Along any sequence of checked applications and finalisations the height never
  decreases, the canonical tip stays the last applied block, and no block is ever refused as a
  reorganisation that is too deep: a block below the canonical height is refused earlier, for a
  wrong hash, as a second genesis block, as below the finalised height, or else as a height regression.\<close>

theorem chain_never_reorgs:
  assumes "s = fold (chain_step C J T) ops (chain_new C)"
  shows "cs_canonical_tip s = cs_last_block_hash s \<and> cs_canonical_height s = cs_height s
    \<and> cs_height s \<le> cs_height (fold (chain_step C J T) later s)
    \<and> snd (apply_block_checked C J T b s) \<noteq> Err (ReorgTooDeep cur att mx)
    \<and> (blk_height b < cs_canonical_height s \<longrightarrow> snd (apply_block_checked C J T b s) =
          Err (if block_compute_hash C b \<noteq> blk_block_hash b then ChainInvalidBlockHash
               else if blk_height b = 0 then GenesisAlreadyApplied
               else if blk_height b \<le> cs_last_finalized_height s
               then BelowFinalized (blk_height b) (cs_last_finalized_height s)
               else HeightRegression (cs_height s) (blk_height b)))"
proof -
  have inv: "chain_inv s" unfolding assms by (rule chain.run_init_inv)
  then have tip: "cs_canonical_tip s = cs_last_block_hash s" "cs_canonical_height s = cs_height s"
    by (simp_all add: chain_inv_def)
  have "snd (apply_block_checked C J T b s) \<noteq> Err (ReorgTooDeep cur att mx)"
    using tip by (auto simp: apply_block_checked_def apply_genesis_def Let_def
        split: option.splits result.splits)
  moreover have "snd (apply_block_checked C J T b s) =
      Err (if block_compute_hash C b \<noteq> blk_block_hash b then ChainInvalidBlockHash
           else if blk_height b = 0 then GenesisAlreadyApplied
           else if blk_height b \<le> cs_last_finalized_height s
           then BelowFinalized (blk_height b) (cs_last_finalized_height s)
           else HeightRegression (cs_height s) (blk_height b))" if "blk_height b < cs_height s"
  proof -
    have "cs_genesis_applied s" using inv that by (auto simp: chain_inv_def split: if_splits)
    with that show ?thesis by (simp add: apply_block_checked_def apply_genesis_def)
  qed
  ultimately show ?thesis
    using tip chain.run_mono [OF inv, of C J T later] by (simp add: word_le_nat_alt)
qed

text \<open>A presence record passes no guard but the genesis flag: whenever the transition
  accepts it, the state takes over the record's height and hash, whatever the record's own hash,
  its link to the previous block, and the current and finalised heights are; and the table of
  applied blocks is not updated.\<close>

theorem presence_record_unguarded:
  assumes "cs_genesis_applied s" and "run_transition T s b = Ok r"
  shows "is_ok (snd (apply_presence_record J T b s))
    \<and> cs_height (fst (apply_presence_record J T b s)) = blk_height b
    \<and> cs_last_block_hash (fst (apply_presence_record J T b s)) = blk_block_hash b
    \<and> cs_applied_blocks (fst (apply_presence_record J T b s)) = cs_applied_blocks s
    \<and> cs_last_finalized_height (fst (apply_presence_record J T b s)) = cs_last_finalized_height s"
  using assms by (simp add: apply_presence_record_def Let_def chain_upd_defs)

section \<open>A sample chain\<close>

definition sample_transition :: "(u8, unit, unit, u64, unit) transition_api" where
  "sample_transition =
     \<lparr>st_apply_block = (\<lambda>b prev utxos spent supply dr orr.
        Ok \<lparr>srd_hash = zero_hash, srd_block_height = blk_height b, srd_total_supply = 5,
            srd_dna_root = dr, srd_oracle_root = orr, srd_utxo_count = 1,
            srd_spent_nullifier_count = 0, srd_new_utxos = [5], srd_spent_nullifiers = []\<rparr>),
      st_preview = (\<lambda>c prev utxos spent supply dr orr.
        Ok \<lparr>pv_state_root = StateRoot zero_hash, pv_new_total_supply = 5\<rparr>),
      st_error_to_string = (\<lambda>_. ''error''), epoch_length_blocks = 288,
      hash_set_iter = (\<lambda>_. [])\<rparr>"

definition sample_genesis :: "(u8, unit, unit) block" where
  "sample_genesis = block_new sample_crypto zero_hash 0 0 0 [tx_new_coinbase sample_crypto [] 0 2] zero_hash 5"

definition sample_child :: "(u8, unit, unit) block" where
  "sample_child = block_new sample_crypto (blk_block_hash sample_genesis) 1 0 0 [] zero_hash 5"

abbreviation sample_step :: "(u8, unit, unit) chain_op \<Rightarrow> u64 chain_state \<Rightarrow> u64 chain_state" where
  "sample_step \<equiv> chain_step sample_crypto sample_utxos sample_transition"

lemma block_new_sealed: "block_compute_hash C (block_new C p h a z txs sr su) = blk_block_hash (block_new C p h a z txs sr su)"
  by (simp add: block_new_def Let_def block_compute_hash_def block_preimage_def)

lemma block_new_fields [simp]:
  "blk_height (block_new C p h a z txs sr su) = h"
  "blk_prev_hash (block_new C p h a z txs sr su) = p"
  "blk_transactions (block_new C p h a z txs sr su) = txs"
  "blk_settlement_checkpoint (block_new C p h a z txs sr su) = None"
  by (simp_all add: block_new_def Let_def)

lemma sample_genesis_state:
  "cs_genesis_applied (sample_step (ApplyBlock sample_genesis) (chain_new sample_crypto))"
  "cs_height (sample_step (ApplyBlock sample_genesis) (chain_new sample_crypto)) = 0"
  "cs_last_finalized_height (sample_step (ApplyBlock sample_genesis) (chain_new sample_crypto)) = 0"
  "cs_last_block_hash (sample_step (ApplyBlock sample_genesis) (chain_new sample_crypto)) = blk_block_hash sample_genesis"
  "cs_canonical_tip (sample_step (ApplyBlock sample_genesis) (chain_new sample_crypto)) = blk_block_hash sample_genesis"
  "cs_canonical_height (sample_step (ApplyBlock sample_genesis) (chain_new sample_crypto)) = 0"
  "cs_applied_blocks (sample_step (ApplyBlock sample_genesis) (chain_new sample_crypto)) = [(0, blk_block_hash sample_genesis)]"
  by (simp_all add: apply_block_checked_def apply_genesis_def chain_new_def sample_transition_def
      sample_genesis_def block_new_sealed is_coinbase_def tx_new_coinbase_def tx_compute_hash_def)

lemma sample_transition_ok: "\<exists>r. run_transition sample_transition s b = Ok r"
  by (simp add: run_transition_def sample_transition_def)

lemma sample_child_applies:
  "is_ok (snd (apply_block_checked sample_crypto sample_utxos sample_transition sample_child
     (sample_step (ApplyBlock sample_genesis) (chain_new sample_crypto))))"
proof -
  let ?s = "sample_step (ApplyBlock sample_genesis) (chain_new sample_crypto)"
  obtain r where "run_transition sample_transition ?s sample_child = Ok r"
    using sample_transition_ok by blast
  moreover have "blk_height sample_child = 1" "blk_prev_hash sample_child = blk_block_hash sample_genesis"
    "block_compute_hash sample_crypto sample_child = blk_block_hash sample_child"
    by (simp_all add: sample_child_def block_new_sealed)
  ultimately show ?thesis
    using sample_genesis_state by (simp add: apply_block_checked_def Let_def del: chain_step.simps)
qed

theorem chain_extends_witness:
  "\<exists>s s' res. s = fold sample_step [ApplyBlock sample_genesis] (chain_new sample_crypto)
     \<and> apply_block_checked sample_crypto sample_utxos sample_transition sample_child s = (s', Ok res)
     \<and> cs_height s < blk_height sample_child \<and> cs_canonical_tip s' = blk_block_hash sample_child"
proof -
  let ?s = "fold sample_step [ApplyBlock sample_genesis] (chain_new sample_crypto)"
  obtain s' res where ok:
    "apply_block_checked sample_crypto sample_utxos sample_transition sample_child ?s = (s', Ok res)"
    using sample_child_applies by (auto elim!: is_ok.elims simp: prod_eq_iff)
  have "blk_height sample_child \<noteq> 0" by (simp add: sample_child_def)
  from chain_extends [OF refl ok this] ok show ?thesis by blast
qed

text \<open>After the sample genesis and its child, a second genesis block lies below the canonical height.\<close>

theorem chain_never_reorgs_witness:
  "cs_canonical_height (fold sample_step [ApplyBlock sample_genesis, ApplyBlock sample_child] (chain_new sample_crypto)) = 1
   \<and> snd (apply_block_checked sample_crypto sample_utxos sample_transition sample_genesis
       (fold sample_step [ApplyBlock sample_genesis, ApplyBlock sample_child] (chain_new sample_crypto)))
     = Err GenesisAlreadyApplied"
proof -
  let ?g = "sample_step (ApplyBlock sample_genesis) (chain_new sample_crypto)"
  let ?s = "fold sample_step [ApplyBlock sample_genesis, ApplyBlock sample_child] (chain_new sample_crypto)"
  have inv: "chain_inv ?g" using chain.run_init_inv [of sample_crypto sample_utxos sample_transition "[ApplyBlock sample_genesis]"] by simp
  obtain s' res where ok: "apply_block_checked sample_crypto sample_utxos sample_transition sample_child ?g = (s', Ok res)"
    using sample_child_applies by (auto elim!: is_ok.elims simp: prod_eq_iff)
  have h: "blk_height sample_child = 1" "blk_height sample_genesis = 0" by (simp_all add: sample_child_def sample_genesis_def)
  have "?s = s'" using ok by (simp del: chain_step.simps(1) add: chain_step.simps(1) [of _ _ _ sample_child])
  then have height: "cs_canonical_height ?s = 1" using apply_block_checked_Ok(10) [OF ok inv] h by simp
  have "block_compute_hash sample_crypto sample_genesis = blk_block_hash sample_genesis"
    by (simp add: sample_genesis_def block_new_sealed)
  with chain_never_reorgs [OF refl, of sample_crypto sample_utxos sample_transition
      "[ApplyBlock sample_genesis, ApplyBlock sample_child]" "[]" sample_genesis] height h show ?thesis by simp
qed

theorem chain_errors_atomic_witness:
  "fst (apply_block_checked sample_crypto sample_utxos sample_transition sample_child
     (chain_new sample_crypto)) = chain_new sample_crypto"
proof -
  have "\<not> is_ok (snd (apply_block_checked sample_crypto sample_utxos sample_transition sample_child
     (chain_new sample_crypto)))"
    by (simp add: apply_block_checked_def sample_child_def block_new_sealed chain_new_def)
  with chain_errors_atomic [of sample_crypto sample_utxos sample_transition sample_child
      "chain_new sample_crypto"] show ?thesis by blast
qed

theorem presence_record_unguarded_witness:
  "cs_height (fst (apply_presence_record sample_utxos sample_transition sample_genesis
     (finalize_up_to 9 (sample_step (ApplyBlock sample_genesis) (chain_new sample_crypto))))) = 0"
proof -
  let ?s = "finalize_up_to 9 (sample_step (ApplyBlock sample_genesis) (chain_new sample_crypto))"
  have "cs_genesis_applied ?s"
    using sample_genesis_state(1) by (simp add: finalize_up_to_def)
  moreover obtain r where "run_transition sample_transition ?s sample_genesis = Ok r"
    using sample_transition_ok by blast
  ultimately show ?thesis
    using presence_record_unguarded [of ?s sample_transition sample_genesis r sample_utxos]
    by (simp add: sample_genesis_def)
qed

end
