(* ===== verification/Genesis.thy ===== *)
theory Genesis
  imports Block
begin

text \<open>
  \<open>crates/aevum-core/src/genesis.rs\<close>: the genesis block, its hash, \<open>finalize\<close> and
  \<open>verify_internal\<close>. The hash has no transaction count in its preimage, but every other part has
  a fixed width, so the length of the preimage gives the count: the hash commits to the whole
  header and to every transaction hash (interpretation \<open>genesis_binding\<close>).
\<close>

record ('pk, 'zk, 'dna) genesis_block =
  gb_version :: u32
  gb_chain_id :: u32
  gb_height :: u64
  gb_timestamp :: u64
  gb_transactions :: "('pk, 'zk, 'dna) transaction list"
  gb_state_root :: state_root
  gb_total_supply :: u64
  gb_block_hash :: hash

definition genesis_preimage :: "('pk, 'zk, 'dna) genesis_block \<Rightarrow> bytes" where
  "genesis_preimage g =
     ascii ''AEVUM_GENESIS_V1'' @ le32 (gb_version g) @ le32 (gb_chain_id g) @ le64 (gb_height g)
     @ le64 (gb_timestamp g) @ concat (map tx_hash (gb_transactions g))
     @ root_hash (gb_state_root g) @ le64 (gb_total_supply g)"

definition genesis_compute_hash :: "'pk crypto_api \<Rightarrow> ('pk, 'zk, 'dna) genesis_block \<Rightarrow> hash" where
  "genesis_compute_hash C g = blake3 C (genesis_preimage g)"

definition genesis_finalize ::
  "'pk crypto_api \<Rightarrow> ('pk, 'zk, 'dna) genesis_block \<Rightarrow> u32
     \<Rightarrow> (('pk, 'zk, 'dna) genesis_block, string) result" where
  "genesis_finalize C g expected_chain_id =
     (if gb_height g \<noteq> 0 then Err ''genesis height must be 0''
      else if gb_chain_id g \<noteq> expected_chain_id then Err ''wrong chain_id''
      else if gb_total_supply g = 0 then Err ''genesis supply is zero''
      else if length (gb_transactions g) \<noteq> 1 \<or> \<not> is_coinbase (gb_transactions g ! 0)
        then Err ''genesis must have exactly one coinbase transaction''
      else Ok (g\<lparr>gb_block_hash := genesis_compute_hash C g\<rparr>))"

definition genesis_verify_internal ::
  "'pk crypto_api \<Rightarrow> ('pk, 'zk, 'dna) genesis_block \<Rightarrow> u32 \<Rightarrow> bool" where
  "genesis_verify_internal C g expected_chain_id \<longleftrightarrow>
     gb_height g = 0 \<and> gb_chain_id g = expected_chain_id \<and> 0 < gb_total_supply g
     \<and> length (gb_transactions g) = 1 \<and> is_coinbase (gb_transactions g ! 0)
     \<and> gb_block_hash g = genesis_compute_hash C g"

section \<open>Lemmas\<close>

definition genesis_wf :: "('pk, 'zk, 'dna) genesis_block \<Rightarrow> bool" where
  "genesis_wf g \<longleftrightarrow> length (root_hash (gb_state_root g)) = 32
     \<and> (\<forall>t \<in> set (gb_transactions g). length (tx_hash t) = 32)"

definition genesis_core :: "('pk, 'zk, 'dna) genesis_block \<Rightarrow> _" where
  "genesis_core g = (gb_version g, gb_chain_id g, gb_height g, gb_timestamp g,
     map tx_hash (gb_transactions g), gb_state_root g, gb_total_supply g)"

lemma genesis_preimage_binds:
  fixes x y :: "('pk, 'zk, 'dna) genesis_block"
  assumes "genesis_wf x" and "genesis_wf y" and eq: "genesis_preimage x = genesis_preimage y"
  shows "genesis_core x = genesis_core y"
proof -
  have wx: "\<forall>t\<in>set (gb_transactions x). length (tx_hash t) = 32"
    and wy: "\<forall>t\<in>set (gb_transactions y). length (tx_hash t) = 32"
    and rx: "length (root_hash (gb_state_root x)) = 32"
    and ry: "length (root_hash (gb_state_root y)) = 32"
    using assms(1,2) by (auto simp: genesis_wf_def)
  have "length (genesis_preimage x) = length (genesis_preimage y)" using eq by simp
  then have len: "length (gb_transactions x) = length (gb_transactions y)"
    using rx ry length_concat_fixed [OF wx] length_concat_fixed [OF wy]
    by (simp add: genesis_preimage_def)
  from eq have heads: "gb_version x = gb_version y" "gb_chain_id x = gb_chain_id y"
      "gb_height x = gb_height y" "gb_timestamp x = gb_timestamp y"
    and rest: "concat (map tx_hash (gb_transactions x)) @ root_hash (gb_state_root x) @ le64 (gb_total_supply x)
      = concat (map tx_hash (gb_transactions y)) @ root_hash (gb_state_root y) @ le64 (gb_total_supply y)"
    by (auto simp: genesis_preimage_def)
  from concat_fixed_inj [OF len wx wy rest]
  have "map tx_hash (gb_transactions x) = map tx_hash (gb_transactions y)"
    and tail: "root_hash (gb_state_root x) @ le64 (gb_total_supply x)
      = root_hash (gb_state_root y) @ le64 (gb_total_supply y)"
    by simp_all
  moreover from tail rx ry have "root_hash (gb_state_root x) = root_hash (gb_state_root y)"
    and "gb_total_supply x = gb_total_supply y"
    by auto
  ultimately show ?thesis
    using heads by (simp add: genesis_core_def state_root.expand)
qed

interpretation genesis_binding: binding genesis_preimage genesis_wf genesis_core
  by unfold_locales (rule genesis_preimage_binds)

lemma genesis_finalize_Ok_iff:
  "genesis_finalize C g cid = Ok g' \<longleftrightarrow>
     genesis_verify_internal C g' cid \<and> g' = g\<lparr>gb_block_hash := genesis_compute_hash C g\<rparr>"
  by (auto simp: genesis_finalize_def genesis_verify_internal_def genesis_compute_hash_def
      genesis_preimage_def word_gt_0)

section \<open>Properties\<close>

text \<open>\<open>finalize\<close> succeeds exactly on the blocks that pass \<open>verify_internal\<close> once sealed, and
  two genesis blocks that verify under the same hash, their preimages not being a collision,
  agree in every field but the hash itself, transactions by their hashes.\<close>

theorem genesis_sealed:
  fixes g g' :: "('pk, 'zk, 'dna) genesis_block"
  shows "(is_ok (genesis_finalize C g cid)
      \<longleftrightarrow> genesis_verify_internal C (g\<lparr>gb_block_hash := genesis_compute_hash C g\<rparr>) cid)
   \<and> (genesis_verify_internal C g cid \<and> genesis_verify_internal C g' cid
       \<and> genesis_wf g \<and> genesis_wf g' \<and> gb_block_hash g = gb_block_hash g'
       \<and> no_collision C (genesis_preimage g) (genesis_preimage g')
      \<longrightarrow> genesis_core g = genesis_core g')"
proof
  show "is_ok (genesis_finalize C g cid)
      \<longleftrightarrow> genesis_verify_internal C (g\<lparr>gb_block_hash := genesis_compute_hash C g\<rparr>) cid"
  proof
    assume "is_ok (genesis_finalize C g cid)"
    then obtain h where "genesis_finalize C g cid = Ok h" by (auto elim: is_ok.elims)
    then show "genesis_verify_internal C (g\<lparr>gb_block_hash := genesis_compute_hash C g\<rparr>) cid"
      unfolding genesis_finalize_Ok_iff by blast
  next
    assume "genesis_verify_internal C (g\<lparr>gb_block_hash := genesis_compute_hash C g\<rparr>) cid"
    then have "genesis_finalize C g cid = Ok (g\<lparr>gb_block_hash := genesis_compute_hash C g\<rparr>)"
      unfolding genesis_finalize_Ok_iff by blast
    then show "is_ok (genesis_finalize C g cid)" by simp
  qed
  show "genesis_verify_internal C g cid \<and> genesis_verify_internal C g' cid
       \<and> genesis_wf g \<and> genesis_wf g' \<and> gb_block_hash g = gb_block_hash g'
       \<and> no_collision C (genesis_preimage g) (genesis_preimage g')
      \<longrightarrow> genesis_core g = genesis_core g'"
    by (auto simp: genesis_verify_internal_def genesis_compute_hash_def
        intro: genesis_binding.hash_binds [of g g' C])
qed

definition sample_genesis_block :: "(u8, unit, unit) genesis_block" where
  "sample_genesis_block =
     \<lparr>gb_version = 1, gb_chain_id = 2, gb_height = 0, gb_timestamp = 7,
      gb_transactions = [(tx_new_coinbase sample_crypto [] 0 2)\<lparr>tx_hash := zero_hash\<rparr>],
      gb_state_root = StateRoot zero_hash, gb_total_supply = 5, gb_block_hash = zero_hash\<rparr>"

theorem genesis_sealed_witness:
  "genesis_core sample_genesis_block
   = genesis_core (sample_genesis_block\<lparr>gb_block_hash := genesis_compute_hash sample_crypto sample_genesis_block\<rparr>)
   \<and> is_ok (genesis_finalize sample_crypto sample_genesis_block 2)"
proof -
  let ?g = "sample_genesis_block\<lparr>gb_block_hash := genesis_compute_hash sample_crypto sample_genesis_block\<rparr>"
  have v: "genesis_verify_internal sample_crypto ?g 2" and w: "genesis_wf ?g"
    by (simp_all add: sample_genesis_block_def genesis_verify_internal_def genesis_wf_def
        genesis_compute_hash_def genesis_preimage_def tx_new_coinbase_def is_coinbase_def tx_compute_hash_def)
  have "genesis_core ?g = genesis_core ?g"
    using genesis_sealed [of sample_crypto ?g 2 ?g] v w by simp
  moreover have "is_ok (genesis_finalize sample_crypto sample_genesis_block 2)"
    using genesis_sealed [of sample_crypto sample_genesis_block 2 ?g] v by simp
  ultimately show ?thesis by (simp add: genesis_core_def)
qed

end
