(* ===== verification/Presence.thy ===== *)
theory Presence
  imports Block
begin

text \<open>
  \<open>crates/aevum-core/src/presence.rs\<close>: presence records and the cycle check of an epoch's record
  graph. The search of \<open>verify_dag_acyclic\<close> is a loop on a stack and a set of visited hashes; it
  is a total function here, by a measure on the records not yet visited and the stack.

  The lemmas: \<open>finalize\<close> leaves a sealed record with canonical parents; the search decides whether
  the record reaches itself along parent edges; the hash commits to the record once the number of
  transactions is fixed, and not otherwise.
\<close>

section \<open>Records\<close>

definition MAX_TRANSACTIONS_PER_RECORD :: nat where "MAX_TRANSACTIONS_PER_RECORD = 10000"
definition MAX_PARENT_RECORDS :: nat where "MAX_PARENT_RECORDS = 64"
definition MAX_RECORD_FUTURE_DRIFT_SECS :: u64 where "MAX_RECORD_FUTURE_DRIFT_SECS = 30"

datatype presence_record_type = PresenceHeartbeat | TransactionBatch | StateUpdate

fun record_type_byte :: "presence_record_type \<Rightarrow> u8" where
  "record_type_byte PresenceHeartbeat = 0"
| "record_type_byte TransactionBatch = 1"
| "record_type_byte StateUpdate = 2"

record ('pk, 'zk, 'dna) presence_record =
  pr_version :: u32
  pr_chain_id :: u32
  pr_epoch_id :: u64
  pr_epoch_anchor_hash :: hash
  pr_sequence :: u64
  pr_node_id :: bytes
  pr_record_type :: presence_record_type
  pr_timestamp :: u64
  pr_transactions :: "('pk, 'zk, 'dna) transaction list"
  pr_parent_records :: "hash list"
  pr_record_hash :: hash
  pr_signature :: bytes

text \<open>\<open>Vec::sort\<close> followed by \<open>Vec::dedup\<close>.\<close>

definition canonical :: "hash list \<Rightarrow> hash list" where
  "canonical hs = remdups_adj (sort hs)"

text \<open>\<open>zero_sig\<close> is \<open>SignatureBytes::zero()\<close> of the cryptographic crate.\<close>

definition first_in_epoch ::
  "bytes \<Rightarrow> u32 \<Rightarrow> u32 \<Rightarrow> u64 \<Rightarrow> hash \<Rightarrow> bytes \<Rightarrow> presence_record_type \<Rightarrow> u64
     \<Rightarrow> ('pk, 'zk, 'dna) transaction list \<Rightarrow> ('pk, 'zk, 'dna) presence_record" where
  "first_in_epoch zero_sig version chain_id epoch_id anchor node_id rtype timestamp txs =
     \<lparr>pr_version = version, pr_chain_id = chain_id, pr_epoch_id = epoch_id,
      pr_epoch_anchor_hash = anchor, pr_sequence = 0, pr_node_id = node_id,
      pr_record_type = rtype, pr_timestamp = timestamp, pr_transactions = txs,
      pr_parent_records = [anchor], pr_record_hash = zero_hash, pr_signature = zero_sig\<rparr>"

definition with_parents ::
  "bytes \<Rightarrow> u32 \<Rightarrow> u32 \<Rightarrow> u64 \<Rightarrow> hash \<Rightarrow> u64 \<Rightarrow> bytes \<Rightarrow> presence_record_type \<Rightarrow> u64
     \<Rightarrow> ('pk, 'zk, 'dna) transaction list \<Rightarrow> hash list \<Rightarrow> ('pk, 'zk, 'dna) presence_record" where
  "with_parents zero_sig version chain_id epoch_id anchor seqno node_id rtype timestamp txs parents =
     \<lparr>pr_version = version, pr_chain_id = chain_id, pr_epoch_id = epoch_id,
      pr_epoch_anchor_hash = anchor, pr_sequence = seqno, pr_node_id = node_id,
      pr_record_type = rtype, pr_timestamp = timestamp, pr_transactions = txs,
      pr_parent_records = canonical parents, pr_record_hash = zero_hash, pr_signature = zero_sig\<rparr>"

definition presence_preimage :: "('pk, 'zk, 'dna) presence_record \<Rightarrow> bytes" where
  "presence_preimage r =
     ascii ''AEVUM_PRESENCE_RECORD_V2'' @ le32 (pr_version r) @ le32 (pr_chain_id r)
     @ le64 (pr_epoch_id r) @ pr_epoch_anchor_hash r @ le64 (pr_sequence r) @ pr_node_id r
     @ [record_type_byte (pr_record_type r)] @ le64 (pr_timestamp r)
     @ concat (map tx_hash (pr_transactions r)) @ concat (pr_parent_records r)"

definition presence_compute_hash :: "'pk crypto_api \<Rightarrow> ('pk, 'zk, 'dna) presence_record \<Rightarrow> hash" where
  "presence_compute_hash C r = blake3 C (presence_preimage r)"

definition presence_finalize ::
  "'pk crypto_api \<Rightarrow> ('pk, 'zk, 'dna) presence_record \<Rightarrow> u64
     \<Rightarrow> (('pk, 'zk, 'dna) presence_record, string) result" where
  "presence_finalize C r current_time =
     (if MAX_TRANSACTIONS_PER_RECORD < length (pr_transactions r) then Err ''too many transactions''
      else if pr_parent_records r = [] then Err ''parent_records cannot be empty''
      else if MAX_PARENT_RECORDS < length (pr_parent_records r) then Err ''too many parent records''
      else if sat_add current_time MAX_RECORD_FUTURE_DRIFT_SECS < pr_timestamp r
        then Err ''timestamp too far in future''
      else let r' = r\<lparr>pr_parent_records := canonical (pr_parent_records r)\<rparr>
           in Ok (r'\<lparr>pr_record_hash := presence_compute_hash C r'\<rparr>))"

definition verify_hash_integrity :: "'pk crypto_api \<Rightarrow> ('pk, 'zk, 'dna) presence_record \<Rightarrow> bool" where
  "verify_hash_integrity C r \<longleftrightarrow> pr_record_hash r = presence_compute_hash C r"

definition presence_verify_signature ::
  "'pk crypto_api \<Rightarrow> ('pk, 'zk, 'dna) presence_record \<Rightarrow> 'pk \<Rightarrow> bool" where
  "presence_verify_signature C r pubkey = pk_verify C pubkey (pr_record_hash r) (pr_signature r)"

definition presence_verify :: "'pk crypto_api \<Rightarrow> ('pk, 'zk, 'dna) presence_record \<Rightarrow> 'pk \<Rightarrow> bool" where
  "presence_verify C r pubkey \<longleftrightarrow> verify_hash_integrity C r \<and> presence_verify_signature C r pubkey"

section \<open>The cycle check\<close>

type_synonym ('pk, 'zk, 'dna) record_map = "(hash \<times> ('pk, 'zk, 'dna) presence_record) list"

text \<open>
  One iteration pops the top of the stack (the head of the list). The parents are pushed in
  order, so the last one is on top; a parent equal to the target ends the search.
\<close>

function dag_loop ::
  "('pk, 'zk, 'dna) record_map \<Rightarrow> hash \<Rightarrow> hash set \<Rightarrow> hash list \<Rightarrow> bool" where
  "dag_loop recs target visited [] = True"
| "dag_loop recs target visited (current # stack) =
     (if current \<in> visited then dag_loop recs target visited stack
      else if current = target \<and> stack \<noteq> [] then dag_loop recs target (insert current visited) stack
      else (case map_of recs current of
          None \<Rightarrow> dag_loop recs target (insert current visited) stack
        | Some r \<Rightarrow>
            if target \<in> set (pr_parent_records r) then False
            else dag_loop recs target (insert current visited) (rev (pr_parent_records r) @ stack)))"
  by pat_completeness auto

definition unvisited :: "('k \<times> 'v) list \<Rightarrow> 'k set \<Rightarrow> 'k set" where
  "unvisited m visited = fst ` set m - visited"

lemma finite_unvisited [simp]: "finite (unvisited m v)"
  by (simp add: unvisited_def)

lemma unvisited_insert_le: "card (unvisited m (insert k v)) \<le> card (unvisited m v)"
  by (rule card_mono) (auto simp: unvisited_def)

lemma unvisited_insert_less:
  "k \<notin> v \<Longrightarrow> map_of m k = Some x \<Longrightarrow> card (unvisited m (insert k v)) < card (unvisited m v)"
proof (rule psubset_card_mono)
  assume "k \<notin> v" and "map_of m k = Some x"
  then have "k \<in> unvisited m v - unvisited m (insert k v)"
    by (force simp: unvisited_def dest: map_of_SomeD)
  then show "unvisited m (insert k v) \<subset> unvisited m v"
    by (auto simp: unvisited_def)
qed simp

termination dag_loop
proof (relation "measures [\<lambda>(recs, _, visited, _). card (unvisited recs visited),
    \<lambda>(_, _, _, stack). length stack]", goal_cases)
  case (3 recs target visited current stack)
  then show ?case using unvisited_insert_le [of recs current visited] by auto
next
  case (4 recs target visited current stack)
  then show ?case using unvisited_insert_le [of recs current visited] by auto
next
  case (5 recs target visited current stack r)
  then show ?case using unvisited_insert_less [of current visited recs] by auto
qed simp_all

definition verify_dag_acyclic ::
  "('pk, 'zk, 'dna) presence_record \<Rightarrow> ('pk, 'zk, 'dna) record_map \<Rightarrow> bool" where
  "verify_dag_acyclic r recs = dag_loop recs (pr_record_hash r) {} [pr_record_hash r]"


section \<open>Correctness of the search\<close>

definition parent_edges :: "('pk, 'zk, 'dna) record_map \<Rightarrow> (hash \<times> hash) set" where
  "parent_edges recs = {(c, p). \<exists>r. map_of recs c = Some r \<and> p \<in> set (pr_parent_records r)}"

text \<open>The edges whose source has not been visited.\<close>

definition fresh_edges :: "('a \<times> 'a) set \<Rightarrow> 'a set \<Rightarrow> ('a \<times> 'a) set" where
  "fresh_edges E v = {(x, y) \<in> E. x \<notin> v}"

lemma fresh_edges_empty [simp]: "fresh_edges E {} = E"
  by (auto simp: fresh_edges_def)

lemma fresh_trancl_source: "(x, y) \<in> (fresh_edges E v)\<^sup>+ \<Longrightarrow> x \<notin> v"
  by (auto simp: fresh_edges_def dest: tranclD)

lemma fresh_trancl_mono: "(x, y) \<in> (fresh_edges E (insert c v))\<^sup>+ \<Longrightarrow> (x, y) \<in> (fresh_edges E v)\<^sup>+"
  by (rule trancl_mono) (auto simp: fresh_edges_def)

text \<open>A path either avoids a node as a source or can be cut at its last visit there.\<close>

lemma fresh_trancl_cut:
  assumes "(x, h) \<in> (fresh_edges E v)\<^sup>+"
  shows "(x, h) \<in> (fresh_edges E (insert c v))\<^sup>+
    \<or> (\<exists>p. (c, p) \<in> E \<and> (p = h \<or> (p, h) \<in> (fresh_edges E (insert c v))\<^sup>+))"
  using assms
proof (induction rule: converse_trancl_induct)
  case (base y)
  then show ?case by (cases "y = c") (auto simp: fresh_edges_def)
next
  case (step y z)
  show ?case
  proof (cases "y = c")
    case True
    with step show ?thesis by (auto simp: fresh_edges_def)
  next
    case False
    with step(1) have "(y, z) \<in> fresh_edges E (insert c v)" by (auto simp: fresh_edges_def)
    with step(3) show ?thesis by (blast intro: trancl_into_trancl2)
  qed
qed

lemma fresh_trancl_expand:
  assumes "c \<notin> v" and "(c, h) \<notin> E"
  shows "(c, h) \<in> (fresh_edges E v)\<^sup>+ \<or> (\<exists>x \<in> S. (x, h) \<in> (fresh_edges E v)\<^sup>+)
    \<longleftrightarrow> (\<exists>x \<in> {p. (c, p) \<in> E} \<union> S. (x, h) \<in> (fresh_edges E (insert c v))\<^sup>+)" (is "?L \<longleftrightarrow> ?R")
proof
  assume ?L
  then obtain x where x: "x = c \<or> x \<in> S" "(x, h) \<in> (fresh_edges E v)\<^sup>+" by blast
  from fresh_trancl_cut [OF x(2), of c] assms(2) x(1) fresh_trancl_source show ?R by fast
next
  assume ?R
  then obtain x where x: "(c, x) \<in> E \<or> x \<in> S" "(x, h) \<in> (fresh_edges E (insert c v))\<^sup>+" by blast
  from fresh_trancl_mono [OF x(2)] x(1) assms(1) show ?L
    by (auto simp: fresh_edges_def intro: trancl_into_trancl2)
qed

lemma dag_loop_correct:
  assumes "target \<in> visited"
  shows "dag_loop recs target visited stack
    \<longleftrightarrow> \<not> (\<exists>x \<in> set stack. (x, target) \<in> (fresh_edges (parent_edges recs) visited)\<^sup>+)"
  using assms
proof (induction recs target visited stack rule: dag_loop.induct)
  case (1 recs target visited)
  then show ?case by simp
next
  case (2 recs target visited current stack)
  let ?E = "parent_edges recs"
  show ?case
  proof (cases "current \<in> visited")
    case True
    then have "(current, target) \<notin> (fresh_edges ?E visited)\<^sup>+"
      using fresh_trancl_source [of current target ?E visited] by metis
    with True 2(1) [OF True 2(5)] show ?thesis by simp
  next
    case False
    then have ne: "current \<noteq> target" using 2(5) by blast
    show ?thesis
    proof (cases "map_of recs current")
      case None
      then have "{p. (current, p) \<in> ?E} = {}" by (simp add: parent_edges_def)
      with fresh_trancl_expand [of current visited target ?E "set stack"] False None ne 2(3,5)
      show ?thesis by auto
    next
      case (Some r)
      then have ps: "{p. (current, p) \<in> ?E} = set (pr_parent_records r)" by (simp add: parent_edges_def)
      show ?thesis
      proof (cases "target \<in> set (pr_parent_records r)")
        case True
        with ps False have "(current, target) \<in> (fresh_edges ?E visited)\<^sup>+"
          by (auto simp: fresh_edges_def)
        with True False Some ne show ?thesis by auto
      next
        case notin: False
        with ps have "(current, target) \<notin> ?E" by blast
        from fresh_trancl_expand [OF False this, of "set stack"] ps False Some ne notin 2(4,5)
        show ?thesis by (simp add: ball_Un)
      qed
    qed
  qed
qed

section \<open>Canonical parents and the record hash\<close>

lemma set_canonical_parents [simp]: "set (canonical hs) = set hs"
  by (simp add: canonical_def)

lemma sorted_distinct_adj: "sorted xs \<Longrightarrow> distinct_adj xs \<Longrightarrow> sorted_wrt (<) xs"
proof (induction xs rule: induct_list012)
  case (3 x y zs)
  then have "x < y" and "sorted_wrt (<) (y # zs)" by auto
  then show ?case by (auto intro: less_trans)
qed simp_all

lemma canonical_sorted: "sorted_wrt (<) (canonical hs)"
  by (simp add: canonical_def sorted_distinct_adj)

lemma canonical_length: "length (canonical hs) \<le> length hs"
  using remdups_adj_length [of "sort hs"] by (simp add: canonical_def)

lemma canonical_unique: "set hs = set hs' \<Longrightarrow> canonical hs = canonical hs'"
  by (metis canonical_sorted set_canonical_parents strict_sorted_equal)

lemma canonical_idem [simp]: "canonical (canonical hs) = canonical hs"
  by (rule canonical_unique) simp

definition presence_wf :: "nat \<Rightarrow> ('pk, 'zk, 'dna) presence_record \<Rightarrow> bool" where
  "presence_wf n r \<longleftrightarrow> length (pr_transactions r) = n
     \<and> length (pr_epoch_anchor_hash r) = 32 \<and> length (pr_node_id r) = 32
     \<and> (\<forall>t \<in> set (pr_transactions r). length (tx_hash t) = 32)
     \<and> (\<forall>p \<in> set (pr_parent_records r). length p = 32)"

definition presence_core :: "('pk, 'zk, 'dna) presence_record \<Rightarrow> _" where
  "presence_core r = (pr_version r, pr_chain_id r, pr_epoch_id r, pr_epoch_anchor_hash r,
     pr_sequence r, pr_node_id r, pr_record_type r, pr_timestamp r,
     map tx_hash (pr_transactions r), pr_parent_records r)"

lemma record_type_byte_inj [simp]: "record_type_byte a = record_type_byte b \<longleftrightarrow> a = b"
  by (cases a; cases b) simp_all

lemma concat_hashes_inj:
  assumes "\<forall>h \<in> set xs. length h = 32" and "\<forall>h \<in> set ys. length h = 32"
    and "concat xs = concat ys"
  shows "xs = (ys :: hash list)"
proof -
  have "32 * length xs = 32 * length ys"
    using length_concat_fixed [of xs id 32] length_concat_fixed [of ys id 32] assms by simp
  then show ?thesis
    using concat_fixed_inj [of xs ys id 32 id "[]" "[]"] assms by simp
qed

lemma presence_preimage_binds:
  fixes x y :: "('pk, 'zk, 'dna) presence_record"
  assumes wx: "presence_wf n x" and wy: "presence_wf n y"
    and eq: "presence_preimage x = presence_preimage y"
  shows "presence_core x = presence_core y"
proof -
  from eq wx wy have heads: "pr_version x = pr_version y" "pr_chain_id x = pr_chain_id y"
      "pr_epoch_id x = pr_epoch_id y" "pr_epoch_anchor_hash x = pr_epoch_anchor_hash y"
      "pr_sequence x = pr_sequence y" "pr_node_id x = pr_node_id y"
      "pr_record_type x = pr_record_type y" "pr_timestamp x = pr_timestamp y"
    and rest: "concat (map tx_hash (pr_transactions x)) @ concat (pr_parent_records x)
      = concat (map tx_hash (pr_transactions y)) @ concat (pr_parent_records y)"
    by (auto simp: presence_preimage_def presence_wf_def)
  have "map tx_hash (pr_transactions x) = map tx_hash (pr_transactions y)
      \<and> concat (pr_parent_records x) = concat (pr_parent_records y)"
    by (rule concat_fixed_inj [OF _ _ _ rest, where k = 32])
      (use wx wy in \<open>simp_all add: presence_wf_def\<close>)
  moreover from this have "pr_parent_records x = pr_parent_records y"
    using wx wy by (auto simp: presence_wf_def intro: concat_hashes_inj)
  ultimately show ?thesis using heads by (simp add: presence_core_def)
qed

interpretation presence_binding: binding presence_preimage "presence_wf n" presence_core for n
  by unfold_locales (rule presence_preimage_binds)

section \<open>Properties\<close>

lemma verify_dag_acyclic_reach:
  "verify_dag_acyclic r recs \<longleftrightarrow> (pr_record_hash r, pr_record_hash r) \<notin> (parent_edges recs)\<^sup>+"
proof (cases "map_of recs (pr_record_hash r)")
  case None
  then have "verify_dag_acyclic r recs" by (simp add: verify_dag_acyclic_def)
  moreover have "(pr_record_hash r, pr_record_hash r) \<notin> (parent_edges recs)\<^sup>+"
    using None by (auto simp: parent_edges_def dest: tranclD)
  ultimately show ?thesis by simp
next
  case (Some q)
  let ?h = "pr_record_hash r" and ?E = "parent_edges recs"
  have ps: "{p. (?h, p) \<in> ?E} = set (pr_parent_records q)" using Some by (simp add: parent_edges_def)
  show ?thesis
  proof (cases "?h \<in> set (pr_parent_records q)")
    case True
    with ps have "(?h, ?h) \<in> ?E\<^sup>+" by blast
    with True Some show ?thesis by (simp add: verify_dag_acyclic_def)
  next
    case False
    with ps have "(?h, ?h) \<notin> ?E" by blast
    with fresh_trancl_expand [of ?h "{}" ?h ?E "{}"] ps
      dag_loop_correct [of ?h "{?h}" recs "rev (pr_parent_records q)"] Some False
    show ?thesis by (simp add: verify_dag_acyclic_def)
  qed
qed

text \<open>C19. The search of \<open>verify_dag_acyclic\<close> ends on every epoch's records and decides exactly
  whether the record reaches itself along the parent edges of the records stored in the epoch;
  so a record that is not stored yet always passes, whatever its parents are.\<close>

theorem verify_dag_acyclic_decides:
  "(verify_dag_acyclic r recs \<longleftrightarrow> (pr_record_hash r, pr_record_hash r) \<notin> (parent_edges recs)\<^sup>+)
   \<and> (map_of recs (pr_record_hash r) = None \<longrightarrow> verify_dag_acyclic r recs)"
  by (simp add: verify_dag_acyclic_reach) (simp add: verify_dag_acyclic_def flip: verify_dag_acyclic_reach)

definition sample_record :: "hash \<Rightarrow> hash list \<Rightarrow> (u8, unit, unit) presence_record" where
  "sample_record h ps =
     (first_in_epoch [] 1 2 0 zero_hash zero_hash TransactionBatch 9 [])\<lparr>pr_record_hash := h, pr_parent_records := ps\<rparr>"

theorem verify_dag_acyclic_decides_witness:
  "\<not> verify_dag_acyclic (sample_record [1] [[2]])
       [([1], sample_record [1] [[2]]), ([2], sample_record [2] [[0], [1]])]
   \<and> ([1], [1]) \<in> (parent_edges [([1], sample_record [1] [[2]]), ([2], sample_record [2] [[0], [1]])])\<^sup>+
   \<and> verify_dag_acyclic (sample_record [1] [[1]]) []"
proof -
  have h: "pr_record_hash (sample_record x ps) = x" for x ps by (simp add: sample_record_def)
  have "\<not> verify_dag_acyclic (sample_record [1] [[2]])
       [([1], sample_record [1] [[2]]), ([2], sample_record [2] [[0], [1]])]"
    by (simp add: verify_dag_acyclic_def sample_record_def)
  with verify_dag_acyclic_decides [of "sample_record [1] [[2]]"
      "[([1], sample_record [1] [[2]]), ([2], sample_record [2] [[0], [1]])]"]
    verify_dag_acyclic_decides [of "sample_record [1] [[1]]" "[]"]
  show ?thesis by (auto simp: h)
qed

text \<open>A record that \<open>finalize\<close> accepts is sealed: its hash is the computed one, its parents are
  strictly sorted, the same set as before, at least one and at most 64; it has at most ten thousand
  transactions and lies at most thirty seconds (saturating) in the future. Finalising it again at
  that time changes nothing.\<close>

theorem presence_finalize_seals:
  assumes "presence_finalize C r now = Ok r'"
  shows "verify_hash_integrity C r' \<and> sorted_wrt (<) (pr_parent_records r')
    \<and> set (pr_parent_records r') = set (pr_parent_records r)
    \<and> pr_parent_records r' \<noteq> [] \<and> length (pr_parent_records r') \<le> MAX_PARENT_RECORDS
    \<and> length (pr_transactions r') \<le> MAX_TRANSACTIONS_PER_RECORD
    \<and> unat (pr_timestamp r') \<le> unat now + 30
    \<and> presence_finalize C r' now = Ok r'"
proof -
  from assms have g: "length (pr_transactions r) \<le> MAX_TRANSACTIONS_PER_RECORD"
    "pr_parent_records r \<noteq> []" "length (pr_parent_records r) \<le> MAX_PARENT_RECORDS"
    "pr_timestamp r \<le> sat_add now MAX_RECORD_FUTURE_DRIFT_SECS"
    and r': "r' = r\<lparr>pr_parent_records := canonical (pr_parent_records r),
      pr_record_hash := presence_compute_hash C (r\<lparr>pr_parent_records := canonical (pr_parent_records r)\<rparr>)\<rparr>"
    by (auto simp: presence_finalize_def Let_def split: if_splits)
  have same: "presence_compute_hash C (q\<lparr>pr_record_hash := h\<rparr>) = presence_compute_hash C q"
    for h and q :: "('a, 'b, 'c) presence_record"
    by (simp add: presence_compute_hash_def presence_preimage_def)
  have ps: "pr_parent_records r' = canonical (pr_parent_records r)" by (simp add: r')
  have ne: "canonical (pr_parent_records r) \<noteq> []"
    using g(2) by (metis set_canonical_parents set_empty)
  have len: "length (canonical (pr_parent_records r)) \<le> MAX_PARENT_RECORDS"
    using g(3) canonical_length le_trans by blast
  have seal: "verify_hash_integrity C r'"
    by (simp add: verify_hash_integrity_def r' same)
  have ts: "unat (pr_timestamp r') \<le> unat now + 30"
    using g(4) by (simp add: r' word_le_nat_alt rust_arith MAX_RECORD_FUTURE_DRIFT_SECS_def)
  have "presence_finalize C r' now = Ok r'"
    using g ne len by (simp add: presence_finalize_def r' Let_def not_less
        presence_compute_hash_def presence_preimage_def)
  then show ?thesis
    using g(1) ne len seal ts canonical_sorted [of "pr_parent_records r"] by (simp add: ps) (simp add: r')
qed

theorem presence_finalize_seals_witness:
  "\<exists>r'. presence_finalize sample_crypto (sample_record zero_hash [[2], [1], [2]]) 5 = Ok r'
     \<and> pr_parent_records r' = [[1], [2]] \<and> verify_hash_integrity sample_crypto r'"
proof -
  obtain r' where r': "presence_finalize sample_crypto (sample_record zero_hash [[2], [1], [2]]) 5 = Ok r'"
    and ps: "pr_parent_records r' = [[1], [2]]"
    by (auto simp: presence_finalize_def sample_record_def first_in_epoch_def Let_def canonical_def
        MAX_PARENT_RECORDS_def MAX_TRANSACTIONS_PER_RECORD_def MAX_RECORD_FUTURE_DRIFT_SECS_def sat_add_def)
  from presence_finalize_seals [OF r'] r' ps show ?thesis by blast
qed

text \<open>With the number of transactions known, the record hash commits to the header, to every
  transaction hash and to every parent. Without it the hash does not separate transactions from
  parents: a record with a last transaction, and the record that lists that transaction's hash as
  its first parent instead, have the same hash.\<close>

theorem presence_hash_commitment:
  fixes r r' :: "('pk, 'zk, 'dna) presence_record"
  shows "(presence_wf n r \<and> presence_wf n r' \<and> no_collision C (presence_preimage r) (presence_preimage r')
       \<and> presence_compute_hash C r = presence_compute_hash C r'
      \<longrightarrow> presence_core r = presence_core r')
   \<and> presence_compute_hash C (r\<lparr>pr_transactions := txs @ [t], pr_parent_records := ps\<rparr>)
      = presence_compute_hash C (r\<lparr>pr_transactions := txs, pr_parent_records := tx_hash t # ps\<rparr>)"
proof
  show "presence_wf n r \<and> presence_wf n r' \<and> no_collision C (presence_preimage r) (presence_preimage r')
       \<and> presence_compute_hash C r = presence_compute_hash C r'
      \<longrightarrow> presence_core r = presence_core r'"
    using presence_binding.hash_binds [of n r r' C] by (auto simp: presence_compute_hash_def)
qed (simp add: presence_compute_hash_def presence_preimage_def)

theorem presence_hash_commitment_witness:
  "presence_core (sample_record [1] [zero_hash]) = presence_core (sample_record [2] [zero_hash])"
proof -
  have "presence_wf 0 (sample_record h [zero_hash])" for h
    by (simp add: presence_wf_def sample_record_def first_in_epoch_def)
  moreover have "presence_compute_hash sample_crypto (sample_record [1] [zero_hash])
      = presence_compute_hash sample_crypto (sample_record [2] [zero_hash])"
    by (simp add: presence_compute_hash_def presence_preimage_def sample_record_def first_in_epoch_def)
  ultimately show ?thesis
    using presence_hash_commitment [of 0 "sample_record [1] [zero_hash]" "sample_record [2] [zero_hash]" sample_crypto]
    by simp
qed

end
