(* ===== verification/Settlement.thy ===== *)
theory Settlement
  imports Genesis Presence
begin

text \<open>
  \<open>crates/aevum-core/src/settlement.rs\<close> and \<open>ledger.rs\<close>: settlement blocks, their three nested
  hashes (epoch root, epoch commitment, block hash), the link to the previous settlement or to the
  genesis block, the committee check, and the ledger entry that wraps the three record kinds.
  \<^term>\<open>None\<close> of a check is the panic of \<open>prev.epoch_id + 1\<close> or \<open>prev.height + 1\<close> at the last
  64-bit value.

  The lemmas: \<open>finalize\<close> seals; the block hash commits to every counted quantity and, up to a
  Merkle collision, to the six data roots; the committee check counts distinct committee keys;
  a chain of fully verified settlements has consecutive epochs and heights from the genesis on.
\<close>

section \<open>The settlement block\<close>

record settlement_block =
  sb_total_fees :: u64
  sb_total_rewards :: u64
  sb_version :: u32
  sb_chain_id :: u32
  sb_epoch_id :: u64
  sb_height :: u64
  sb_previous_settlement_hash :: hash
  sb_timestamp :: u64
  sb_epoch_duration_secs :: u64
  sb_epoch_start_time :: u64
  sb_epoch_end_time :: u64
  sb_presence_root :: hash
  sb_transaction_root :: hash
  sb_state_root :: hash
  sb_reward_root :: hash
  sb_participant_root :: hash
  sb_epoch_snapshot_root :: hash
  sb_presence_record_count :: u64
  sb_transaction_count :: u64
  sb_participant_count :: u64
  sb_epoch_root :: hash
  sb_epoch_commitment :: hash
  sb_total_supply :: u64
  sb_block_hash :: hash
  sb_committee_signatures :: "bytes list"

definition settlement_merkle_root :: "'pk crypto_api \<Rightarrow> hash list \<Rightarrow> hash" where
  "settlement_merkle_root C items =
     (if items = [] then zero_hash else merkle_top (merkle_node C ''AEVUM_MERKLE_V1'') items)"

definition epoch_roots :: "settlement_block \<Rightarrow> hash list" where
  "epoch_roots s = [sb_presence_root s, sb_transaction_root s, sb_state_root s,
     sb_reward_root s, sb_participant_root s, sb_epoch_snapshot_root s]"

definition compute_epoch_root :: "'pk crypto_api \<Rightarrow> settlement_block \<Rightarrow> hash" where
  "compute_epoch_root C s = settlement_merkle_root C (epoch_roots s)"

definition commitment_preimage :: "settlement_block \<Rightarrow> bytes" where
  "commitment_preimage s =
     ascii ''AEVUM_EPOCH_COMMITMENT_V1'' @ le64 (sb_epoch_id s) @ sb_epoch_root s
     @ le64 (sb_presence_record_count s) @ le64 (sb_transaction_count s)
     @ le64 (sb_participant_count s) @ le64 (sb_total_fees s) @ le64 (sb_total_rewards s)
     @ le64 (sb_total_supply s)"

definition compute_commitment :: "'pk crypto_api \<Rightarrow> settlement_block \<Rightarrow> hash" where
  "compute_commitment C s = blake3 C (commitment_preimage s)"

definition settlement_preimage :: "settlement_block \<Rightarrow> bytes" where
  "settlement_preimage s =
     ascii ''AEVUM_SETTLEMENT_V2'' @ le32 (sb_version s) @ le32 (sb_chain_id s)
     @ le64 (sb_epoch_id s) @ le64 (sb_height s) @ sb_previous_settlement_hash s
     @ le64 (sb_timestamp s) @ le64 (sb_epoch_duration_secs s) @ le64 (sb_epoch_start_time s)
     @ le64 (sb_epoch_end_time s) @ sb_epoch_commitment s"

definition settlement_compute_hash :: "'pk crypto_api \<Rightarrow> settlement_block \<Rightarrow> hash" where
  "settlement_compute_hash C s = blake3 C (settlement_preimage s)"

definition signing_message :: "settlement_block \<Rightarrow> bytes" where
  "signing_message s = sb_epoch_commitment s @ sb_block_hash s"

definition settlement_finalize :: "'pk crypto_api \<Rightarrow> settlement_block \<Rightarrow> settlement_block" where
  "settlement_finalize C s =
     (let s1 = s\<lparr>sb_epoch_root := compute_epoch_root C s\<rparr>;
          s2 = s1\<lparr>sb_epoch_commitment := compute_commitment C s1\<rparr>
      in s2\<lparr>sb_block_hash := settlement_compute_hash C s2\<rparr>)"

definition settlement_verify_internal :: "'pk crypto_api \<Rightarrow> settlement_block \<Rightarrow> bool" where
  "settlement_verify_internal C s \<longleftrightarrow>
     sb_block_hash s = settlement_compute_hash C s
     \<and> sb_epoch_root s = compute_epoch_root C s
     \<and> sb_epoch_commitment s = compute_commitment C s"

text \<open>The conjuncts are evaluated from the left, so the additions are reached only in order.\<close>

definition verify_chain :: "settlement_block \<Rightarrow> settlement_block \<Rightarrow> bool option" where
  "verify_chain s prev =
     (if sb_previous_settlement_hash s \<noteq> sb_block_hash prev then Some False
      else case chk_add (sb_epoch_id prev) 1 of None \<Rightarrow> None | Some e \<Rightarrow>
        (if sb_epoch_id s \<noteq> e then Some False
         else case chk_add (sb_height prev) 1 of None \<Rightarrow> None | Some h \<Rightarrow>
           Some (sb_height s = h \<and> sb_chain_id s = sb_chain_id prev \<and> sb_version s = sb_version prev)))"

definition verify_genesis_link :: "settlement_block \<Rightarrow> ('pk, 'zk, 'dna) genesis_block \<Rightarrow> bool" where
  "verify_genesis_link s genesis \<longleftrightarrow>
     sb_epoch_id s = 0 \<and> sb_height s = 1 \<and> sb_previous_settlement_hash s = gb_block_hash genesis
     \<and> sb_chain_id s = gb_chain_id genesis"

section \<open>The committee\<close>

definition key_verifies :: "'pk crypto_api \<Rightarrow> bytes \<Rightarrow> bytes \<Rightarrow> bytes \<Rightarrow> bool" where
  "key_verifies C msg sig pkb =
     (case pk_from_bytes C pkb of None \<Rightarrow> False | Some pubkey \<Rightarrow> pk_verify C pubkey msg sig)"

definition find_signer :: "'pk crypto_api \<Rightarrow> bytes \<Rightarrow> bytes set \<Rightarrow> bytes \<Rightarrow> bytes list \<Rightarrow> bytes option" where
  "find_signer C msg used sig pks = find (\<lambda>pkb. pkb \<notin> used \<and> key_verifies C msg sig pkb) pks"

text \<open>The outer loop over the signatures: it stops as soon as \<open>threshold\<close> is reached.\<close>

fun count_signatures ::
  "'pk crypto_api \<Rightarrow> bytes \<Rightarrow> bytes list \<Rightarrow> nat \<Rightarrow> bytes set \<Rightarrow> nat \<Rightarrow> bytes list \<Rightarrow> nat" where
  "count_signatures C msg pks threshold used valid [] = valid"
| "count_signatures C msg pks threshold used valid (sig # sigs) =
     (if threshold \<le> valid then valid
      else case find_signer C msg used sig pks of
          None \<Rightarrow> count_signatures C msg pks threshold used valid sigs
        | Some pkb \<Rightarrow> count_signatures C msg pks threshold (insert pkb used) (valid + 1) sigs)"

definition verify_committee_signatures ::
  "'pk crypto_api \<Rightarrow> settlement_block \<Rightarrow> bytes list \<Rightarrow> nat \<Rightarrow> bool" where
  "verify_committee_signatures C s pks threshold =
     (if threshold = 0 \<or> length pks < threshold then False
      else if length pks < length (sb_committee_signatures s) then False
      else threshold \<le> count_signatures C (signing_message s) pks threshold {} 0 (sb_committee_signatures s))"

definition verify_full ::
  "'pk crypto_api \<Rightarrow> settlement_block \<Rightarrow> settlement_block option \<Rightarrow> ('pk, 'zk, 'dna) genesis_block option
     \<Rightarrow> bytes list \<Rightarrow> nat \<Rightarrow> bool option" where
  "verify_full C s prev_settlement genesis pks threshold =
     (if \<not> settlement_verify_internal C s then Some False
      else case prev_settlement of
          Some prev \<Rightarrow>
            (case verify_chain s prev of
               None \<Rightarrow> None
             | Some False \<Rightarrow> Some False
             | Some True \<Rightarrow> Some (verify_committee_signatures C s pks threshold))
        | None \<Rightarrow>
            (case genesis of
               None \<Rightarrow> Some False
             | Some gen \<Rightarrow>
                 if \<not> verify_genesis_link s gen then Some False
                 else Some (verify_committee_signatures C s pks threshold)))"

section \<open>Ledger entries\<close>

datatype ('pk, 'zk, 'dna) ledger_entry =
    Genesis_Entry "('pk, 'zk, 'dna) genesis_block"
  | Presence_Entry "('pk, 'zk, 'dna) presence_record"
  | Settlement_Entry settlement_block

fun ledger_hash :: "('pk, 'zk, 'dna) ledger_entry \<Rightarrow> hash" where
  "ledger_hash (Genesis_Entry g) = gb_block_hash g"
| "ledger_hash (Presence_Entry p) = pr_record_hash p"
| "ledger_hash (Settlement_Entry s) = sb_block_hash s"

fun is_settlement :: "('pk, 'zk, 'dna) ledger_entry \<Rightarrow> bool" where
  "is_settlement (Settlement_Entry _) = True"
| "is_settlement _ = False"

fun is_genesis :: "('pk, 'zk, 'dna) ledger_entry \<Rightarrow> bool" where
  "is_genesis (Genesis_Entry _) = True"
| "is_genesis _ = False"

fun is_presence :: "('pk, 'zk, 'dna) ledger_entry \<Rightarrow> bool" where
  "is_presence (Presence_Entry _) = True"
| "is_presence _ = False"

section \<open>What the hashes bind\<close>

definition settlement_wf :: "settlement_block \<Rightarrow> bool" where
  "settlement_wf s \<longleftrightarrow> length (sb_previous_settlement_hash s) = 32
     \<and> length (sb_epoch_root s) = 32 \<and> length (sb_epoch_commitment s) = 32"

definition commitment_core :: "settlement_block \<Rightarrow> _" where
  "commitment_core s = (sb_epoch_id s, sb_epoch_root s, sb_presence_record_count s,
     sb_transaction_count s, sb_participant_count s, sb_total_fees s, sb_total_rewards s, sb_total_supply s)"

definition settlement_core :: "settlement_block \<Rightarrow> _" where
  "settlement_core s = (sb_version s, sb_chain_id s, sb_epoch_id s, sb_height s,
     sb_previous_settlement_hash s, sb_timestamp s, sb_epoch_duration_secs s,
     sb_epoch_start_time s, sb_epoch_end_time s, sb_epoch_commitment s)"

lemma commitment_preimage_binds:
  "settlement_wf x \<Longrightarrow> settlement_wf y \<Longrightarrow> commitment_preimage x = commitment_preimage y
     \<Longrightarrow> commitment_core x = commitment_core y"
  by (simp add: settlement_wf_def commitment_preimage_def commitment_core_def)

lemma settlement_preimage_binds:
  "settlement_wf x \<Longrightarrow> settlement_wf y \<Longrightarrow> settlement_preimage x = settlement_preimage y
     \<Longrightarrow> settlement_core x = settlement_core y"
  by (simp add: settlement_wf_def settlement_preimage_def settlement_core_def)

interpretation commitment_binding: binding commitment_preimage settlement_wf commitment_core
  by unfold_locales (rule commitment_preimage_binds)

interpretation settlement_binding: binding settlement_preimage settlement_wf settlement_core
  by unfold_locales (rule settlement_preimage_binds)

lemma settlement_finalize_internal: "settlement_verify_internal C (settlement_finalize C s)"
  by (simp add: settlement_finalize_def Let_def settlement_verify_internal_def
      settlement_compute_hash_def settlement_preimage_def compute_epoch_root_def epoch_roots_def
      compute_commitment_def commitment_preimage_def)

lemma settlement_internal_finalize:
  assumes "settlement_verify_internal C s"
  shows "settlement_finalize C s = s"
proof -
  from assms have h: "settlement_compute_hash C s = sb_block_hash s"
    and r: "compute_epoch_root C s = sb_epoch_root s"
    and c: "compute_commitment C s = sb_epoch_commitment s"
    by (simp_all add: settlement_verify_internal_def)
  show ?thesis by (simp add: settlement_finalize_def Let_def r c h)
qed

section \<open>Counting distinct committee keys\<close>

definition signers :: "'pk crypto_api \<Rightarrow> bytes \<Rightarrow> bytes list \<Rightarrow> bytes list \<Rightarrow> bytes set" where
  "signers C msg pks sigs = {pkb \<in> set pks. \<exists>sig \<in> set sigs. key_verifies C msg sig pkb}"

definition one_key_per_signature :: "'pk crypto_api \<Rightarrow> bytes \<Rightarrow> bytes list \<Rightarrow> bytes list \<Rightarrow> bool" where
  "one_key_per_signature C msg pks sigs \<longleftrightarrow>
     (\<forall>sig \<in> set sigs. \<forall>a \<in> set pks. \<forall>b \<in> set pks.
        key_verifies C msg sig a \<longrightarrow> key_verifies C msg sig b \<longrightarrow> a = b)"

lemma finite_signers [simp]: "finite (signers C msg pks sigs - used)"
  by (simp add: signers_def)

lemma find_signer_Some:
  "find_signer C msg used sig pks = Some k \<Longrightarrow> k \<in> set pks \<and> k \<notin> used \<and> key_verifies C msg sig k"
  by (auto simp: find_signer_def find_Some_iff)

lemma find_signer_None:
  "find_signer C msg used sig pks = None \<Longrightarrow> k \<in> set pks \<Longrightarrow> key_verifies C msg sig k \<Longrightarrow> k \<in> used"
  by (auto simp: find_signer_def find_None_iff)

lemma count_signatures_le:
  "count_signatures C msg pks t used valid sigs \<le> valid + card (signers C msg pks sigs - used)"
proof (induction sigs arbitrary: used valid)
  case (Cons sig sigs)
  let ?A = "signers C msg pks (sig # sigs) - used"
  show ?case
  proof (cases "find_signer C msg used sig pks")
    case None
    have "card (signers C msg pks sigs - used) \<le> card ?A"
      by (rule card_mono) (auto simp: signers_def)
    with None Cons.IH [of used valid] show ?thesis by (simp add: le_trans)
  next
    case (Some k)
    let ?B = "signers C msg pks sigs - insert k used"
    from find_signer_Some [OF Some] have "insert k ?B \<subseteq> ?A" by (auto simp: signers_def)
    then have "card (insert k ?B) \<le> card ?A" by (rule card_mono [rotated]) simp
    then have "Suc (card ?B) \<le> card ?A" by simp
    with Some Cons.IH [of "insert k used" "valid + 1"] show ?thesis by simp
  qed
qed simp

lemma count_signatures_ge:
  assumes "one_key_per_signature C msg pks sigs"
    and "t \<le> valid + card (signers C msg pks sigs - used)"
  shows "t \<le> count_signatures C msg pks t used valid sigs"
  using assms
proof (induction sigs arbitrary: used valid)
  case Nil
  then show ?case by (simp add: signers_def)
next
  case (Cons sig sigs)
  have one: "one_key_per_signature C msg pks sigs"
    using Cons.prems(1) by (simp add: one_key_per_signature_def)
  show ?case
  proof (cases "find_signer C msg used sig pks")
    case None
    then have "signers C msg pks (sig # sigs) - used = signers C msg pks sigs - used"
      by (auto simp: signers_def dest: find_signer_None)
    with None Cons.IH [OF one, of valid used] Cons.prems(2) show ?thesis by simp
  next
    case (Some k)
    note k = find_signer_Some [OF Some]
    have "signers C msg pks (sig # sigs) - used \<subseteq> insert k (signers C msg pks sigs - insert k used)"
      using Cons.prems(1) k by (auto simp: signers_def one_key_per_signature_def)
    then have "card (signers C msg pks (sig # sigs) - used)
        \<le> card (insert k (signers C msg pks sigs - insert k used))"
      by (rule card_mono [rotated]) simp
    with Some Cons.IH [OF one, of "valid + 1" "insert k used"] Cons.prems(2) show ?thesis by simp
  qed
qed

section \<open>Chains of settlements\<close>

text \<open>A history as a node accepts it: the first settlement against the genesis block, each later
  one against the settlement before it.\<close>

fun verified_after ::
  "'pk crypto_api \<Rightarrow> bytes list \<Rightarrow> nat \<Rightarrow> ('pk, 'zk, 'dna) genesis_block option \<Rightarrow> settlement_block
     \<Rightarrow> settlement_block list \<Rightarrow> bool" where
  "verified_after C pks t g prev [] = True"
| "verified_after C pks t g prev (s # ss) \<longleftrightarrow>
     verify_full C s (Some prev) g pks t = Some True \<and> verified_after C pks t g s ss"

fun verified_history ::
  "'pk crypto_api \<Rightarrow> bytes list \<Rightarrow> nat \<Rightarrow> ('pk, 'zk, 'dna) genesis_block \<Rightarrow> settlement_block list \<Rightarrow> bool" where
  "verified_history C pks t g [] = True"
| "verified_history C pks t g (s # ss) \<longleftrightarrow>
     verify_full C s None (Some g) pks t = Some True \<and> verified_after C pks t (Some g) s ss"

lemma verify_chain_True:
  "verify_chain s prev = Some True \<longleftrightarrow>
     sb_previous_settlement_hash s = sb_block_hash prev
     \<and> unat (sb_epoch_id s) = unat (sb_epoch_id prev) + 1 \<and> unat (sb_height s) = unat (sb_height prev) + 1
     \<and> sb_chain_id s = sb_chain_id prev \<and> sb_version s = sb_version prev"
  using unat_lt_pow [of "sb_epoch_id s"] unat_lt_pow [of "sb_height s"]
  by (auto simp: verify_chain_def rust_arith word_unat_eq_iff split: option.splits)

lemma verify_full_True:
  "verify_full C s prev g pks t = Some True \<longleftrightarrow>
     settlement_verify_internal C s \<and> verify_committee_signatures C s pks t
     \<and> (case prev of Some p \<Rightarrow> verify_chain s p = Some True
        | None \<Rightarrow> (\<exists>gen. g = Some gen \<and> verify_genesis_link s gen))"
  by (auto simp: verify_full_def split: option.splits bool.splits)

lemma verified_after_nth:
  assumes "verified_after C pks t g prev ss" and "i < length ss"
  shows "unat (sb_epoch_id (ss ! i)) = unat (sb_epoch_id prev) + i + 1
    \<and> unat (sb_height (ss ! i)) = unat (sb_height prev) + i + 1
    \<and> sb_chain_id (ss ! i) = sb_chain_id prev \<and> sb_version (ss ! i) = sb_version prev
    \<and> sb_previous_settlement_hash (ss ! i) = sb_block_hash ((prev # ss) ! i)
    \<and> settlement_verify_internal C (ss ! i) \<and> verify_committee_signatures C (ss ! i) pks t"
  using assms
proof (induction ss arbitrary: prev i)
  case (Cons s ss)
  then have s: "verify_chain s prev = Some True" "settlement_verify_internal C s"
    "verify_committee_signatures C s pks t" "verified_after C pks t g s ss"
    by (simp_all add: verify_full_True)
  then show ?case
    using Cons.IH [OF s(4), of "i - 1"] Cons.prems(2) by (cases i) (simp_all add: verify_chain_True)
qed simp

section \<open>Properties\<close>

text \<open>A settlement that verifies against itself is exactly one that \<open>finalize\<close> leaves
  unchanged, and its block hash commits to its content: two verified settlements with the same block
  hash, neither their block nor their commitment preimages being a collision, agree in every header
  field and every counted quantity, and in the six data roots unless the Merkle fold of the roots
  exhibits a collision.\<close>

theorem settlement_hash_commits:
  assumes "settlement_wf x" and "settlement_wf y"
    and "settlement_verify_internal C x" and "settlement_verify_internal C y"
    and "sb_block_hash x = sb_block_hash y"
    and "no_collision C (settlement_preimage x) (settlement_preimage y)"
    and "no_collision C (commitment_preimage x) (commitment_preimage y)"
  shows "settlement_core x = settlement_core y \<and> commitment_core x = commitment_core y
    \<and> (epoch_roots x = epoch_roots y
       \<or> node_collision (merkle_node C ''AEVUM_MERKLE_V1'')
           (fold_pairs (merkle_node C ''AEVUM_MERKLE_V1'') (epoch_roots x))
           (fold_pairs (merkle_node C ''AEVUM_MERKLE_V1'') (epoch_roots y)))
    \<and> settlement_finalize C x = x"
proof -
  have core: "settlement_core x = settlement_core y"
    using assms(3-5) by (intro settlement_binding.hash_binds [OF assms(1,2,6)])
      (simp add: settlement_verify_internal_def settlement_compute_hash_def)
  then have "sb_epoch_commitment x = sb_epoch_commitment y" by (simp add: settlement_core_def)
  then have com: "commitment_core x = commitment_core y"
    using assms(3,4) by (intro commitment_binding.hash_binds [OF assms(1,2,7)])
      (simp add: settlement_verify_internal_def compute_commitment_def)
  then have "sb_epoch_root x = sb_epoch_root y" by (simp add: commitment_core_def)
  with assms(3,4) have "merkle_top (merkle_node C ''AEVUM_MERKLE_V1'') (epoch_roots x)
      = merkle_top (merkle_node C ''AEVUM_MERKLE_V1'') (epoch_roots y)"
    by (simp add: settlement_verify_internal_def compute_epoch_root_def settlement_merkle_root_def epoch_roots_def)
  from merkle_top_binds [OF _ this] core com settlement_internal_finalize [OF assms(3)]
  show ?thesis by (simp add: epoch_roots_def)
qed

definition sample_settlement :: "hash \<Rightarrow> u64 \<Rightarrow> bytes list \<Rightarrow> settlement_block" where
  "sample_settlement prev e sigs =
     \<lparr>sb_total_fees = 0, sb_total_rewards = 0, sb_version = 1, sb_chain_id = 2, sb_epoch_id = e,
      sb_height = e + 1, sb_previous_settlement_hash = prev, sb_timestamp = 0,
      sb_epoch_duration_secs = 0, sb_epoch_start_time = 0, sb_epoch_end_time = 0,
      sb_presence_root = zero_hash, sb_transaction_root = zero_hash, sb_state_root = zero_hash,
      sb_reward_root = zero_hash, sb_participant_root = zero_hash, sb_epoch_snapshot_root = zero_hash,
      sb_presence_record_count = 0, sb_transaction_count = 0, sb_participant_count = 0,
      sb_epoch_root = zero_hash, sb_epoch_commitment = zero_hash, sb_total_supply = 0,
      sb_block_hash = zero_hash, sb_committee_signatures = sigs\<rparr>"

text \<open>A crypto instance whose hashes all have 32 bytes.\<close>

definition zero_crypto :: "u8 crypto_api" where
  "zero_crypto = sample_crypto\<lparr>blake3 := (\<lambda>_. zero_hash), pk_verify := (\<lambda>k msg sig. sig = [k])\<rparr>"

lemma zero_crypto_settlement:
  assumes "length prev = 32"
  shows "settlement_wf (settlement_finalize zero_crypto (sample_settlement prev e sigs))"
proof -
  have "merkle_node zero_crypto tag a b = zero_hash" for tag a b
    by (simp add: merkle_node_def zero_crypto_def sample_crypto_def)
  then have "settlement_merkle_root zero_crypto (replicate 6 zero_hash) = zero_hash"
    by (simp add: settlement_merkle_root_def numeral_eq_Suc merkle_top_step)
  then have "compute_epoch_root zero_crypto (sample_settlement prev e sigs) = zero_hash"
    by (simp add: compute_epoch_root_def epoch_roots_def sample_settlement_def numeral_eq_Suc)
  then show ?thesis
    using assms
    by (simp add: settlement_wf_def settlement_finalize_def Let_def compute_commitment_def
        sample_settlement_def zero_crypto_def sample_crypto_def)
qed

theorem settlement_hash_commits_witness:
  "settlement_core (settlement_finalize zero_crypto (sample_settlement zero_hash 0 []))
   = settlement_core (settlement_finalize zero_crypto (sample_settlement zero_hash 0 []))
   \<and> settlement_finalize zero_crypto (settlement_finalize zero_crypto (sample_settlement zero_hash 0 []))
     = settlement_finalize zero_crypto (sample_settlement zero_hash 0 [])"
proof -
  let ?s = "settlement_finalize zero_crypto (sample_settlement zero_hash 0 [])"
  have wf: "settlement_wf ?s" by (rule zero_crypto_settlement) simp
  have nc: "no_collision zero_crypto p p" for p by (simp add: no_collision_def)
  from settlement_hash_commits [OF wf wf settlement_finalize_internal settlement_finalize_internal refl nc nc]
  show ?thesis by blast
qed

text \<open>C4. The committee check counts distinct committee keys. An accepted settlement carries
  valid signatures, on its commitment and block hash, of at least \<open>threshold\<close> different keys of the
  committee, and the threshold is not zero. Conversely, when no signature is valid under two
  committee keys and there are no more signatures than keys, the signatures of \<open>threshold\<close> different
  keys are accepted, whatever other signatures are mixed in and in whatever order.\<close>

theorem committee_quorum:
  "(verify_committee_signatures C s pks t \<longrightarrow>
      0 < t \<and> t \<le> card (signers C (signing_message s) pks (sb_committee_signatures s)))
   \<and> (one_key_per_signature C (signing_message s) pks (sb_committee_signatures s)
       \<and> length (sb_committee_signatures s) \<le> length pks \<and> 0 < t
       \<and> t \<le> card (signers C (signing_message s) pks (sb_committee_signatures s))
      \<longrightarrow> verify_committee_signatures C s pks t)"
proof
  let ?S = "signers C (signing_message s) pks (sb_committee_signatures s)"
  show "verify_committee_signatures C s pks t \<longrightarrow> 0 < t \<and> t \<le> card ?S"
    using count_signatures_le [of C "signing_message s" pks t "{}" 0 "sb_committee_signatures s"]
    by (auto simp: verify_committee_signatures_def split: if_splits)
  have "card ?S \<le> card (set pks)" by (rule card_mono) (auto simp: signers_def)
  then have "card ?S \<le> length pks" using card_length [of pks] by linarith
  then show "one_key_per_signature C (signing_message s) pks (sb_committee_signatures s)
       \<and> length (sb_committee_signatures s) \<le> length pks \<and> 0 < t \<and> t \<le> card ?S
      \<longrightarrow> verify_committee_signatures C s pks t"
    using count_signatures_ge [of C "signing_message s" pks "sb_committee_signatures s" t 0 "{}"]
    by (auto simp: verify_committee_signatures_def)
qed

theorem committee_quorum_witness:
  "verify_committee_signatures zero_crypto (sample_settlement zero_hash 0 [[7], [1], [7]]) [[1], [7], [9]] 2"
proof -
  let ?s = "sample_settlement zero_hash 0 [[7], [1], [7]]" and ?p = "[[1], [7], [9 :: u8]]"
  have kv: "key_verifies zero_crypto m sig [k] \<longleftrightarrow> sig = [k]" for m sig k
    by (simp add: key_verifies_def zero_crypto_def sample_crypto_def)
  have "signers zero_crypto (signing_message ?s) ?p (sb_committee_signatures ?s) = {[1], [7]}"
    by (auto simp: signers_def kv sample_settlement_def)
  moreover have "one_key_per_signature zero_crypto (signing_message ?s) ?p (sb_committee_signatures ?s)"
    by (simp add: one_key_per_signature_def kv sample_settlement_def)
  ultimately show ?thesis
    using committee_quorum [of zero_crypto ?s ?p 2] by (simp add: sample_settlement_def)
qed

text \<open>C25. In a history that \<open>verify_full\<close> accepts settlement by settlement, from the genesis block
  on, settlement number \<open>i\<close> has epoch \<open>i\<close> and height \<open>i + 1\<close> (so the history ends before the
  64-bit counters do), carries the chain id of the genesis block, links to the settlement before
  it (the first to the genesis block), verifies internally, and is signed by at least the
  threshold of different committee keys.\<close>

theorem settlement_history:
  assumes "verified_history C pks t g ss" and "i < length ss"
  shows "unat (sb_epoch_id (ss ! i)) = i \<and> unat (sb_height (ss ! i)) = i + 1
    \<and> sb_chain_id (ss ! i) = gb_chain_id g \<and> sb_version (ss ! i) = sb_version (ss ! 0)
    \<and> sb_previous_settlement_hash (ss ! i) = (if i = 0 then gb_block_hash g else sb_block_hash (ss ! (i - 1)))
    \<and> settlement_verify_internal C (ss ! i)
    \<and> t \<le> card (signers C (signing_message (ss ! i)) pks (sb_committee_signatures (ss ! i)))"
proof -
  from assms obtain s rest where ss: "ss = s # rest" by (cases ss) auto
  with assms(1) have first: "settlement_verify_internal C s" "verify_committee_signatures C s pks t"
    "sb_epoch_id s = 0" "sb_height s = 1" "sb_previous_settlement_hash s = gb_block_hash g"
    "sb_chain_id s = gb_chain_id g" and "verified_after C pks t (Some g) s rest"
    by (auto simp: verify_full_True verify_genesis_link_def)
  note after = verified_after_nth [OF this(7)]
  have quorum: "verify_committee_signatures C q pks t
      \<Longrightarrow> t \<le> card (signers C (signing_message q) pks (sb_committee_signatures q))" for q
    using count_signatures_le [of C "signing_message q" pks t "{}" 0 "sb_committee_signatures q"]
    by (auto simp: verify_committee_signatures_def split: if_splits)
  show ?thesis
  proof (cases i)
    case 0
    with first ss quorum show ?thesis by simp
  next
    case (Suc j)
    with after [of j] assms(2) ss first quorum show ?thesis by simp
  qed
qed

theorem settlement_history_witness:
  "verified_history zero_crypto [[7]] 1 (sample_genesis_block :: (u8, unit, unit) genesis_block)
     [settlement_finalize zero_crypto (sample_settlement zero_hash 0 [[7]])]
   \<and> unat (sb_height (settlement_finalize zero_crypto (sample_settlement zero_hash 0 [[7]]))) = 1"
proof -
  let ?s = "settlement_finalize zero_crypto (sample_settlement zero_hash 0 [[7]])"
  have "verify_genesis_link ?s sample_genesis_block"
    by (simp add: verify_genesis_link_def settlement_finalize_def Let_def sample_settlement_def sample_genesis_block_def)
  moreover have "verify_committee_signatures zero_crypto ?s [[7]] 1"
    by (simp add: verify_committee_signatures_def settlement_finalize_def Let_def sample_settlement_def
        find_signer_def key_verifies_def zero_crypto_def sample_crypto_def)
  ultimately have h: "verified_history zero_crypto [[7]] 1 sample_genesis_block [?s]"
    by (simp add: verify_full_True settlement_finalize_internal)
  with settlement_history [OF h, of 0] show ?thesis by simp
qed

end
