(* ===== verification/Escrow.thy ===== *)
theory Escrow
  imports Prelude "HOL-Library.Monad_Syntax"
begin

text \<open>
  \<open>crates/aevum-core/src/escrow.rs\<close>: the escrow contract of a computation task: miners' shares,
  the winner, the distribution of the reward and the refund. The source multiplies and adds with
  plain 64-bit operations, so every operation that computes returns \<^term>\<open>None\<close> where the code
  panics on overflow.

  The lemmas read the payouts as the amount each key receives; the properties give that amount
  exactly, show that nothing is created or lost, and bound the inputs for which no operation
  overflows.
\<close>

section \<open>The contract\<close>

datatype escrow_status = Funded | InProgress | Completed | Refunded

record 'pk escrow_contract =
  ec_contract_id :: hash
  ec_customer :: 'pk
  ec_total_reward :: u64
  ec_task_id :: hash
  ec_status :: escrow_status
  ec_created_height :: u64
  ec_deadline_height :: u64
  ec_winner_bonus_percent :: u64
  ec_pool_fee_percent :: u64
  ec_miner_shares :: "('pk \<times> u64) list"
  ec_winner :: "'pk option"

definition escrow_new ::
  "'pk crypto_api \<Rightarrow> 'pk \<Rightarrow> u64 \<Rightarrow> hash \<Rightarrow> u64 \<Rightarrow> u64 \<Rightarrow> 'pk escrow_contract option" where
  "escrow_new C customer total_reward task_id created_height deadline_blocks = do {
     deadline \<leftarrow> chk_add created_height deadline_blocks;
     Some \<lparr>ec_contract_id = blake3 C (pk_bytes C customer @ le64 total_reward @ task_id),
           ec_customer = customer, ec_total_reward = total_reward, ec_task_id = task_id,
           ec_status = Funded, ec_created_height = created_height, ec_deadline_height = deadline,
           ec_winner_bonus_percent = 200, ec_pool_fee_percent = 100,
           ec_miner_shares = [], ec_winner = None\<rparr> }"

text \<open>The first entry of the key is increased; without one, an entry is appended. The share list
  and the payouts are both updated this way.\<close>

fun credit :: "'pk \<Rightarrow> u64 \<Rightarrow> ('pk \<times> u64) list \<Rightarrow> ('pk \<times> u64) list option" where
  "credit k a [] = Some [(k, a)]"
| "credit k a ((k', b) # r) =
     (if k' = k then do { c \<leftarrow> chk_add b a; Some ((k', c) # r) }
      else do { r' \<leftarrow> credit k a r; Some ((k', b) # r') })"

definition add_share :: "'pk \<Rightarrow> u64 \<Rightarrow> 'pk escrow_contract \<Rightarrow> 'pk escrow_contract option" where
  "add_share miner shares c = do {
     ms \<leftarrow> credit miner shares (ec_miner_shares c);
     Some (c\<lparr>ec_miner_shares := ms\<rparr>) }"

definition set_winner :: "'pk \<Rightarrow> 'pk escrow_contract \<Rightarrow> 'pk escrow_contract" where
  "set_winner winner c = c\<lparr>ec_winner := Some winner, ec_status := Completed\<rparr>"

fun base_payouts :: "u64 \<Rightarrow> u64 \<Rightarrow> ('pk \<times> u64) list \<Rightarrow> ('pk \<times> u64) list option" where
  "base_payouts base total_shares [] = Some []"
| "base_payouts base total_shares ((miner, shares) # r) = do {
     p \<leftarrow> chk_mul base shares;
     ps \<leftarrow> base_payouts base total_shares r;
     Some (let amount = p div total_shares in if 0 < amount then (miner, amount) # ps else ps) }"

definition add_bonus :: "'pk option \<Rightarrow> u64 \<Rightarrow> ('pk \<times> u64) list \<Rightarrow> ('pk \<times> u64) list option" where
  "add_bonus winner bonus ps =
     (case winner of None \<Rightarrow> Some ps
      | Some w \<Rightarrow> if 0 < bonus then credit w bonus ps else Some ps)"

definition distribute_reward :: "'pk escrow_contract \<Rightarrow> ('pk \<times> u64) list option" where
  "distribute_reward c =
     (if ec_miner_shares c = [] then Some []
      else do {
        fee_product \<leftarrow> chk_mul (ec_total_reward c) (ec_pool_fee_percent c);
        remaining \<leftarrow> chk_sub (ec_total_reward c) (fee_product div 10000);
        winner_bonus \<leftarrow>
          (if ec_winner c \<noteq> None then do {
             b \<leftarrow> chk_mul remaining (ec_winner_bonus_percent c); Some (b div 10000) }
           else Some 0);
        base \<leftarrow> chk_sub remaining winner_bonus;
        total_shares \<leftarrow> chk_sum (map snd (ec_miner_shares c));
        (if total_shares = 0 then Some []
         else do {
           paid \<leftarrow> base_payouts base total_shares (ec_miner_shares c);
           payouts \<leftarrow> add_bonus (ec_winner c) winner_bonus paid;
           total_paid \<leftarrow> chk_sum (map snd payouts);
           refund \<leftarrow> chk_sub remaining total_paid;
           Some (if 0 < refund then payouts @ [(ec_customer c, refund)] else payouts) }) })"

definition escrow_refund :: "'pk escrow_contract \<Rightarrow> ('pk escrow_contract \<times> ('pk \<times> u64) list) option" where
  "escrow_refund c = do {
     p \<leftarrow> chk_mul (ec_total_reward c) (ec_pool_fee_percent c);
     amount \<leftarrow> chk_sub (ec_total_reward c) (p div 10000);
     Some (c\<lparr>ec_status := Refunded\<rparr>, [(ec_customer c, amount)]) }"

section \<open>What each key receives\<close>

definition paid_to :: "'pk \<Rightarrow> ('pk \<times> u64) list \<Rightarrow> nat" where
  "paid_to k ps = sum_list (map (\<lambda>(k', a). if k' = k then unat a else 0) ps)"

definition paid_total :: "('pk \<times> u64) list \<Rightarrow> nat" where
  "paid_total ps = sum_list (map (unat \<circ> snd) ps)"

lemma paid_simps [simp]:
  "paid_to k [] = 0" "paid_to k ((k', a) # ps) = (if k' = k then unat a else 0) + paid_to k ps"
  "paid_to k (ps @ qs) = paid_to k ps + paid_to k qs"
  "paid_total [] = 0" "paid_total ((k', a) # ps) = unat a + paid_total ps"
  "paid_total (ps @ qs) = paid_total ps + paid_total qs"
  by (simp_all add: paid_to_def paid_total_def)

lemma credit_paid:
  "credit k a ps = Some qs \<Longrightarrow>
     paid_to j qs = paid_to j ps + (if j = k then unat a else 0) \<and> paid_total qs = paid_total ps + unat a"
  by (induction k a ps arbitrary: qs rule: credit.induct)
    (auto simp: rust_arith split: if_splits Option.bind_splits)

lemma credit_keys: "credit k a ps = Some qs \<Longrightarrow> fst ` set qs = insert k (fst ` set ps)"
proof (induction k a ps arbitrary: qs rule: credit.induct)
  case (2 k a k' b r)
  show ?case
  proof (cases "k' = k")
    case True
    with 2(2) show ?thesis by (auto split: Option.bind_splits)
  next
    case False
    with 2(2) obtain r' where r': "credit k a r = Some r'" "qs = (k', b) # r'"
      by (auto split: Option.bind_splits)
    with 2(1) [OF False] show ?thesis by (simp add: insert_commute)
  qed
qed simp

lemma credit_distinct:
  "credit k a ps = Some qs \<Longrightarrow> distinct (map fst ps) \<Longrightarrow> distinct (map fst qs)"
  by (induction k a ps arbitrary: qs rule: credit.induct)
    (auto simp: credit_keys split: if_splits Option.bind_splits)

lemma credit_defined:
  "paid_total ps + unat a < 2 ^ 64 \<Longrightarrow> \<exists>qs. credit k a ps = Some qs"
  by (induction k a ps rule: credit.induct) (auto simp: chk_add_def)

lemma base_payouts_Some_iff:
  "(\<exists>ps. base_payouts b t ms = Some ps) \<longleftrightarrow> (\<forall>(k, s) \<in> set ms. unat b * unat s < 2 ^ 64)"
  by (induction b t ms rule: base_payouts.induct) (auto simp: chk_mul_def split: Option.bind_splits)

lemma base_payouts_paid:
  "base_payouts b t ms = Some ps \<Longrightarrow>
     paid_to j ps = sum_list (map (\<lambda>(k, s). if k = j then unat b * unat s div unat t else 0) ms)
     \<and> paid_total ps = sum_list (map (\<lambda>(k, s). unat b * unat s div unat t) ms)"
proof (induction b t ms arbitrary: ps rule: base_payouts.induct)
  case (2 base t miner shares r)
  from 2(2) obtain p rest where p: "unat p = unat base * unat shares"
    and rest: "base_payouts base t r = Some rest"
    and ps: "ps = (if 0 < p div t then (miner, p div t) # rest else rest)"
    by (auto simp: rust_arith Let_def split: Option.bind_splits)
  have "0 < p div t \<longleftrightarrow> 0 < unat base * unat shares div unat t"
    by (simp add: word_less_nat_alt rust_arith p)
  with 2(1) [OF _ rest] p ps show ?case by (auto simp: rust_arith chk_mul_Some_iff)
qed simp

text \<open>Rounding down never pays out more than the base.\<close>

lemma floor_shares_le:
  fixes b t :: nat
  assumes "0 < t" and "sum_list (map g ms) = t"
  shows "sum_list (map (\<lambda>m. b * g m div t) ms) \<le> b"
proof -
  have "sum_list (map (\<lambda>m. b * g m div t) ms) * t \<le> b * sum_list (map g ms)"
  proof (induction ms)
    case (Cons m ms)
    have "b * g m div t * t \<le> b * g m" by (simp add: div_times_less_eq_dividend)
    with Cons show ?case by (simp add: algebra_simps add_mono)
  qed simp
  with assms show ?thesis by simp
qed

section \<open>Properties\<close>

text \<open>The parts of the reward, as numbers.\<close>

definition escrow_pool_fee :: "'pk escrow_contract \<Rightarrow> nat" where
  "escrow_pool_fee c = unat (ec_total_reward c) * unat (ec_pool_fee_percent c) div 10000"

definition escrow_bonus :: "'pk escrow_contract \<Rightarrow> nat" where
  "escrow_bonus c = (if ec_winner c = None then 0
     else (unat (ec_total_reward c) - escrow_pool_fee c) * unat (ec_winner_bonus_percent c) div 10000)"

definition escrow_base :: "'pk escrow_contract \<Rightarrow> nat" where
  "escrow_base c = unat (ec_total_reward c) - escrow_pool_fee c - escrow_bonus c"

definition escrow_shares :: "'pk escrow_contract \<Rightarrow> nat" where
  "escrow_shares c = paid_total (ec_miner_shares c)"

text \<open>No intermediate result leaves its 64 bits: the two products with a rate, the two subtractions, the sum of
  the shares, and the product of the base with each number of shares.\<close>

definition escrow_fits :: "'pk escrow_contract \<Rightarrow> bool" where
  "escrow_fits c \<longleftrightarrow>
     unat (ec_total_reward c) * unat (ec_pool_fee_percent c) < 2 ^ 64
     \<and> escrow_pool_fee c \<le> unat (ec_total_reward c)
     \<and> (ec_winner c = None
        \<or> (unat (ec_total_reward c) - escrow_pool_fee c) * unat (ec_winner_bonus_percent c) < 2 ^ 64)
     \<and> escrow_bonus c \<le> unat (ec_total_reward c) - escrow_pool_fee c
     \<and> escrow_shares c < 2 ^ 64
     \<and> (\<forall>(k, s) \<in> set (ec_miner_shares c). escrow_base c * unat s < 2 ^ 64)"

definition base_paid :: "'pk escrow_contract \<Rightarrow> 'pk \<Rightarrow> nat" where
  "base_paid c j =
     sum_list (map (\<lambda>(k, s). if k = j then escrow_base c * unat s div escrow_shares c else 0) (ec_miner_shares c))"

definition base_paid_total :: "'pk escrow_contract \<Rightarrow> nat" where
  "base_paid_total c = sum_list (map (\<lambda>(k, s). escrow_base c * unat s div escrow_shares c) (ec_miner_shares c))"

lemma chk_mul_fits: "unat a * unat b < 2 ^ 64 \<Longrightarrow> \<exists>c :: u64. chk_mul a b = Some c \<and> unat c = unat a * unat b"
  by (cases "chk_mul a b") (auto simp: chk_mul_None_iff chk_mul_Some_iff)

lemma chk_mul_lt: "chk_mul a b = Some (c :: u64) \<Longrightarrow> unat a * unat b < 2 ^ 64"
  using unat_lt_pow [of c] by (simp add: chk_mul_Some_iff)

lemma chk_sub_fits: "unat b \<le> unat a \<Longrightarrow> \<exists>c :: u64. chk_sub a b = Some c \<and> unat c = unat a - unat b"
  by (cases "chk_sub a b") (auto simp: chk_sub_None_iff chk_sub_Some_iff)

lemma chk_sum_fits:
  "paid_total ps < 2 ^ 64 \<Longrightarrow> \<exists>t :: u64. chk_sum (map snd ps) = Some t \<and> unat t = paid_total ps"
  by (cases "chk_sum (map snd ps)")
    (auto simp: paid_total_def chk_sum_None_iff chk_sum_Some_iff)

lemma base_paid_total_le: "0 < escrow_shares c \<Longrightarrow> base_paid_total c \<le> escrow_base c"
  using floor_shares_le [of "escrow_shares c" "unat \<circ> snd" "ec_miner_shares c" "escrow_base c"]
  by (simp add: base_paid_total_def escrow_shares_def paid_total_def case_prod_beta' comp_def)

lemma add_bonus_fits:
  assumes "paid_total ps + unat b < 2 ^ 64" and "w = None \<Longrightarrow> b = 0"
  shows "\<exists>qs. add_bonus w b ps = Some qs \<and> paid_total qs = paid_total ps + unat b
    \<and> (\<forall>j. paid_to j qs = paid_to j ps + (if w = Some j then unat b else 0))"
proof (cases w)
  case None
  with assms show ?thesis by (simp add: add_bonus_def)
next
  case (Some k)
  show ?thesis
  proof (cases "b = 0")
    case True
    with Some show ?thesis by (simp add: add_bonus_def)
  next
    case False
    obtain qs where "credit k b ps = Some qs" using credit_defined [OF assms(1)] by blast
    with False Some show ?thesis
      using credit_paid [of k b ps qs] by (auto simp: add_bonus_def word_gt_0)
  qed
qed

text \<open>The stages of \<open>distribute_reward\<close> under \<open>escrow_fits\<close>: the fee of the pool, the bonus, the base.\<close>

lemma pool_fee_stage:
  assumes fits: "escrow_fits c"
  obtains fp rm where "chk_mul (ec_total_reward c) (ec_pool_fee_percent c) = Some fp"
    and "chk_sub (ec_total_reward c) (fp div 10000) = Some rm"
    and "unat rm = unat (ec_total_reward c) - escrow_pool_fee c"
proof -
  let ?R = "unat (ec_total_reward c)"
  have fee_le: "escrow_pool_fee c \<le> ?R" using fits by (simp add: escrow_fits_def)
  have "?R * unat (ec_pool_fee_percent c) < 2 ^ 64" using fits by (simp add: escrow_fits_def)
  from chk_mul_fits [OF this]
  obtain fp where fp: "chk_mul (ec_total_reward c) (ec_pool_fee_percent c) = Some fp"
      "unat fp = ?R * unat (ec_pool_fee_percent c)"
    by blast
  then have fee: "unat (fp div 10000) = escrow_pool_fee c" by (simp add: rust_arith escrow_pool_fee_def)
  show thesis
    using chk_sub_fits [of "fp div 10000" "ec_total_reward c"] fee fee_le that [OF fp(1)] by auto
qed

lemma bonus_stage:
  assumes fits: "escrow_fits c" and rm: "unat rm = unat (ec_total_reward c) - escrow_pool_fee c"
  obtains wb bs where "(if ec_winner c \<noteq> None
      then chk_mul rm (ec_winner_bonus_percent c) \<bind> (\<lambda>b. Some (b div 10000)) else Some 0) = Some wb"
    and "unat wb = escrow_bonus c" and "ec_winner c = None \<longrightarrow> wb = 0"
    and "chk_sub rm wb = Some bs" and "unat bs = escrow_base c"
proof -
  have bonus_le: "escrow_bonus c \<le> unat rm" using fits rm by (simp add: escrow_fits_def)
  obtain wb where wb: "(if ec_winner c \<noteq> None
      then chk_mul rm (ec_winner_bonus_percent c) \<bind> (\<lambda>b. Some (b div 10000)) else Some 0) = Some wb"
    "unat wb = escrow_bonus c" "ec_winner c = None \<longrightarrow> wb = 0"
  proof (cases "ec_winner c")
    case None
    then show thesis by (intro that [of 0]) (simp_all add: escrow_bonus_def)
  next
    case (Some w)
    then have "unat rm * unat (ec_winner_bonus_percent c) < 2 ^ 64" using fits rm by (simp add: escrow_fits_def)
    from chk_mul_fits [OF this] obtain bp where "chk_mul rm (ec_winner_bonus_percent c) = Some bp"
        "unat bp = unat rm * unat (ec_winner_bonus_percent c)" by blast
    moreover from this(2) Some have "unat (bp div 10000) = escrow_bonus c"
      by (simp add: escrow_bonus_def unat_div rm)
    ultimately show thesis using Some by (intro that [of "bp div 10000"]) simp_all
  qed
  obtain bs where "chk_sub rm wb = Some bs" "unat bs = escrow_base c"
    using chk_sub_fits [of wb rm] wb(2) rm bonus_le by (auto simp: escrow_base_def)
  with wb show thesis by (rule that)
qed

text \<open>A call that returns has passed each of these operations.\<close>

lemma distribute_reward_fits:
  assumes "distribute_reward c = Some ps" and pos: "0 < escrow_shares c"
  shows "escrow_fits c"
proof -
  have ne: "ec_miner_shares c \<noteq> []" using pos by (auto simp: escrow_shares_def)
  with assms(1) obtain fp rm wb bs ts where fp: "chk_mul (ec_total_reward c) (ec_pool_fee_percent c) = Some fp"
    and rm: "chk_sub (ec_total_reward c) (fp div 10000) = Some rm"
    and wb: "(if ec_winner c \<noteq> None
        then chk_mul rm (ec_winner_bonus_percent c) \<bind> (\<lambda>b. Some (b div 10000)) else Some 0) = Some wb"
    and bs: "chk_sub rm wb = Some bs" and ts: "chk_sum (map snd (ec_miner_shares c)) = Some ts"
    and last: "(if ts = 0 then Some []
        else base_payouts bs ts (ec_miner_shares c) \<bind> (\<lambda>paid. add_bonus (ec_winner c) wb paid \<bind>
          (\<lambda>payouts. chk_sum (map snd payouts) \<bind> (\<lambda>total_paid. chk_sub rm total_paid \<bind>
            (\<lambda>refund. Some (if 0 < refund then payouts @ [(ec_customer c, refund)] else payouts)))))) = Some ps"
    unfolding distribute_reward_def by (simp only: if_False bind_eq_Some_conv) blast
  from last have rest: "ts = 0 \<or> (\<exists>paid. base_payouts bs ts (ec_miner_shares c) = Some paid)"
    by (auto simp: bind_eq_Some_conv split: if_splits)
  have fee: "unat (fp div 10000) = escrow_pool_fee c" and fp': "unat (ec_total_reward c) * unat (ec_pool_fee_percent c) < 2 ^ 64"
    using fp unat_lt_pow [of fp] by (simp_all add: rust_arith escrow_pool_fee_def)
  have rm': "unat rm = unat (ec_total_reward c) - escrow_pool_fee c" "escrow_pool_fee c \<le> unat (ec_total_reward c)"
    using rm fee by (simp_all add: chk_sub_Some_iff)
  have wb': "unat wb = escrow_bonus c" "ec_winner c = None \<or> unat rm * unat (ec_winner_bonus_percent c) < 2 ^ 64"
    using wb rm'(1) chk_mul_lt [of rm "ec_winner_bonus_percent c"]
    by (auto simp: escrow_bonus_def chk_mul_Some_iff rust_arith split: if_splits Option.bind_splits)
  have bs': "unat bs = escrow_base c" "escrow_bonus c \<le> unat rm"
    using bs wb'(1) rm' by (simp_all add: chk_sub_Some_iff escrow_base_def)
  have ts': "unat ts = escrow_shares c"
    using ts by (simp add: chk_sum_Some_iff escrow_shares_def paid_total_def)
  with pos rest have "\<exists>paid. base_payouts bs ts (ec_miner_shares c) = Some paid" by auto
  then have "\<forall>(k, s) \<in> set (ec_miner_shares c). escrow_base c * unat s < 2 ^ 64"
    unfolding base_payouts_Some_iff bs' .
  with fp' rm' wb' bs' ts' unat_lt_pow [of ts] show ?thesis by (simp add: escrow_fits_def)
qed

lemma distribute_reward_parts:
  assumes fits: "escrow_fits c" and pos: "0 < escrow_shares c"
  obtains ps where "distribute_reward c = Some ps"
    and "paid_total ps = unat (ec_total_reward c) - escrow_pool_fee c"
    and "\<And>j. paid_to j ps = base_paid c j + (if ec_winner c = Some j then escrow_bonus c else 0)
       + (if j = ec_customer c then escrow_base c - base_paid_total c else 0)"
proof -
  let ?R = "unat (ec_total_reward c)"
  obtain fp rm where fp: "chk_mul (ec_total_reward c) (ec_pool_fee_percent c) = Some fp"
    and rm: "chk_sub (ec_total_reward c) (fp div 10000) = Some rm" "unat rm = ?R - escrow_pool_fee c"
    by (rule pool_fee_stage [OF fits])
  obtain wb bs where bind_wb: "(if ec_winner c \<noteq> None
      then chk_mul rm (ec_winner_bonus_percent c) \<bind> (\<lambda>b. Some (b div 10000)) else Some 0) = Some wb"
    and wb: "unat wb = escrow_bonus c" "ec_winner c = None \<longrightarrow> wb = 0"
    and bs: "chk_sub rm wb = Some bs" "unat bs = escrow_base c"
    by (rule bonus_stage [OF fits rm(2)])
  have bonus_le: "escrow_bonus c \<le> ?R - escrow_pool_fee c"
    using fits by (simp add: escrow_fits_def)
  obtain ts where ts: "chk_sum (map snd (ec_miner_shares c)) = Some ts" "unat ts = escrow_shares c"
    using chk_sum_fits fits by (auto simp: escrow_fits_def escrow_shares_def)
  have "\<exists>ps. base_payouts bs ts (ec_miner_shares c) = Some ps"
    using fits by (simp add: base_payouts_Some_iff bs(2) escrow_fits_def)
  then obtain paid where paid: "base_payouts bs ts (ec_miner_shares c) = Some paid" by blast
  have pp: "paid_to j paid = base_paid c j" "paid_total paid = base_paid_total c" for j
    using base_payouts_paid [OF paid, unfolded bs(2) ts(2)]
    by (simp_all add: base_paid_def base_paid_total_def)
  note le = base_paid_total_le [OF pos]
  have all_le: "base_paid_total c + escrow_bonus c \<le> ?R"
    using le bonus_le by (simp add: escrow_base_def)
  then obtain qs where qs: "add_bonus (ec_winner c) wb paid = Some qs"
      "paid_total qs = base_paid_total c + escrow_bonus c"
      "\<And>j. paid_to j qs = base_paid c j + (if ec_winner c = Some j then escrow_bonus c else 0)"
    using add_bonus_fits [of paid wb "ec_winner c"] pp wb unat_lt_pow [of "ec_total_reward c"] by force
  obtain tp where tp: "chk_sum (map snd qs) = Some tp" "unat tp = paid_total qs"
    using chk_sum_fits [of qs] qs(2) all_le unat_lt_pow [of "ec_total_reward c"] by auto
  have "unat tp \<le> unat rm" using tp(2) qs(2) rm(2) le bonus_le by (simp add: escrow_base_def)
  from chk_sub_fits [OF this] obtain rf where rf: "chk_sub rm tp = Some rf" "unat rf = escrow_base c - base_paid_total c"
    using tp(2) qs(2) rm(2) le bonus_le by (auto simp: escrow_base_def add.commute add.left_commute)
  let ?ps = "if 0 < rf then qs @ [(ec_customer c, rf)] else qs"
  have nz: "ts \<noteq> 0" and ne: "ec_miner_shares c \<noteq> []" using pos ts(2) by (auto simp: escrow_shares_def)
  have d: "distribute_reward c = Some ?ps"
    unfolding distribute_reward_def
    by (simp only: ne if_False fp rm(1) bind_wb bs(1) ts(1) nz paid qs(1) tp(1) rf(1) bind.bind_lunit)
  show thesis
    by (rule that [OF d])
      (use qs rf(2) le rm(2) bonus_le in \<open>auto simp: word_less_nat_alt escrow_base_def\<close>)
qed

text \<open>C13. When there are shares, \<open>distribute_reward\<close> returns exactly when no intermediate result leaves its
  64 bits: reward times pool fee rate, the fee at most the reward, remainder times bonus rate when there is
  a winner, the bonus at most the remainder, the sum of the shares, and base times the shares of each miner;
  otherwise it panics. When it returns it pays out the reward less the pool fee, no more and no less: each
  miner the floor of its share of the base, the winner the bonus on top, and the customer what rounding
  left over.\<close>

theorem escrow_distribution:
  assumes "0 < escrow_shares c"
  shows "(distribute_reward c \<noteq> None \<longleftrightarrow> escrow_fits c)
    \<and> (distribute_reward c = Some ps \<longrightarrow>
         paid_total ps = unat (ec_total_reward c) - escrow_pool_fee c
         \<and> (\<forall>j. paid_to j ps = base_paid c j + (if ec_winner c = Some j then escrow_bonus c else 0)
              + (if j = ec_customer c then escrow_base c - base_paid_total c else 0)))"
proof -
  have "\<exists>ps. distribute_reward c = Some ps" if "escrow_fits c"
    using distribute_reward_parts [OF that assms] by metis
  then have iff: "distribute_reward c \<noteq> None \<longleftrightarrow> escrow_fits c"
    using distribute_reward_fits [OF _ assms] by auto
  show ?thesis
  proof (cases "distribute_reward c")
    case (Some qs)
    with iff have "escrow_fits c" by simp
    from distribute_reward_parts [OF this assms] iff Some show ?thesis by (metis option.inject)
  qed (use iff in simp)
qed

definition sample_escrow :: "u64 \<Rightarrow> (u8 \<times> u64) list \<Rightarrow> u8 escrow_contract" where
  "sample_escrow reward ms =
     \<lparr>ec_contract_id = zero_hash, ec_customer = 9, ec_total_reward = reward, ec_task_id = zero_hash,
      ec_status = Completed, ec_created_height = 0, ec_deadline_height = 1000,
      ec_winner_bonus_percent = 200, ec_pool_fee_percent = 100, ec_miner_shares = ms,
      ec_winner = Some 1\<rparr>"

theorem escrow_distribution_witness:
  "\<exists>ps. distribute_reward (sample_escrow 100000 [(1, 700), (2, 300)]) = Some ps
    \<and> paid_total ps = 99000 \<and> paid_to 1 ps = 69894"
proof -
  let ?c = "sample_escrow 100000 [(1, 700), (2, 300)]"
  have parts: "escrow_pool_fee ?c = 1000" "escrow_bonus ?c = 1980" "escrow_shares ?c = 1000"
    by (simp_all add: escrow_pool_fee_def escrow_bonus_def escrow_shares_def sample_escrow_def)
  then have base: "escrow_base ?c = 97020"
    by (simp add: escrow_base_def) (simp add: sample_escrow_def)
  then have "escrow_fits ?c" using parts by (simp add: escrow_fits_def) (simp add: sample_escrow_def)
  with escrow_distribution [of ?c] parts obtain ps where "distribute_reward ?c = Some ps" by auto
  with escrow_distribution [of ?c ps] parts base show ?thesis
    by (simp add: base_paid_def) (auto simp: sample_escrow_def)
qed

text \<open>A contract paid at the full supply of 371 million coins panics as soon as one miner has
  six hundred shares: the product of base and shares is computed in 64 bits.\<close>

theorem escrow_overflow:
  assumes "600 \<le> s"
  shows "distribute_reward (sample_escrow 37100000000000000 [(2, s)]) = None"
proof -
  have "unat (600 :: u64) \<le> unat s" using assms by (simp only: word_le_nat_alt)
  then have "chk_mul (35994420000000000 :: u64) s = None"
    by (simp add: chk_mul_None_iff)
  moreover have "chk_sum [s] = Some s" by (simp add: chk_sum_Some_iff)
  moreover have "s \<noteq> 0" using assms by auto
  ultimately show ?thesis
    by (simp add: distribute_reward_def sample_escrow_def chk_mul_def chk_sub_def)
qed

theorem escrow_overflow_witness:
  "distribute_reward (sample_escrow 37100000000000000 [(2, 600)]) = None"
  by (rule escrow_overflow) simp

end
