(* ===== verification/Compute.thy ===== *)
theory Compute
  imports Prelude
begin

text \<open>
  \<open>crates/aevum-core/src/compute.rs\<close>: computation tasks, the check of a solution, and the split of
  the search space among workers. The lemmas give the bounds of a chunk in closed form, without the
  saturation of the source; the property states that the chunks tile the whole range. Two lemmas record
  gaps of the solution check and of the task identifier.
\<close>

datatype task_type =
    DrugDiscovery | ClimateModeling | ZkProofGeneration | ImageGeneration | VideoGeneration
  | AudioProcessing | MolecularDocking | ProteinFolding | Rendering | Simulation
  | GeneralComputeTask | CustomTask bytes

record compute_task =
  ct_task_id :: hash
  ct_task_type :: task_type
  ct_input_data :: bytes
  ct_reward :: u64
  ct_deadline :: u64
  ct_verification_key :: hash
  ct_issuer :: bytes
  ct_total_combinations :: u64
  ct_chunk_size :: u64

definition task_preimage :: "bytes \<Rightarrow> u64 \<Rightarrow> u64 \<Rightarrow> hash \<Rightarrow> bytes \<Rightarrow> u64 \<Rightarrow> bytes" where
  "task_preimage input_data reward deadline verification_key issuer total_combinations =
     ascii ''AEVUM.COMPUTE_TASK.V2'' @ le64 reward @ le64 deadline @ le64 total_combinations
     @ issuer @ input_data @ verification_key"

definition task_new ::
  "'pk crypto_api \<Rightarrow> task_type \<Rightarrow> bytes \<Rightarrow> u64 \<Rightarrow> u64 \<Rightarrow> hash \<Rightarrow> bytes \<Rightarrow> u64 \<Rightarrow> compute_task" where
  "task_new C ttype input_data reward deadline verification_key issuer total_combinations =
     \<lparr>ct_task_id = blake3 C (task_preimage input_data reward deadline verification_key issuer total_combinations),
      ct_task_type = ttype, ct_input_data = input_data, ct_reward = reward, ct_deadline = deadline,
      ct_verification_key = verification_key, ct_issuer = issuer,
      ct_total_combinations = total_combinations,
      ct_chunk_size = max (total_combinations div 1024) 1\<rparr>"

definition verify_zk :: "'pk crypto_api \<Rightarrow> bytes \<Rightarrow> hash" where
  "verify_zk C solution = (if length solution < 384 then zero_hash else blake3 C solution)"

definition verify_media :: "'pk crypto_api \<Rightarrow> bytes \<Rightarrow> hash" where
  "verify_media C solution = blake3 C solution"

definition verify_general :: "'pk crypto_api \<Rightarrow> compute_task \<Rightarrow> bytes \<Rightarrow> hash" where
  "verify_general C t solution = blake3 C (ascii ''AEVUM.SOLUTION.V2'' @ ct_task_id t @ solution)"

definition verify_custom :: "'pk crypto_api \<Rightarrow> bytes \<Rightarrow> bytes \<Rightarrow> hash" where
  "verify_custom C solution namespace = blake3 C (ascii ''AEVUM.CUSTOM.V2'' @ namespace @ solution)"

definition solution_hash :: "'pk crypto_api \<Rightarrow> compute_task \<Rightarrow> bytes \<Rightarrow> hash" where
  "solution_hash C t solution =
     (case ct_task_type t of
        ZkProofGeneration \<Rightarrow> verify_zk C solution
      | ImageGeneration \<Rightarrow> verify_media C solution
      | VideoGeneration \<Rightarrow> verify_media C solution
      | AudioProcessing \<Rightarrow> verify_media C solution
      | CustomTask namespace \<Rightarrow> verify_custom C solution namespace
      | _ \<Rightarrow> verify_general C t solution)"

definition verify_solution :: "'pk crypto_api \<Rightarrow> compute_task \<Rightarrow> bytes \<Rightarrow> bool" where
  "verify_solution C t solution =
     (if solution = [] then False else solution_hash C t solution = ct_verification_key t)"

definition get_chunk :: "compute_task \<Rightarrow> u64 \<Rightarrow> u64 \<Rightarrow> (u64 \<times> u64) option" where
  "get_chunk t worker workers =
     (if workers = 0 \<or> workers \<le> worker then None
      else let base = ct_total_combinations t div workers;
               r = ct_total_combinations t mod workers;
               start = sat_add (sat_mul worker base) (min worker r);
               last = sat_add start base
           in Some (start, if worker < r then sat_add last 1 else last))"

definition input_hash :: "'pk crypto_api \<Rightarrow> compute_task \<Rightarrow> hash" where
  "input_hash C t = blake3 C (ct_input_data t)"

record block_solution =
  bs_task :: compute_task
  bs_solution :: bytes
  bs_zk_proof :: bytes
  bs_block_height :: u64
  bs_miner :: bytes
  bs_worker_range :: "(u64 \<times> u64) option"
  bs_pool_id :: "hash option"

definition block_solution_new :: "compute_task \<Rightarrow> bytes \<Rightarrow> u64 \<Rightarrow> bytes \<Rightarrow> block_solution" where
  "block_solution_new t solution block_height miner =
     \<lparr>bs_task = t, bs_solution = solution, bs_zk_proof = [], bs_block_height = block_height,
      bs_miner = miner, bs_worker_range = None, bs_pool_id = None\<rparr>"

definition block_solution_verify :: "'pk crypto_api \<Rightarrow> block_solution \<Rightarrow> bool" where
  "block_solution_verify C b = verify_solution C (bs_task b) (bs_solution b)"

section \<open>The bounds of a chunk\<close>

definition chunk_start :: "nat \<Rightarrow> nat \<Rightarrow> nat \<Rightarrow> nat" where
  "chunk_start n w ws = w * (n div ws) + min w (n mod ws)"

lemma chunk_start_Suc:
  "chunk_start n (Suc w) ws = chunk_start n w ws + n div ws + (if w < n mod ws then 1 else 0)"
  by (simp add: chunk_start_def min_def)

lemma chunk_start_last: "0 < ws \<Longrightarrow> chunk_start n ws ws = n"
  by (simp add: chunk_start_def min_def less_imp_le not_le) (metis mod_less_divisor not_less)

lemma chunk_start_mono: "w \<le> v \<Longrightarrow> chunk_start n w ws \<le> chunk_start n v ws"
  unfolding chunk_start_def by (intro add_mono mult_right_mono) auto

lemma get_chunk_bounds:
  assumes "worker < workers"
  shows "\<exists>s e. get_chunk t worker workers = Some (s, e)
    \<and> unat s = chunk_start (unat (ct_total_combinations t)) (unat worker) (unat workers)
    \<and> unat e = chunk_start (unat (ct_total_combinations t)) (unat worker + 1) (unat workers)"
proof -
  let ?n = "unat (ct_total_combinations t)" and ?w = "unat worker" and ?ws = "unat workers"
  have lt: "?w < ?ws" using assms by (simp add: word_less_nat_alt)
  have nz: "workers \<noteq> 0" using assms by auto
  have le: "chunk_start ?n (?w + 1) ?ws \<le> ?n"
    using chunk_start_mono [of "?w + 1" ?ws ?n ?ws] chunk_start_last [of ?ws ?n] lt by simp
  have "?n < 2 ^ 64" using unat_lt_pow [of "ct_total_combinations t"] by simp
  with le have b: "chunk_start ?n (?w + 1) ?ws < 2 ^ 64" by simp
  let ?s = "sat_add (sat_mul worker (ct_total_combinations t div workers)) (min worker (ct_total_combinations t mod workers))"
  let ?e = "sat_add ?s (ct_total_combinations t div workers)"
  have s: "unat ?s = chunk_start ?n ?w ?ws"
    using b chunk_start_Suc [of ?n ?w ?ws] by (simp add: rust_arith chunk_start_def)
  have e: "unat ?e = chunk_start ?n ?w ?ws + ?n div ?ws"
    using b chunk_start_Suc [of ?n ?w ?ws] s by (simp add: unat_sat_add unat_div_word)
  have "unat (if worker < ct_total_combinations t mod workers then sat_add ?e 1 else ?e)
      = chunk_start ?n (?w + 1) ?ws"
    using b chunk_start_Suc [of ?n ?w ?ws] e
    by (auto simp: unat_sat_add unat_mod_word word_less_nat_alt)
  with s nz assms show ?thesis by (simp add: get_chunk_def Let_def)
qed

section \<open>Properties\<close>

text \<open>C24. For any number of workers the chunks tile the search space: every worker below the count
  gets a chunk, the first starts at zero, each ends where the next begins, the last ends at the total,
  and any two sizes differ by at most one. The saturating arithmetic never saturates.\<close>

theorem get_chunk_tiles:
  assumes "worker < workers"
  shows "\<exists>s e. get_chunk t worker workers = Some (s, e) \<and> s \<le> e
    \<and> (worker = 0 \<longrightarrow> s = 0)
    \<and> (if worker + 1 < workers then \<exists>e'. get_chunk t (worker + 1) workers = Some (e, e')
       else e = ct_total_combinations t)
    \<and> (unat e - unat s = unat (ct_total_combinations t) div unat workers
       \<or> unat e - unat s = unat (ct_total_combinations t) div unat workers + 1)"
proof -
  let ?n = "unat (ct_total_combinations t)" and ?ws = "unat workers"
  obtain s e where c: "get_chunk t worker workers = Some (s, e)"
      and s: "unat s = chunk_start ?n (unat worker) ?ws"
      and e: "unat e = chunk_start ?n (unat worker + 1) ?ws"
    using get_chunk_bounds [OF assms] by blast
  have lt: "unat worker < ?ws" using assms by (simp add: word_less_nat_alt)
  then have succ: "unat (worker + 1) = unat worker + 1"
    using unat_lt_pow [of workers] by (simp add: unat_word_ariths)
  have nxt: "if worker + 1 < workers then \<exists>e'. get_chunk t (worker + 1) workers = Some (e, e')
       else e = ct_total_combinations t"
  proof (cases "worker + 1 < workers")
    case True
    obtain s' e' where "get_chunk t (worker + 1) workers = Some (s', e')"
        and "unat s' = chunk_start ?n (unat (worker + 1)) ?ws"
      using get_chunk_bounds [OF True, of t] by blast
    moreover from this e succ have "s' = e" by (simp add: word_unat_eq_iff)
    ultimately show ?thesis using True by simp
  next
    case False
    then have "unat worker + 1 = ?ws" using lt succ by (simp add: word_less_nat_alt)
    with e chunk_start_last [of ?ws ?n] lt have "unat e = ?n" by simp
    with False show ?thesis by (simp add: word_unat_eq_iff)
  qed
  have "s \<le> e" by (simp add: word_le_nat_alt s e chunk_start_mono)
  moreover have "worker = 0 \<longrightarrow> s = 0" using s by (simp add: chunk_start_def word_unat_eq_iff)
  ultimately show ?thesis using c nxt chunk_start_Suc [of ?n "unat worker" ?ws] s e by auto
qed

theorem get_chunk_tiles_witness:
  "\<exists>s e. get_chunk (task_new sample_crypto Rendering [] 0 0 zero_hash [] 10) 1 4 = Some (s, e) \<and> s \<le> e"
  using get_chunk_tiles [of 1 4 "task_new sample_crypto Rendering [] 0 0 zero_hash [] 10"] by auto

section \<open>Two gaps\<close>

text \<open>A zero-knowledge task with the zero key accepts every non-empty solution shorter than 384
  bytes: such solutions are all given the zero hash instead of being refused.\<close>

lemma zk_short_solution:
  "ct_task_type t = ZkProofGeneration \<Longrightarrow> ct_verification_key t = zero_hash \<Longrightarrow> sol \<noteq> []
     \<Longrightarrow> length sol < 384 \<Longrightarrow> verify_solution C t sol"
  by (simp add: verify_solution_def solution_hash_def verify_zk_def)

text \<open>The identifier of a task does not depend on its type.\<close>

lemma task_id_ignores_type:
  "ct_task_id (task_new C ty inp rw dl vk iss n) = ct_task_id (task_new C ty' inp rw dl vk iss n)"
  by (simp add: task_new_def)

end
