(* ===== verification/Namespace.thy ===== *)
theory Namespace
  imports Prelude
begin

text \<open>
  \<open>crates/aevum-core/src/compute_namespace.rs\<close>: task categories, execution and verification
  policies, namespace descriptors and the registry. The registry is a step system: its invariant
  (capacity, one entry per identifier, every entry within the limits that \<open>register\<close> checks) holds
  after any sequence of registrations, and an entry once registered stays.
\<close>

section \<open>Categories\<close>

datatype task_category =
    GeneralCompute | ScientificCompute | FinancialCompute | AITraining | AIInference
  | EngineeringCompute | CreativeCompute | CryptoCompute | CustomCategory

fun category_u8 :: "task_category \<Rightarrow> u8" where
  "category_u8 GeneralCompute = 0"
| "category_u8 ScientificCompute = 1"
| "category_u8 FinancialCompute = 2"
| "category_u8 AITraining = 3"
| "category_u8 AIInference = 4"
| "category_u8 EngineeringCompute = 5"
| "category_u8 CreativeCompute = 6"
| "category_u8 CryptoCompute = 7"
| "category_u8 CustomCategory = 255"

definition category_from_u8 :: "u8 \<Rightarrow> task_category option" where
  "category_from_u8 v =
     (if v = 0 then Some GeneralCompute else if v = 1 then Some ScientificCompute
      else if v = 2 then Some FinancialCompute else if v = 3 then Some AITraining
      else if v = 4 then Some AIInference else if v = 5 then Some EngineeringCompute
      else if v = 6 then Some CreativeCompute else if v = 7 then Some CryptoCompute
      else if v = 255 then Some CustomCategory else None)"

lemma category_u8_inj [simp]: "category_u8 a = category_u8 b \<longleftrightarrow> a = b"
  by (cases a; cases b) simp_all

text \<open>The derived \<open>Ord\<close>: by discriminant.\<close>

instantiation task_category :: linorder
begin

definition less_eq_task_category :: "task_category \<Rightarrow> task_category \<Rightarrow> bool" where
  "less_eq_task_category a b \<longleftrightarrow> category_u8 a \<le> category_u8 b"

definition less_task_category :: "task_category \<Rightarrow> task_category \<Rightarrow> bool" where
  "less_task_category a b \<longleftrightarrow> category_u8 a < category_u8 b"

instance
  by standard (auto simp: less_eq_task_category_def less_task_category_def intro: order_trans
      dest: antisym)

end

section \<open>Policies\<close>

record hw_requirements =
  hw_min_gpu_vram_mb :: u32
  hw_min_ram_mb :: u32
  hw_requires_cuda :: bool
  hw_requires_opencl :: bool

definition hw_default :: hw_requirements where
  "hw_default = \<lparr>hw_min_gpu_vram_mb = 0, hw_min_ram_mb = 0, hw_requires_cuda = False, hw_requires_opencl = False\<rparr>"

definition satisfied_by :: "hw_requirements \<Rightarrow> u32 \<Rightarrow> u32 \<Rightarrow> bool \<Rightarrow> bool \<Rightarrow> bool" where
  "satisfied_by hw vram ram cuda opencl =
     (if vram < hw_min_gpu_vram_mb hw then False
      else if ram < hw_min_ram_mb hw then False
      else if hw_requires_cuda hw \<and> \<not> cuda then False
      else if hw_requires_opencl hw \<and> \<not> opencl then False
      else True)"

datatype verification_policy = ZkOnly | Redundant u8 | Challenge | Hybrid bool bool

fun policy_default_for :: "task_category \<Rightarrow> verification_policy" where
  "policy_default_for FinancialCompute = ZkOnly"
| "policy_default_for CryptoCompute = ZkOnly"
| "policy_default_for AITraining = Redundant 3"
| "policy_default_for ScientificCompute = Hybrid True True"
| "policy_default_for EngineeringCompute = Hybrid True True"
| "policy_default_for CreativeCompute = Redundant 2"
| "policy_default_for _ = Challenge"

record execution_policy =
  ep_category :: task_category
  ep_hw :: hw_requirements
  ep_deterministic :: bool
  ep_max_runtime_ms :: u64
  ep_priority_weight :: u8
  ep_admission_weight :: u8

fun hw_for :: "task_category \<Rightarrow> hw_requirements" where
  "hw_for AITraining = hw_default\<lparr>hw_min_gpu_vram_mb := 8192, hw_min_ram_mb := 16384, hw_requires_cuda := True\<rparr>"
| "hw_for AIInference = hw_default\<lparr>hw_min_gpu_vram_mb := 4096, hw_min_ram_mb := 8192, hw_requires_cuda := True\<rparr>"
| "hw_for ScientificCompute = hw_default\<lparr>hw_min_gpu_vram_mb := 4096, hw_min_ram_mb := 8192\<rparr>"
| "hw_for EngineeringCompute = hw_default\<lparr>hw_min_gpu_vram_mb := 4096, hw_min_ram_mb := 8192\<rparr>"
| "hw_for CreativeCompute = hw_default\<lparr>hw_min_gpu_vram_mb := 2048, hw_min_ram_mb := 4096\<rparr>"
| "hw_for _ = hw_default"

definition for_category :: "task_category \<Rightarrow> execution_policy" where
  "for_category category =
     \<lparr>ep_category = category, ep_hw = hw_for category,
      ep_deterministic = (category = CryptoCompute \<or> category = FinancialCompute),
      ep_max_runtime_ms = 60000, ep_priority_weight = 50, ep_admission_weight = 50\<rparr>"

record namespace_descriptor =
  ns_id :: bytes
  ns_label :: bytes
  ns_version :: u16
  ns_category :: task_category
  ns_tags :: bytes
  ns_priority_bias :: u8
  ns_verification_bias :: u8
  ns_congestion_bias :: u8

definition for_category_with_ns :: "task_category \<Rightarrow> namespace_descriptor option \<Rightarrow> execution_policy" where
  "for_category_with_ns category ns =
     (case ns of None \<Rightarrow> for_category category
      | Some d \<Rightarrow> (for_category category)\<lparr>ep_priority_weight := ns_priority_bias d,
                                          ep_admission_weight := ns_congestion_bias d\<rparr>)"

section \<open>Namespaces\<close>

definition id_from_label :: "'pk crypto_api \<Rightarrow> bytes \<Rightarrow> u16 \<Rightarrow> bytes" where
  "id_from_label C label version = blake3 C (ascii ''AEVUM_NAMESPACE_V2'' @ label @ le16 version)"

definition namespace_new :: "'pk crypto_api \<Rightarrow> bytes \<Rightarrow> u16 \<Rightarrow> task_category \<Rightarrow> namespace_descriptor" where
  "namespace_new C label version category =
     \<lparr>ns_id = id_from_label C label version, ns_label = label, ns_version = version,
      ns_category = category, ns_tags = [], ns_priority_bias = 50, ns_verification_bias = 0,
      ns_congestion_bias = 50\<rparr>"

definition with_priority :: "u8 \<Rightarrow> namespace_descriptor \<Rightarrow> namespace_descriptor" where
  "with_priority bias d = d\<lparr>ns_priority_bias := min bias 100\<rparr>"

definition with_verification :: "u8 \<Rightarrow> namespace_descriptor \<Rightarrow> namespace_descriptor" where
  "with_verification bias d = d\<lparr>ns_verification_bias := min bias 100\<rparr>"

definition with_congestion :: "u8 \<Rightarrow> namespace_descriptor \<Rightarrow> namespace_descriptor" where
  "with_congestion bias d = d\<lparr>ns_congestion_bias := min bias 100\<rparr>"

text \<open>The \<open>HashMap\<close> of the registry as an association list; its order is never read.\<close>

record namespace_registry =
  nr_namespaces :: "(bytes \<times> namespace_descriptor) list"
  nr_max_namespaces :: nat

definition registry_new :: "nat \<Rightarrow> namespace_registry" where
  "registry_new m = \<lparr>nr_namespaces = [], nr_max_namespaces = m\<rparr>"

definition register ::
  "namespace_descriptor \<Rightarrow> namespace_registry \<Rightarrow> namespace_registry \<times> (unit, string) result" where
  "register ns r =
     (if nr_max_namespaces r \<le> length (nr_namespaces r) then (r, Err ''registry full'')
      else if map_of (nr_namespaces r) (ns_id ns) \<noteq> None then (r, Err ''namespace already exists'')
      else if 128 < length (ns_label ns) then (r, Err ''label too long'')
      else if ns_version ns = 0 then (r, Err ''version >= 1 required'')
      else if 100 < ns_priority_bias ns \<or> 100 < ns_verification_bias ns \<or> 100 < ns_congestion_bias ns
        then (r, Err ''bias > 100'')
      else (r\<lparr>nr_namespaces := (ns_id ns, ns) # nr_namespaces r\<rparr>, Ok ()))"

definition registry_get :: "namespace_registry \<Rightarrow> bytes \<Rightarrow> namespace_descriptor option" where
  "registry_get r nid = map_of (nr_namespaces r) nid"

definition registry_len :: "namespace_registry \<Rightarrow> nat" where
  "registry_len r = length (nr_namespaces r)"

definition lookup_opt :: "namespace_registry \<Rightarrow> bytes option \<Rightarrow> namespace_descriptor option" where
  "lookup_opt r namespace_id = (case namespace_id of None \<Rightarrow> None | Some nid \<Rightarrow> map_of (nr_namespaces r) nid)"

definition resolve_execution :: "namespace_registry \<Rightarrow> task_category \<Rightarrow> bytes option \<Rightarrow> execution_policy" where
  "resolve_execution r category namespace_id = for_category_with_ns category (lookup_opt r namespace_id)"

definition resolve_verification :: "namespace_registry \<Rightarrow> task_category \<Rightarrow> bytes option \<Rightarrow> verification_policy" where
  "resolve_verification r category namespace_id =
     (case lookup_opt r namespace_id of
        None \<Rightarrow> policy_default_for category
      | Some ns \<Rightarrow>
          if ns_verification_bias ns \<le> 30 then policy_default_for category
          else if ns_verification_bias ns \<le> 70 then Hybrid True True else ZkOnly)"

definition fingerprint_preimage :: "task_category \<times> namespace_descriptor option \<Rightarrow> bytes" where
  "fingerprint_preimage p =
     ascii ''AEVUM_EXEC_FP_V2'' @ [category_u8 (fst p)]
     @ (case snd p of None \<Rightarrow> []
        | Some d \<Rightarrow> ns_id d @ [ns_priority_bias d, ns_verification_bias d, ns_congestion_bias d])"

definition execution_fingerprint :: "'pk crypto_api \<Rightarrow> task_category \<Rightarrow> namespace_descriptor option \<Rightarrow> hash" where
  "execution_fingerprint C category ns = blake3 C (fingerprint_preimage (category, ns))"

section \<open>The invariant of the registry\<close>

definition descriptor_ok :: "namespace_descriptor \<Rightarrow> bool" where
  "descriptor_ok d \<longleftrightarrow> length (ns_label d) \<le> 128 \<and> 1 \<le> ns_version d
     \<and> ns_priority_bias d \<le> 100 \<and> ns_verification_bias d \<le> 100 \<and> ns_congestion_bias d \<le> 100"

definition registry_inv :: "nat \<Rightarrow> namespace_registry \<Rightarrow> bool" where
  "registry_inv m r \<longleftrightarrow> nr_max_namespaces r = m \<and> length (nr_namespaces r) \<le> m
     \<and> distinct (map fst (nr_namespaces r))
     \<and> (\<forall>(nid, d) \<in> set (nr_namespaces r). nid = ns_id d \<and> descriptor_ok d)"

lemma register_Ok_iff:
  "register ns r = (r', Ok ()) \<longleftrightarrow>
     length (nr_namespaces r) < nr_max_namespaces r \<and> map_of (nr_namespaces r) (ns_id ns) = None
     \<and> descriptor_ok ns \<and> r' = r\<lparr>nr_namespaces := (ns_id ns, ns) # nr_namespaces r\<rparr>"
proof -
  have "1 \<le> ns_version ns \<longleftrightarrow> ns_version ns \<noteq> 0"
    by (auto simp: word_le_nat_alt word_unat_eq_iff)
  then show ?thesis by (auto simp: register_def descriptor_ok_def not_le not_less)
qed

lemma register_inv: "registry_inv m r \<Longrightarrow> registry_inv m (fst (register ns r))"
proof (cases "snd (register ns r)")
  case (Ok u)
  assume "registry_inv m r"
  then show ?thesis
    using register_Ok_iff [of ns r "fst (register ns r)"] Ok
    by (simp add: registry_inv_def map_of_eq_None_iff prod_eq_iff)
qed (auto simp: register_def)

lemma register_len_mono: "registry_len r \<le> registry_len (fst (register ns r))"
  by (simp add: register_def registry_len_def)

interpretation registry: monotone_system "registry_new m" "\<lambda>ns r. fst (register ns r)" "registry_inv m" registry_len for m
  by unfold_locales
    (simp_all add: register_inv register_len_mono, simp add: registry_inv_def registry_new_def)

lemma register_keeps: "registry_get r nid = Some d \<Longrightarrow> registry_get (fst (register ns r)) nid = Some d"
  by (auto simp: register_def registry_get_def)

lemma registers_keep:
  "registry_get r nid = Some d \<Longrightarrow> registry_get (fold (\<lambda>ns r. fst (register ns r)) nss r) nid = Some d"
  by (induction nss arbitrary: r) (auto simp: register_keeps)

section \<open>Properties\<close>

text \<open>C36. After any sequence of registrations, accepted or refused, starting from an empty registry
  of capacity \<open>m\<close>: there are at most \<open>m\<close> namespaces, every entry is stored under its own identifier
  and satisfies the limits on label, version and biases; so a priority or admission weight resolved
  from it is at most 100. And a namespace that \<open>register\<close> accepted is returned by \<open>get\<close> after any
  further registrations.\<close>

theorem registry_sound:
  assumes "r = fold (\<lambda>ns r. fst (register ns r)) nss (registry_new m)"
  shows "registry_len r \<le> m
    \<and> (registry_get r nid = Some d \<longrightarrow> ns_id d = nid \<and> descriptor_ok d)
    \<and> ep_priority_weight (resolve_execution r cat nid_opt) \<le> 100
    \<and> ep_admission_weight (resolve_execution r cat nid_opt) \<le> 100
    \<and> (snd (register ns r) = Ok () \<longrightarrow>
         registry_get (fold (\<lambda>ns r. fst (register ns r)) nss' (fst (register ns r))) (ns_id ns) = Some ns)"
proof -
  have inv: "registry_inv m r" unfolding assms by (rule registry.run_init_inv)
  have entry: "ns_id d' = k \<and> descriptor_ok d'" if "map_of (nr_namespaces r) k = Some d'" for k d'
    using inv map_of_SomeD [OF that] by (auto simp: registry_inv_def)
  have "registry_get (fst (register ns r)) (ns_id ns) = Some ns" if "snd (register ns r) = Ok ()"
    using register_Ok_iff [of ns r "fst (register ns r)"] that by (simp add: prod_eq_iff registry_get_def)
  with inv entry show ?thesis
    by (auto simp: registry_inv_def registry_len_def registry_get_def resolve_execution_def lookup_opt_def
        for_category_with_ns_def for_category_def descriptor_ok_def registers_keep [unfolded registry_get_def]
        split: option.splits)
qed

theorem registry_sound_witness:
  "registry_get (fold (\<lambda>ns r. fst (register ns r)) []
     (fst (register (namespace_new sample_crypto [1] 1 AITraining) (registry_new 1))))
       (id_from_label sample_crypto [1] 1) = Some (namespace_new sample_crypto [1] 1 AITraining)"
proof -
  have "snd (register (namespace_new sample_crypto [1] 1 AITraining) (registry_new 1)) = Ok ()"
    by (simp add: register_def registry_new_def namespace_new_def)
  moreover have "ns_id (namespace_new sample_crypto [1] 1 AITraining) = id_from_label sample_crypto [1] 1"
    by (simp add: namespace_new_def)
  ultimately show ?thesis
    using registry_sound [of "registry_new 1" "[]" 1 "[]" "namespace_new sample_crypto [1] 1 AITraining"
        GeneralCompute None "namespace_new sample_crypto [1] 1 AITraining" "[]"] by simp
qed

section \<open>Codes and fingerprints\<close>

lemma category_from_u8_iff: "category_from_u8 v = Some c \<longleftrightarrow> v = category_u8 c"
  by (cases c) (auto simp: category_from_u8_def split: if_splits)

definition fingerprint_wf :: "task_category \<times> namespace_descriptor option \<Rightarrow> bool" where
  "fingerprint_wf p \<longleftrightarrow> (\<forall>d. snd p = Some d \<longrightarrow> length (ns_id d) = 32)"

definition fingerprint_core ::
  "task_category \<times> namespace_descriptor option \<Rightarrow> task_category \<times> (bytes \<times> u8 \<times> u8 \<times> u8) option" where
  "fingerprint_core p = (fst p, map_option (\<lambda>d. (ns_id d, ns_priority_bias d, ns_verification_bias d, ns_congestion_bias d)) (snd p))"

interpretation fingerprint_binding: binding fingerprint_preimage fingerprint_wf fingerprint_core
proof unfold_locales
  fix x y
  assume "fingerprint_wf x" and "fingerprint_wf y" and "fingerprint_preimage x = fingerprint_preimage y"
  then show "fingerprint_core x = fingerprint_core y"
    by (cases "snd x"; cases "snd y")
      (auto simp: fingerprint_preimage_def fingerprint_wf_def fingerprint_core_def)
qed

end
