(* ===== verification/Address.thy ===== *)
theory Address
  imports Prelude
begin

text \<open>
  \<open>crates/aevum-core/src/address.rs\<close>: acceptance policies, their serialisation and the address that
  commits to one. \<open>RestrictionLevel\<close> (\<open>jt_utxo.rs\<close>) is not part of the repository; what the code
  reads of it is the record \<open>rl_api\<close>, with \<open>rl_allowed\<close> the codes of a \<open>Restricted\<close> level and
  \<^term>\<open>None\<close> for every other level.

  The lemmas: serialisation sorts the rules by their bytes, so an address does not depend on the
  order in which rules are listed; acceptance under a presented policy is decided by that policy
  once its hash matches, and a different policy is refused unless the hash collides.
\<close>

record 'rl rl_api =
  rl_to_u64 :: "'rl \<Rightarrow> u64"
  rl_serialize :: "'rl \<Rightarrow> bytes"
  rl_allowed :: "'rl \<Rightarrow> bytes list option"

datatype 'rl acceptance_rule = Level 'rl | Jurisdiction bytes

datatype 'rl acceptance_policy =
    Whitelist "'rl acceptance_rule list"
  | Blacklist "'rl acceptance_rule list"
  | AcceptAll
  | RejectAll

definition ACCEPTANCE_POLICY_FORMAT_VERSION :: u8 where "ACCEPTANCE_POLICY_FORMAT_VERSION = 1"

fun rule_is_level :: "'rl rl_api \<Rightarrow> u64 \<Rightarrow> 'rl acceptance_rule \<Rightarrow> bool" where
  "rule_is_level R level (Level rl) = (rl_to_u64 R rl = level)"
| "rule_is_level R level (Jurisdiction _) = False"

fun accepts_level :: "'rl rl_api \<Rightarrow> 'rl acceptance_policy \<Rightarrow> u64 \<Rightarrow> bool" where
  "accepts_level R AcceptAll level = True"
| "accepts_level R RejectAll level = False"
| "accepts_level R (Whitelist rules) level = list_ex (rule_is_level R level) rules"
| "accepts_level R (Blacklist rules) level = (\<not> list_ex (rule_is_level R level) rules)"

fun rule_is_jurisdiction :: "bytes \<Rightarrow> 'rl acceptance_rule \<Rightarrow> bool" where
  "rule_is_jurisdiction code (Jurisdiction c) = (c = code)"
| "rule_is_jurisdiction code (Level _) = False"

fun accepts_jurisdiction :: "'rl acceptance_policy \<Rightarrow> bytes \<Rightarrow> bool" where
  "accepts_jurisdiction AcceptAll code = True"
| "accepts_jurisdiction RejectAll code = False"
| "accepts_jurisdiction (Whitelist rules) code = list_ex (rule_is_jurisdiction code) rules"
| "accepts_jurisdiction (Blacklist rules) code = (\<not> list_ex (rule_is_jurisdiction code) rules)"

fun rule_serialize :: "'rl rl_api \<Rightarrow> 'rl acceptance_rule \<Rightarrow> bytes" where
  "rule_serialize R (Level level) = 0x10 # rl_serialize R level"
| "rule_serialize R (Jurisdiction code) = 0x20 # code"

definition rules_serialize :: "'rl rl_api \<Rightarrow> 'rl acceptance_rule list \<Rightarrow> bytes" where
  "rules_serialize R rules =
     (let sorted = sort_key (rule_serialize R) rules
      in of_nat (length sorted) # concat (map (rule_serialize R) sorted))"

fun policy_serialize :: "'rl rl_api \<Rightarrow> 'rl acceptance_policy \<Rightarrow> bytes" where
  "policy_serialize R AcceptAll = [ACCEPTANCE_POLICY_FORMAT_VERSION, 0x00]"
| "policy_serialize R RejectAll = [ACCEPTANCE_POLICY_FORMAT_VERSION, 0xFF]"
| "policy_serialize R (Whitelist rules) = [ACCEPTANCE_POLICY_FORMAT_VERSION, 0x01] @ rules_serialize R rules"
| "policy_serialize R (Blacklist rules) = [ACCEPTANCE_POLICY_FORMAT_VERSION, 0x02] @ rules_serialize R rules"

definition is_open :: "'rl acceptance_policy \<Rightarrow> bool" where "is_open p \<longleftrightarrow> p = AcceptAll"
definition is_closed :: "'rl acceptance_policy \<Rightarrow> bool" where "is_closed p \<longleftrightarrow> p = RejectAll"

fun rule_matches :: "'rl rl_api \<Rightarrow> 'rl acceptance_rule \<Rightarrow> 'rl \<Rightarrow> bytes option \<Rightarrow> bool" where
  "rule_matches R (Level allowed_level) level specific = (allowed_level = level)"
| "rule_matches R (Jurisdiction code) level specific =
     (case specific of
        Some j \<Rightarrow> j = code
      | None \<Rightarrow> (case rl_allowed R level of Some allowed \<Rightarrow> code \<in> set allowed | None \<Rightarrow> False))"

record 'pk address =
  addr_public_key :: 'pk
  addr_policy_hash :: hash
  addr_version :: u8

definition CURRENT_VERSION :: u8 where "CURRENT_VERSION = 2"
definition LEGACY_VERSION :: u8 where "LEGACY_VERSION = 1"

definition policy_preimage :: "'pk crypto_api \<Rightarrow> 'rl rl_api \<Rightarrow> 'pk \<Rightarrow> 'rl acceptance_policy \<Rightarrow> bytes" where
  "policy_preimage C R pk policy =
     ascii ''AEVUM_ADDRESS_POLICY_V3'' @ [CURRENT_VERSION] @ pk_bytes C pk @ policy_serialize R policy"

definition compute_policy_hash :: "'pk crypto_api \<Rightarrow> 'rl rl_api \<Rightarrow> 'pk \<Rightarrow> 'rl acceptance_policy \<Rightarrow> hash" where
  "compute_policy_hash C R pk policy = blake3 C (policy_preimage C R pk policy)"

definition address_with_version :: "'pk crypto_api \<Rightarrow> 'rl rl_api \<Rightarrow> 'pk \<Rightarrow> 'rl acceptance_policy \<Rightarrow> u8 \<Rightarrow> 'pk address" where
  "address_with_version C R pk policy version =
     \<lparr>addr_public_key = pk, addr_policy_hash = compute_policy_hash C R pk policy, addr_version = version\<rparr>"

definition address_new :: "'pk crypto_api \<Rightarrow> 'rl rl_api \<Rightarrow> 'pk \<Rightarrow> 'rl acceptance_policy \<Rightarrow> 'pk address" where
  "address_new C R pk policy =
     \<lparr>addr_public_key = pk, addr_policy_hash = compute_policy_hash C R pk policy, addr_version = CURRENT_VERSION\<rparr>"

definition verify_policy_hash :: "'pk crypto_api \<Rightarrow> 'rl rl_api \<Rightarrow> 'pk address \<Rightarrow> 'rl acceptance_policy \<Rightarrow> bool" where
  "verify_policy_hash C R a policy \<longleftrightarrow> addr_policy_hash a = compute_policy_hash C R (addr_public_key a) policy"

fun policy_allows :: "'rl rl_api \<Rightarrow> 'rl acceptance_policy \<Rightarrow> 'rl \<Rightarrow> bytes option \<Rightarrow> bool" where
  "policy_allows R AcceptAll level specific = True"
| "policy_allows R RejectAll level specific = False"
| "policy_allows R (Whitelist rules) level specific = list_ex (\<lambda>r. rule_matches R r level specific) rules"
| "policy_allows R (Blacklist rules) level specific = (\<not> list_ex (\<lambda>r. rule_matches R r level specific) rules)"

definition address_accepts ::
  "'pk crypto_api \<Rightarrow> 'rl rl_api \<Rightarrow> 'pk address \<Rightarrow> 'rl acceptance_policy \<Rightarrow> 'rl \<Rightarrow> bytes option \<Rightarrow> (bool, string) result" where
  "address_accepts C R a policy level specific =
     (if \<not> verify_policy_hash C R a policy then Err ''policy hash mismatch''
      else Ok (policy_allows R policy level specific))"

definition is_legacy :: "'pk address \<Rightarrow> bool" where "is_legacy a \<longleftrightarrow> addr_version a = LEGACY_VERSION"
definition is_standard :: "'pk address \<Rightarrow> bool" where "is_standard a \<longleftrightarrow> addr_version a = CURRENT_VERSION"

section \<open>Lemmas\<close>

lemma map_sort_key: "map f (sort_key f xs) = sort (map f xs)"
  by (rule properties_for_sort [symmetric]) auto

lemma rules_serialize_perm:
  assumes "mset rules = mset rules'"
  shows "rules_serialize R rules = rules_serialize R rules'"
proof -
  have "sort (map (rule_serialize R) rules) = sort (map (rule_serialize R) rules')"
    by (rule properties_for_sort) (simp_all add: assms)
  moreover have "length rules = length rules'" using assms by (metis size_mset)
  ultimately show ?thesis by (simp add: rules_serialize_def Let_def map_sort_key)
qed

definition policy_kind :: "'rl acceptance_policy \<Rightarrow> u8" where
  "policy_kind p = (case p of AcceptAll \<Rightarrow> 0 | RejectAll \<Rightarrow> 0xFF | Whitelist _ \<Rightarrow> 1 | Blacklist _ \<Rightarrow> 2)"

lemma policy_serialize_kind:
  "policy_serialize R p = ACCEPTANCE_POLICY_FORMAT_VERSION # policy_kind p # (case p of
     Whitelist rules \<Rightarrow> rules_serialize R rules | Blacklist rules \<Rightarrow> rules_serialize R rules | _ \<Rightarrow> [])"
  by (cases p) (simp_all add: policy_kind_def)

lemma accepts_Ok_same_hash:
  "address_accepts C R (address_with_version C R pk p v) q level specific
     = (if compute_policy_hash C R pk p = compute_policy_hash C R pk q
        then Ok (policy_allows R q level specific) else Err ''policy hash mismatch'')"
  by (simp add: address_accepts_def verify_policy_hash_def address_with_version_def)

section \<open>Properties\<close>

text \<open>An address made for a policy decides by that policy, whatever order its rules are later
  presented in and whatever version the address carries (the version is not part of the hash): a
  whitelist accepts exactly when some rule matches, a blacklist exactly when none does. A presented
  policy of another kind (open, closed, whitelist, blacklist) is an error, unless the two policy
  preimages are a collision.\<close>

theorem address_accepts_by_policy:
  assumes "mset rules = mset rules'"
  shows "address_accepts C R (address_with_version C R pk (Whitelist rules) v) (Whitelist rules') level specific
      = Ok (\<exists>r \<in> set rules. rule_matches R r level specific)
    \<and> address_accepts C R (address_with_version C R pk (Blacklist rules) v) (Blacklist rules') level specific
      = Ok (\<not> (\<exists>r \<in> set rules. rule_matches R r level specific))
    \<and> (pk_wf C \<and> policy_kind p \<noteq> policy_kind q \<and> no_collision C (policy_preimage C R pk p) (policy_preimage C R pk q)
       \<longrightarrow> address_accepts C R (address_with_version C R pk p v) q level specific = Err ''policy hash mismatch'')"
proof -
  note ser = rules_serialize_perm [OF assms, of R]
  have "set rules' = set rules" using assms by (metis set_mset_mset)
  moreover have "compute_policy_hash C R pk p \<noteq> compute_policy_hash C R pk q"
    if "policy_kind p \<noteq> policy_kind q" "no_collision C (policy_preimage C R pk p) (policy_preimage C R pk q)"
    using that by (auto simp: compute_policy_hash_def no_collision_def policy_preimage_def policy_serialize_kind)
  ultimately show ?thesis
    by (auto simp: accepts_Ok_same_hash compute_policy_hash_def policy_preimage_def ser list_ex_iff)
qed

definition sample_rl :: "u64 rl_api" where
  "sample_rl = \<lparr>rl_to_u64 = (\<lambda>l. l), rl_serialize = le64, rl_allowed = (\<lambda>_. None)\<rparr>"

theorem address_accepts_by_policy_witness:
  "address_accepts sample_crypto sample_rl
     (address_with_version sample_crypto sample_rl 1 (Whitelist [Level 1, Jurisdiction [65, 66, 67, 68]]) 1)
     (Whitelist [Jurisdiction [65, 66, 67, 68], Level 1]) 1 None = Ok True
   \<and> address_accepts sample_crypto sample_rl (address_with_version sample_crypto sample_rl 1 AcceptAll 1)
     RejectAll 1 None = Err ''policy hash mismatch''"
  using address_accepts_by_policy [of "[Level 1, Jurisdiction [65, 66, 67, 68]]" "[Jurisdiction [65, 66, 67, 68], Level 1]"
      sample_crypto sample_rl 1 1 1 None AcceptAll RejectAll]
  by (simp add: policy_kind_def)

end
