(* ===== verification/Wire.thy ===== *)
theory Wire
  imports Block
begin

text \<open>
  \<open>crates/aevum-core/src/wire.rs\<close>: the wire structures and their decoding into blocks and
  transactions. The byte format itself is \<open>serde\<close>'s; the code of the repository starts at the
  deserialised structures, with the length bound of \<open>BoundedVec\<close>. \<open>mk_zk\<close> is the struct literal of
  a Halo2 proof, \<open>fmt\<close> the \<open>Debug\<close> rendering of a block error: both belong to code outside the
  repository or to derived formatting.

  The repository has no encoder (serde derives it), so decoding is compared with a relation between a message
  and the values it declares. The lemmas: decoding yields exactly the declared block, with computed hashes; and
  which error every other message gets.
\<close>

definition WIRE_VERSION :: u16 where "WIRE_VERSION = 9"
definition MAX_TX_INPUTS :: nat where "MAX_TX_INPUTS = 1024"
definition MAX_TX_OUTPUTS :: nat where "MAX_TX_OUTPUTS = 1024"
definition MAX_WITNESSES :: nat where "MAX_WITNESSES = 32"
definition MAX_WIRE_BLOCK_SIZE :: nat where "MAX_WIRE_BLOCK_SIZE = 16 * 1024 * 1024"
definition MAX_TXS_PER_BLOCK :: nat where "MAX_TXS_PER_BLOCK = 100000"

record tx_input_wire =
  iw_tx_hash :: bytes
  iw_output_index :: u32
  iw_nullifier :: bytes
  iw_signature :: bytes
  iw_public_key :: bytes
  iw_signed_hash :: bytes
  iw_nonce :: u64

record 'dna tx_output_wire =
  ow_amount :: u64
  ow_owner :: bytes
  ow_amount_commitment :: bytes
  ow_tag_commitment :: bytes
  ow_nullifier :: bytes
  ow_serial :: u64
  ow_zk_proof :: bytes
  ow_tx_hash :: bytes
  ow_view_key_public :: bytes
  ow_encrypted_amount :: bytes
  ow_auth_tag :: bytes
  ow_restriction_level :: u64
  ow_output_index :: u32
  ow_taint_distance :: u16
  ow_taint_origin :: u64
  ow_taint_timestamp :: u64
  ow_dna :: 'dna

record 'dna tx_wire =
  tw_version :: u32
  tw_chain_id :: u32
  tw_tx_type :: u8
  tw_inputs :: "tx_input_wire list"
  tw_outputs :: "'dna tx_output_wire list"
  tw_fee :: u64
  tw_poh_tick :: u64
  tw_locktime :: u64
  tw_heartbeat_witnesses :: "bytes list"

record 'dna block_wire =
  bw_wire_version :: u16
  bw_block_hash :: bytes
  bw_prev_hash :: bytes
  bw_height :: u64
  bw_poh_tick_start :: u64
  bw_poh_tick_end :: u64
  bw_transactions_root :: bytes
  bw_transactions :: "'dna tx_wire list"
  bw_state_root :: bytes
  bw_total_supply :: u64
  bw_is_presence_block :: bool
  bw_block_size :: nat
  bw_settlement_checkpoint :: "settlement_checkpoint option"

datatype wire_error =
    VersionMismatch | BlockTooLarge | TxTooLarge | TooManyTx | TooManyInputs | TooManyOutputs
  | InvalidTxType | Deserialization string

text \<open>\<open>BoundedVec::deserialize\<close>, after the inner \<open>Vec\<close> has been read.\<close>

definition bounded_vec :: "nat \<Rightarrow> 'a list \<Rightarrow> ('a list, string) result" where
  "bounded_vec mx items = (if mx < length items then Err ''bounded vec overflow'' else Ok items)"

definition input_wire_decode :: "'pk crypto_api \<Rightarrow> tx_input_wire \<Rightarrow> ('pk tx_input, wire_error) result" where
  "input_wire_decode C i =
     (case pk_from_bytes C (iw_public_key i) of
        None \<Rightarrow> Err (Deserialization ''invalid input pubkey'')
      | Some pk \<Rightarrow> Ok \<lparr>in_tx_hash = iw_tx_hash i, in_output_index = iw_output_index i,
          in_nullifier = iw_nullifier i, in_signature = iw_signature i, in_public_key = pk,
          in_signed_hash = iw_signed_hash i, in_nonce = iw_nonce i\<rparr>)"

definition output_wire_decode ::
  "'pk crypto_api \<Rightarrow> (bytes \<Rightarrow> 'zk) \<Rightarrow> 'dna tx_output_wire \<Rightarrow> (('pk, 'zk, 'dna) tx_output, wire_error) result" where
  "output_wire_decode C mk_zk w =
     (case pk_from_bytes C (ow_owner w) of
        None \<Rightarrow> Err (Deserialization ''invalid output owner'')
      | Some pk \<Rightarrow> Ok \<lparr>out_amount = ow_amount w, out_owner = pk,
          out_amount_commitment = ow_amount_commitment w, out_tag_commitment = ow_tag_commitment w,
          out_nullifier = ow_nullifier w, out_serial = ow_serial w, out_zk_proof = mk_zk (ow_zk_proof w),
          out_tx_hash = ow_tx_hash w, out_view_key_public = ow_view_key_public w,
          out_encrypted_amount = ow_encrypted_amount w, out_auth_tag = ow_auth_tag w,
          out_restriction_level = ow_restriction_level w, out_output_index = ow_output_index w,
          out_taint_distance = ow_taint_distance w, out_taint_origin = ow_taint_origin w,
          out_taint_timestamp = ow_taint_timestamp w, out_dna = ow_dna w, out_dna_range_id = None\<rparr>)"

definition decode_tx_type :: "u8 \<Rightarrow> (transaction_type, wire_error) result" where
  "decode_tx_type b =
     (if b = 0 then Ok Standard else if b = 1 then Ok Coinbase else if b = 2 then Ok Heartbeat
      else Err InvalidTxType)"

definition tx_wire_decode ::
  "'pk crypto_api \<Rightarrow> (bytes \<Rightarrow> 'zk) \<Rightarrow> 'dna tx_wire \<Rightarrow> (('pk, 'zk, 'dna) transaction, wire_error) result" where
  "tx_wire_decode C mk_zk w =
     bind_result (decode_tx_type (tw_tx_type w)) (\<lambda>ty.
     bind_result (try_map (input_wire_decode C) (tw_inputs w)) (\<lambda>ins.
     bind_result (try_map (output_wire_decode C mk_zk) (tw_outputs w)) (\<lambda>outs.
       let tx = \<lparr>tx_version = tw_version w, tx_chain_id = tw_chain_id w, tx_type = ty,
                 tx_inputs = ins, tx_outputs = outs, tx_fee = tw_fee w, tx_hash = zero_hash,
                 tx_poh_tick = tw_poh_tick w, tx_locktime = tw_locktime w,
                 tx_heartbeat_witnesses = tw_heartbeat_witnesses w\<rparr>
       in Ok (tx\<lparr>tx_hash := recompute_hash C tx\<rparr>))))"

definition wire_candidate ::
  "'dna block_wire \<Rightarrow> ('pk, 'zk, 'dna) transaction list \<Rightarrow> ('pk, 'zk, 'dna) block_candidate" where
  "wire_candidate w txs =
     \<lparr>cand_prev_hash = bw_prev_hash w, cand_height = bw_height w,
      cand_poh_tick_start = bw_poh_tick_start w, cand_poh_tick_end = bw_poh_tick_end w,
      cand_transactions = txs, cand_is_presence_block = bw_is_presence_block w,
      cand_settlement_checkpoint = bw_settlement_checkpoint w\<rparr>"

definition wire_preview :: "'dna block_wire \<Rightarrow> state_preview" where
  "wire_preview w = \<lparr>pv_state_root = StateRoot (bw_state_root w), pv_new_total_supply = bw_total_supply w\<rparr>"

definition block_wire_decode ::
  "'pk crypto_api \<Rightarrow> (bytes \<Rightarrow> 'zk) \<Rightarrow> (block_error \<Rightarrow> string) \<Rightarrow> 'dna block_wire
     \<Rightarrow> (('pk, 'zk, 'dna) block, wire_error) result" where
  "block_wire_decode C mk_zk fmt w =
     (if bw_wire_version w \<noteq> WIRE_VERSION then Err VersionMismatch
      else if MAX_WIRE_BLOCK_SIZE < bw_block_size w then Err BlockTooLarge
      else bind_result (try_map (tx_wire_decode C mk_zk) (bw_transactions w)) (\<lambda>txs.
        case from_candidate C (wire_candidate w txs) (wire_preview w) of
          Err e \<Rightarrow> Err (Deserialization (fmt e))
        | Panic \<Rightarrow> Panic
        | Ok block \<Rightarrow>
            if blk_block_hash block \<noteq> bw_block_hash w then Err (Deserialization ''block hash mismatch'')
            else Ok block))"

section \<open>What a message declares\<close>

text \<open>The reference the decoders are compared with: a message and a value agree field by field. Keys are the
  ones the bytes parse to, a proof is the Halo2 proof with the bytes of the message, an output names no range.
  Of a block, the declared root of the transactions and the declared size are not compared.\<close>

definition input_declares :: "'pk crypto_api \<Rightarrow> tx_input_wire \<Rightarrow> 'pk tx_input \<Rightarrow> bool" where
  "input_declares C w i \<longleftrightarrow>
     pk_from_bytes C (iw_public_key w) = Some (in_public_key i)
     \<and> iw_tx_hash w = in_tx_hash i \<and> iw_output_index w = in_output_index i \<and> iw_nullifier w = in_nullifier i
     \<and> iw_signature w = in_signature i \<and> iw_signed_hash w = in_signed_hash i \<and> iw_nonce w = in_nonce i"

definition output_declares ::
  "'pk crypto_api \<Rightarrow> (bytes \<Rightarrow> 'zk) \<Rightarrow> 'dna tx_output_wire \<Rightarrow> ('pk, 'zk, 'dna) tx_output \<Rightarrow> bool" where
  "output_declares C mk_zk w v \<longleftrightarrow>
     pk_from_bytes C (ow_owner w) = Some (out_owner v) \<and> out_zk_proof v = mk_zk (ow_zk_proof w)
     \<and> out_dna_range_id v = None \<and> ow_amount w = out_amount v
     \<and> ow_amount_commitment w = out_amount_commitment v \<and> ow_tag_commitment w = out_tag_commitment v
     \<and> ow_nullifier w = out_nullifier v \<and> ow_serial w = out_serial v \<and> ow_tx_hash w = out_tx_hash v
     \<and> ow_view_key_public w = out_view_key_public v \<and> ow_encrypted_amount w = out_encrypted_amount v
     \<and> ow_auth_tag w = out_auth_tag v \<and> ow_restriction_level w = out_restriction_level v
     \<and> ow_output_index w = out_output_index v \<and> ow_taint_distance w = out_taint_distance v
     \<and> ow_taint_origin w = out_taint_origin v \<and> ow_taint_timestamp w = out_taint_timestamp v
     \<and> ow_dna w = out_dna v"

definition tx_declares ::
  "'pk crypto_api \<Rightarrow> (bytes \<Rightarrow> 'zk) \<Rightarrow> 'dna tx_wire \<Rightarrow> ('pk, 'zk, 'dna) transaction \<Rightarrow> bool" where
  "tx_declares C mk_zk w t \<longleftrightarrow>
     tw_version w = tx_version t \<and> tw_chain_id w = tx_chain_id t \<and> tw_tx_type w = tx_type_byte (tx_type t)
     \<and> list_all2 (input_declares C) (tw_inputs w) (tx_inputs t)
     \<and> list_all2 (output_declares C mk_zk) (tw_outputs w) (tx_outputs t)
     \<and> tw_fee w = tx_fee t \<and> tw_poh_tick w = tx_poh_tick t \<and> tw_locktime w = tx_locktime t
     \<and> tw_heartbeat_witnesses w = tx_heartbeat_witnesses t"

definition block_declares ::
  "'pk crypto_api \<Rightarrow> (bytes \<Rightarrow> 'zk) \<Rightarrow> 'dna block_wire \<Rightarrow> ('pk, 'zk, 'dna) block \<Rightarrow> bool" where
  "block_declares C mk_zk w b \<longleftrightarrow>
     list_all2 (tx_declares C mk_zk) (bw_transactions w) (blk_transactions b)
     \<and> bw_block_hash w = blk_block_hash b \<and> bw_prev_hash w = blk_prev_hash b \<and> bw_height w = blk_height b
     \<and> bw_poh_tick_start w = blk_poh_tick_start b \<and> bw_poh_tick_end w = blk_poh_tick_end b
     \<and> StateRoot (bw_state_root w) = blk_state_root b \<and> bw_total_supply w = blk_total_supply b
     \<and> bw_is_presence_block w = blk_is_presence_block b
     \<and> bw_settlement_checkpoint w = blk_settlement_checkpoint b"

lemma input_decode_iff: "input_wire_decode C w = Ok i \<longleftrightarrow> input_declares C w i"
  by (cases i) (auto simp: input_wire_decode_def input_declares_def split: option.splits)

lemma output_decode_iff: "output_wire_decode C mk_zk w = Ok v \<longleftrightarrow> output_declares C mk_zk w v"
  by (cases v) (auto simp: output_wire_decode_def output_declares_def split: option.splits)

lemma decode_tx_type_iff: "decode_tx_type b = Ok ty \<longleftrightarrow> b = tx_type_byte ty"
  by (cases ty) (auto simp: decode_tx_type_def)

lemma recompute_hash_upd [simp]: "recompute_hash C (t\<lparr>tx_hash := h\<rparr>) = recompute_hash C t"
  by (simp add: recompute_hash_def tx_preimage_def)

lemma tx_decode_iff:
  "tx_wire_decode C mk_zk w = Ok t \<longleftrightarrow> tx_declares C mk_zk w t \<and> tx_hash t = recompute_hash C t"
proof -
  have "tx_wire_decode C mk_zk w = Ok t \<longleftrightarrow> (\<exists>ty ins outs. tw_tx_type w = tx_type_byte ty
      \<and> list_all2 (input_declares C) (tw_inputs w) ins \<and> list_all2 (output_declares C mk_zk) (tw_outputs w) outs
      \<and> t = (let tx = \<lparr>tx_version = tw_version w, tx_chain_id = tw_chain_id w, tx_type = ty,
                 tx_inputs = ins, tx_outputs = outs, tx_fee = tw_fee w, tx_hash = zero_hash,
                 tx_poh_tick = tw_poh_tick w, tx_locktime = tw_locktime w,
                 tx_heartbeat_witnesses = tw_heartbeat_witnesses w\<rparr>
         in tx\<lparr>tx_hash := recompute_hash C tx\<rparr>))"
    by (auto simp: tx_wire_decode_def bind_result_Ok_iff try_map_Ok_iff input_decode_iff output_decode_iff
        decode_tx_type_iff Let_def)
  also have "\<dots> \<longleftrightarrow> tx_declares C mk_zk w t \<and> tx_hash t = recompute_hash C t"
  proof
    assume "tx_declares C mk_zk w t \<and> tx_hash t = recompute_hash C t"
    moreover have "recompute_hash C t = recompute_hash C (t\<lparr>tx_hash := zero_hash\<rparr>)" by simp
    ultimately show "\<exists>ty ins outs. tw_tx_type w = tx_type_byte ty
      \<and> list_all2 (input_declares C) (tw_inputs w) ins \<and> list_all2 (output_declares C mk_zk) (tw_outputs w) outs
      \<and> t = (let tx = \<lparr>tx_version = tw_version w, tx_chain_id = tw_chain_id w, tx_type = ty,
                 tx_inputs = ins, tx_outputs = outs, tx_fee = tw_fee w, tx_hash = zero_hash,
                 tx_poh_tick = tw_poh_tick w, tx_locktime = tw_locktime w,
                 tx_heartbeat_witnesses = tw_heartbeat_witnesses w\<rparr>
         in tx\<lparr>tx_hash := recompute_hash C tx\<rparr>)"
      by (intro exI [of _ "tx_type t"] exI [of _ "tx_inputs t"] exI [of _ "tx_outputs t"])
        (cases t, simp add: tx_declares_def)
  qed (auto simp: tx_declares_def Let_def simp del: recompute_hash_upd simp: recompute_hash_def tx_preimage_def)
  finally show ?thesis .
qed

lemma txs_decode_iff:
  "try_map (tx_wire_decode C mk_zk) ws = Ok ts \<longleftrightarrow>
     list_all2 (tx_declares C mk_zk) ws ts \<and> list_all (\<lambda>t. tx_hash t = recompute_hash C t) ts"
  by (auto simp: try_map_Ok_iff tx_decode_iff list_all2_conv_all_nth list_all_length)

lemma from_candidate_iff:
  "from_candidate C cand pv = Ok b \<longleftrightarrow>
     (cand_height cand = 0 \<or> pv_state_root pv \<noteq> StateRoot zero_hash \<and> pv_new_total_supply pv \<noteq> 0)
     \<and> blk_prev_hash b = cand_prev_hash cand \<and> blk_height b = cand_height cand
     \<and> blk_poh_tick_start b = cand_poh_tick_start cand \<and> blk_poh_tick_end b = cand_poh_tick_end cand
     \<and> blk_transactions_root b = compute_transactions_root C (cand_transactions cand)
     \<and> blk_transactions b = cand_transactions cand
     \<and> blk_state_root b = pv_state_root pv \<and> blk_total_supply b = pv_new_total_supply pv
     \<and> blk_block_hash b = block_compute_hash C b
     \<and> blk_block_size b = estimated_block_size (cand_transactions cand)
     \<and> blk_is_presence_block b = cand_is_presence_block cand
     \<and> blk_settlement_checkpoint b = cand_settlement_checkpoint cand"
  by (cases b) (auto simp: from_candidate_def Let_def block_compute_hash_def block_preimage_def word_gt_0)

lemma block_wire_decode_Ok:
  "block_wire_decode C mk_zk fmt w = Ok b \<longleftrightarrow>
     bw_wire_version w = WIRE_VERSION \<and> bw_block_size w \<le> MAX_WIRE_BLOCK_SIZE
     \<and> (\<exists>txs. try_map (tx_wire_decode C mk_zk) (bw_transactions w) = Ok txs
         \<and> from_candidate C (wire_candidate w txs) (wire_preview w) = Ok b \<and> blk_block_hash b = bw_block_hash w)"
proof -
  have "(case from_candidate C (wire_candidate w txs) (wire_preview w) of
          Err e \<Rightarrow> Err (Deserialization (fmt e)) | Panic \<Rightarrow> Panic
        | Ok block \<Rightarrow> if blk_block_hash block \<noteq> bw_block_hash w then Err (Deserialization ''block hash mismatch'') else Ok block)
      = Ok b \<longleftrightarrow> from_candidate C (wire_candidate w txs) (wire_preview w) = Ok b \<and> blk_block_hash b = bw_block_hash w" for txs
    by (cases "from_candidate C (wire_candidate w txs) (wire_preview w)") auto
  then show ?thesis by (simp add: block_wire_decode_def bind_result_Ok_iff linorder_not_less)
qed

lemma block_wire_decode_iff:
  "block_wire_decode C mk_zk fmt w = Ok b \<longleftrightarrow>
     bw_wire_version w = 9 \<and> bw_block_size w \<le> 16777216 \<and> block_declares C mk_zk w b
     \<and> list_all (\<lambda>t. tx_hash t = recompute_hash C t) (blk_transactions b)
     \<and> blk_transactions_root b = compute_transactions_root C (blk_transactions b)
     \<and> blk_block_hash b = block_compute_hash C b \<and> blk_block_size b = estimated_block_size (blk_transactions b)
     \<and> (bw_height w = 0 \<or> bw_state_root w \<noteq> zero_hash \<and> bw_total_supply w \<noteq> 0)"
  unfolding block_wire_decode_Ok txs_decode_iff from_candidate_iff
  by (auto simp: wire_candidate_def wire_preview_def block_declares_def WIRE_VERSION_def MAX_WIRE_BLOCK_SIZE_def)

section \<open>Which error a message gets\<close>

text \<open>The first fault of a transaction, in the order type, inputs, outputs, and the first of a list of transactions.\<close>

definition tx_fault :: "'pk crypto_api \<Rightarrow> 'dna tx_wire \<Rightarrow> wire_error option" where
  "tx_fault C w =
     (if tw_tx_type w \<notin> {0, 1, 2} then Some InvalidTxType
      else if \<exists>i \<in> set (tw_inputs w). pk_from_bytes C (iw_public_key i) = None
      then Some (Deserialization ''invalid input pubkey'')
      else if \<exists>v \<in> set (tw_outputs w). pk_from_bytes C (ow_owner v) = None
      then Some (Deserialization ''invalid output owner'')
      else None)"

fun first_fault :: "('a \<Rightarrow> 'e option) \<Rightarrow> 'a list \<Rightarrow> 'e option" where
  "first_fault fault [] = None"
| "first_fault fault (x # xs) = (case fault x of None \<Rightarrow> first_fault fault xs | Some e \<Rightarrow> Some e)"

text \<open>A decoder whose only errors are the faults, and a list of them.\<close>

definition fails_as :: "('a, 'e) result \<Rightarrow> 'e option \<Rightarrow> bool" where
  "fails_as r f \<longleftrightarrow> (case r of Ok _ \<Rightarrow> f = None | Err e \<Rightarrow> f = Some e | Panic \<Rightarrow> False)"

lemma fails_as_bind:
  assumes "fails_as r f" and "\<And>x. r = Ok x \<Longrightarrow> fails_as (k x) g"
  shows "fails_as (bind_result r k) (case f of None \<Rightarrow> g | Some e \<Rightarrow> Some e)"
  using assms by (cases r) (simp_all add: fails_as_def)

lemma fails_as_try_map:
  assumes "\<And>x. x \<in> set xs \<Longrightarrow> fails_as (f x) (fault x)"
  shows "fails_as (try_map f xs) (first_fault fault xs)"
  using assms
proof (induction xs)
  case (Cons x xs)
  have "fails_as (bind_result (try_map f xs) (\<lambda>ys. Ok (y # ys))) (first_fault fault xs)" for y
    using Cons by (cases "try_map f xs") (simp_all add: fails_as_def)
  moreover have "fails_as (f x) (fault x)" using Cons.prems by simp
  ultimately show ?case by (simp add: fails_as_bind)
qed (simp add: fails_as_def)

lemma first_fault_const:
  "first_fault (\<lambda>x. if P x then Some e else None) xs = (if \<exists>x \<in> set xs. P x then Some e else None)"
  by (induction xs) auto

lemma tx_fails_as: "fails_as (tx_wire_decode C mk_zk w) (tx_fault C w)"
proof -
  let ?in = "\<lambda>i. if pk_from_bytes C (iw_public_key i) = None then Some (Deserialization ''invalid input pubkey'') else None"
  let ?out = "\<lambda>v. if pk_from_bytes C (ow_owner v) = None then Some (Deserialization ''invalid output owner'') else None"
  have "fails_as (input_wire_decode C i) (?in i)" for i
    by (simp add: fails_as_def input_wire_decode_def split: option.splits)
  note ins = fails_as_try_map [of "tw_inputs w", OF this]
  have "fails_as (output_wire_decode C mk_zk v) (?out v)" for v
    by (simp add: fails_as_def output_wire_decode_def split: option.splits)
  note outs = fails_as_try_map [of "tw_outputs w", OF this]
  have ty: "fails_as (decode_tx_type (tw_tx_type w)) (if tw_tx_type w \<notin> {0, 1, 2} then Some InvalidTxType else None)"
    by (simp add: fails_as_def decode_tx_type_def)
  have "fails_as (tx_wire_decode C mk_zk w)
      (case (if tw_tx_type w \<notin> {0, 1, 2} then Some InvalidTxType else None) of
         None \<Rightarrow> (case first_fault ?in (tw_inputs w) of
            None \<Rightarrow> (case first_fault ?out (tw_outputs w) of None \<Rightarrow> None | Some e \<Rightarrow> Some e)
          | Some e \<Rightarrow> Some e)
       | Some e \<Rightarrow> Some e)"
    unfolding tx_wire_decode_def
    by (intro fails_as_bind ty ins outs) (simp add: fails_as_def Let_def)
  also have "(case (if tw_tx_type w \<notin> {0, 1, 2} then Some InvalidTxType else None) of
         None \<Rightarrow> (case first_fault ?in (tw_inputs w) of
            None \<Rightarrow> (case first_fault ?out (tw_outputs w) of None \<Rightarrow> None | Some e \<Rightarrow> Some e)
          | Some e \<Rightarrow> Some e)
       | Some e \<Rightarrow> Some e) = tx_fault C w"
    by (auto simp: tx_fault_def first_fault_const)
  finally show ?thesis .
qed

section \<open>Properties\<close>

text \<open>C15. \<open>wire_decode\<close> of a block returns exactly one block, and exactly then, when the version is 9, the declared
  size is at most 16 MiB, above height zero the state root and the supply are not zero, and the message
  declares the block: every field of the header (hash, link, height, ticks, state root, supply, presence
  flag, checkpoint) and of its transactions, inputs and outputs is the one of the message, with keys that
  parse, type codes 0, 1 and 2, proofs taken as Halo2 proofs, and no range identifiers. Nothing else is
  trusted: each transaction hash, the root, the size and the block hash of the result are the computed ones,
  so a message with a wrong block hash declares no block; its root and its size are not used.\<close>

theorem wire_decode_exact:
  "block_wire_decode C mk_zk fmt w = Ok b \<longleftrightarrow>
     bw_wire_version w = 9 \<and> bw_block_size w \<le> 16777216 \<and> block_declares C mk_zk w b
     \<and> list_all (\<lambda>t. tx_hash t = recompute_hash C t) (blk_transactions b)
     \<and> blk_transactions_root b = compute_transactions_root C (blk_transactions b)
     \<and> blk_block_hash b = block_compute_hash C b \<and> blk_block_size b = estimated_block_size (blk_transactions b)
     \<and> (bw_height w = 0 \<or> bw_state_root w \<noteq> zero_hash \<and> bw_total_supply w \<noteq> 0)"
  by (rule block_wire_decode_iff)

text \<open>C37. A message that is not decoded gets the error of the first check it fails, and decoding never panics: a
  wrong version, then a declared size above 16 MiB, then the first faulty transaction (an unknown type, then
  an input key that does not parse, then an output owner that does not parse), then a zero state root or a
  zero supply above height zero, and last a block hash that is not the computed one.\<close>

theorem wire_decode_errors:
  "block_wire_decode C mk_zk fmt w \<noteq> Panic
   \<and> (block_wire_decode C mk_zk fmt w = Err e \<longleftrightarrow>
       (if bw_wire_version w \<noteq> 9 then e = VersionMismatch
        else if 16777216 < bw_block_size w then e = BlockTooLarge
        else case first_fault (tx_fault C) (bw_transactions w) of
          Some f \<Rightarrow> e = f
        | None \<Rightarrow>
            if bw_state_root w = zero_hash \<and> 0 < bw_height w
            then e = Deserialization (fmt (ZeroStateRoot (bw_height w)))
            else if bw_total_supply w = 0 \<and> 0 < bw_height w
            then e = Deserialization (fmt (ZeroSupply (bw_height w) 0))
            else e = Deserialization ''block hash mismatch''
              \<and> (\<exists>b. block_declares C mk_zk (w\<lparr>bw_block_hash := blk_block_hash b\<rparr>) b
                    \<and> list_all (\<lambda>t. tx_hash t = recompute_hash C t) (blk_transactions b)
                    \<and> blk_transactions_root b = compute_transactions_root C (blk_transactions b)
                    \<and> block_compute_hash C b = blk_block_hash b
                    \<and> blk_block_size b = estimated_block_size (blk_transactions b)
                    \<and> blk_block_hash b \<noteq> bw_block_hash w)))"
proof -
  let ?d = "block_wire_decode C mk_zk fmt w"
  have txs: "fails_as (try_map (tx_wire_decode C mk_zk) (bw_transactions w)) (first_fault (tx_fault C) (bw_transactions w))"
    by (rule fails_as_try_map) (rule tx_fails_as)
  show ?thesis
  proof (cases "bw_wire_version w = 9 \<and> bw_block_size w \<le> 16777216")
    case False
    then show ?thesis by (auto simp: block_wire_decode_def WIRE_VERSION_def MAX_WIRE_BLOCK_SIZE_def)
  next
    case True
    then have d: "?d = bind_result (try_map (tx_wire_decode C mk_zk) (bw_transactions w)) (\<lambda>txs.
        case from_candidate C (wire_candidate w txs) (wire_preview w) of
          Err e \<Rightarrow> Err (Deserialization (fmt e)) | Panic \<Rightarrow> Panic
        | Ok block \<Rightarrow> if blk_block_hash block \<noteq> bw_block_hash w then Err (Deserialization ''block hash mismatch'') else Ok block)"
      by (simp add: block_wire_decode_def WIRE_VERSION_def MAX_WIRE_BLOCK_SIZE_def)
    show ?thesis
    proof (cases "try_map (tx_wire_decode C mk_zk) (bw_transactions w)")
      case (Err f)
      with txs have "first_fault (tx_fault C) (bw_transactions w) = Some f" by (simp add: fails_as_def)
      with Err d True show ?thesis by auto
    next
      case Panic
      with txs show ?thesis by (simp add: fails_as_def)
    next
      case (Ok txs)
      with \<open>fails_as _ _\<close> have none: "first_fault (tx_fault C) (bw_transactions w) = None" by (simp add: fails_as_def)
      let ?P = "\<lambda>b. block_declares C mk_zk (w\<lparr>bw_block_hash := blk_block_hash b\<rparr>) b
          \<and> list_all (\<lambda>t. tx_hash t = recompute_hash C t) (blk_transactions b)
          \<and> blk_transactions_root b = compute_transactions_root C (blk_transactions b)
          \<and> block_compute_hash C b = blk_block_hash b
          \<and> blk_block_size b = estimated_block_size (blk_transactions b)"
      have P: "from_candidate C (wire_candidate w txs) (wire_preview w) = Ok b \<longleftrightarrow> ?P b"
        if "bw_height w = 0 \<or> bw_state_root w \<noteq> zero_hash \<and> bw_total_supply w \<noteq> 0" for b
      proof
        assume "from_candidate C (wire_candidate w txs) (wire_preview w) = Ok b"
        with Ok show "?P b"
          unfolding txs_decode_iff from_candidate_iff
          by (auto simp: wire_candidate_def wire_preview_def block_declares_def)
      next
        assume p: "?P b"
        then have "try_map (tx_wire_decode C mk_zk) (bw_transactions w) = Ok (blk_transactions b)"
          unfolding txs_decode_iff by (simp add: block_declares_def)
        with Ok have "blk_transactions b = txs" by simp
        with p that show "from_candidate C (wire_candidate w txs) (wire_preview w) = Ok b"
          unfolding from_candidate_iff
          by (auto simp: wire_candidate_def wire_preview_def block_declares_def)
      qed
      consider "bw_state_root w = zero_hash \<and> 0 < bw_height w"
        | "bw_total_supply w = 0 \<and> 0 < bw_height w" "\<not> (bw_state_root w = zero_hash \<and> 0 < bw_height w)"
        | "bw_height w = 0 \<or> bw_state_root w \<noteq> zero_hash \<and> bw_total_supply w \<noteq> 0"
        by (auto simp: word_gt_0)
      then show ?thesis
      proof cases
        case 1
        then show ?thesis
          using d Ok none True by (auto simp: from_candidate_def wire_candidate_def wire_preview_def)
      next
        case 2
        then show ?thesis
          using d Ok none True by (auto simp: from_candidate_def wire_candidate_def wire_preview_def)
      next
        case 3
        then obtain b where b: "from_candidate C (wire_candidate w txs) (wire_preview w) = Ok b"
          by (auto simp: from_candidate_def wire_candidate_def wire_preview_def Let_def)
        have only: "?P b' \<longleftrightarrow> b' = b" for b' using P [OF 3, of b'] b by auto
        have "?d = (if blk_block_hash b \<noteq> bw_block_hash w then Err (Deserialization ''block hash mismatch'') else Ok b)"
          using d Ok b by simp
        moreover have "(\<exists>b'. ?P b' \<and> blk_block_hash b' \<noteq> bw_block_hash w) \<longleftrightarrow> blk_block_hash b \<noteq> bw_block_hash w"
          unfolding only by blast
        ultimately show ?thesis using none True 3 by (auto simp: word_gt_0)
      qed
    qed
  qed
qed

section \<open>A sample message\<close>

lemma tx_compute_hash_sealed: "tx_hash (tx_compute_hash C t) = recompute_hash C (tx_compute_hash C t)"
  by (simp add: tx_compute_hash_def)

definition sample_wire_output :: "unit tx_output_wire" where
  "sample_wire_output =
     \<lparr>ow_amount = 7, ow_owner = [3], ow_amount_commitment = [], ow_tag_commitment = [], ow_nullifier = [4],
      ow_serial = 1, ow_zk_proof = [9], ow_tx_hash = [], ow_view_key_public = [], ow_encrypted_amount = [],
      ow_auth_tag = [], ow_restriction_level = 0, ow_output_index = 0, ow_taint_distance = 0,
      ow_taint_origin = 0, ow_taint_timestamp = 0, ow_dna = ()\<rparr>"

definition sample_tx_wire :: "unit tx_wire" where
  "sample_tx_wire =
     \<lparr>tw_version = 1, tw_chain_id = 2, tw_tx_type = 1, tw_inputs = [], tw_outputs = [sample_wire_output],
      tw_fee = 0, tw_poh_tick = 0, tw_locktime = 0, tw_heartbeat_witnesses = []\<rparr>"

definition sample_declared_tx :: "(u8, unit, unit) transaction" where
  "sample_declared_tx = tx_compute_hash sample_crypto
     \<lparr>tx_version = 1, tx_chain_id = 2, tx_type = Coinbase, tx_inputs = [],
      tx_outputs = [\<lparr>out_amount = 7, out_owner = 3, out_amount_commitment = [], out_tag_commitment = [],
        out_nullifier = [4], out_serial = 1, out_zk_proof = (), out_tx_hash = [], out_view_key_public = [],
        out_encrypted_amount = [], out_auth_tag = [], out_restriction_level = 0, out_output_index = 0,
        out_taint_distance = 0, out_taint_origin = 0, out_taint_timestamp = 0, out_dna = (),
        out_dna_range_id = None\<rparr>],
      tx_fee = 0, tx_hash = zero_hash, tx_poh_tick = 0, tx_locktime = 0, tx_heartbeat_witnesses = []\<rparr>"

definition sample_wire_block :: "(u8, unit, unit) block" where
  "sample_wire_block = block_new sample_crypto zero_hash 1 0 9 [sample_declared_tx] [1] 5"

definition sample_block_wire :: "unit block_wire" where
  "sample_block_wire =
     \<lparr>bw_wire_version = 9, bw_block_hash = blk_block_hash sample_wire_block, bw_prev_hash = zero_hash, bw_height = 1,
      bw_poh_tick_start = 0, bw_poh_tick_end = 9, bw_transactions_root = [1],
      bw_transactions = [sample_tx_wire], bw_state_root = [1], bw_total_supply = 5,
      bw_is_presence_block = True, bw_block_size = 0, bw_settlement_checkpoint = None\<rparr>"

lemma sample_tx_declared: "tx_declares sample_crypto (\<lambda>_. ()) sample_tx_wire sample_declared_tx"
  by (simp add: tx_declares_def sample_tx_wire_def sample_declared_tx_def tx_compute_hash_def output_declares_def
      sample_wire_output_def sample_crypto_def)

theorem wire_decode_exact_witness:
  "block_wire_decode sample_crypto (\<lambda>_. ()) (\<lambda>_. []) sample_block_wire = Ok sample_wire_block"
proof -
  have "block_declares sample_crypto (\<lambda>_. ()) sample_block_wire sample_wire_block"
    by (simp add: block_declares_def sample_block_wire_def sample_wire_block_def block_new_def Let_def sample_tx_declared)
  moreover have "tx_hash sample_declared_tx = recompute_hash sample_crypto sample_declared_tx"
    unfolding sample_declared_tx_def by (rule tx_compute_hash_sealed)
  moreover have "[1] \<noteq> zero_hash" by (simp add: zero_hash_def numeral_eq_Suc)
  ultimately show ?thesis
    unfolding wire_decode_exact
    by (auto simp: sample_block_wire_def sample_wire_block_def block_new_def Let_def block_compute_hash_def block_preimage_def
        estimated_block_size_def)
qed

end
