(* ===== verification/Wire_Zero_Copy.thy ===== *)
theory Wire_Zero_Copy
  imports Prelude "HOL-Library.Sublist"
begin

text \<open>
  \<open>crates/aevum-core/src/wire_zero_copy.rs\<close>: the bounds-checked cursor, the views of a block header
  and of a transaction, the lazy iterator over a block's transactions and the fast checks. A cursor
  operation takes the cursor and returns the value with the advanced cursor; on \<^term>\<open>None\<close> every
  caller in the source returns at once and drops the cursor. \<open>cbind\<close> is the source's sequence of
  statements, each with its \<open>?\<close>.

  The wire format that the module's comment describes is written down as an encoding
  (\<open>encode_tx\<close>, \<open>encode_header\<close>). The locale \<open>decoder\<close> states that a cursor operation accepts exactly the
  byte strings of a language and returns the value of the string it consumed; it is proved for each
  operation from those it calls, and interpreted for the transaction parser.
\<close>

section \<open>The cursor\<close>

definition EXPECTED_WIRE_VERSION :: u16 where "EXPECTED_WIRE_VERSION = 5"
definition BLOCK_HEADER_SIZE :: nat where "BLOCK_HEADER_SIZE = 2 + 32 + 32 + 8 + 8 + 8 + 32 + 4"

record cursor =
  cur_data :: bytes
  cur_pos :: nat

type_synonym 'a reader = "cursor \<Rightarrow> ('a \<times> cursor) option"

definition cursor_new :: "bytes \<Rightarrow> cursor" where
  "cursor_new d = \<lparr>cur_data = d, cur_pos = 0\<rparr>"

definition cursor_remaining :: "cursor \<Rightarrow> nat" where
  "cursor_remaining c = length (cur_data c) - cur_pos c"

definition cur_read :: "nat \<Rightarrow> bytes reader" where
  "cur_read n c =
     (let stop = cur_pos c + n
      in if length (cur_data c) < stop then None
         else Some (take n (drop (cur_pos c) (cur_data c)), c\<lparr>cur_pos := stop\<rparr>))"

definition cbind :: "'a reader \<Rightarrow> ('a \<Rightarrow> 'b reader) \<Rightarrow> 'b reader" where
  "cbind p q c = (case p c of None \<Rightarrow> None | Some (v, c') \<Rightarrow> q v c')"

definition cret :: "'a \<Rightarrow> 'a reader" where
  "cret v c = Some (v, c)"

definition cfail :: "'a reader" where
  "cfail c = None"

definition cur_u8 :: "u8 reader" where
  "cur_u8 = cbind (cur_read 1) (\<lambda>bs. cret (bs ! 0))"

definition cur_u16 :: "u16 reader" where
  "cur_u16 = cbind (cur_read 2) (\<lambda>bs. cret (from_le_bytes bs))"

definition cur_u32 :: "u32 reader" where
  "cur_u32 = cbind (cur_read 4) (\<lambda>bs. cret (from_le_bytes bs))"

definition cur_u64 :: "u64 reader" where
  "cur_u64 = cbind (cur_read 8) (\<lambda>bs. cret (from_le_bytes bs))"

definition cur_hash :: "hash reader" where
  "cur_hash = cur_read 32"

definition cur_slice :: "nat \<Rightarrow> bytes reader" where
  "cur_slice len = cur_read len"

definition cur_skip :: "nat \<Rightarrow> unit reader" where
  "cur_skip n c =
     (let stop = cur_pos c + n
      in if length (cur_data c) < stop then None else Some ((), c\<lparr>cur_pos := stop\<rparr>))"

fun skip_inputs :: "nat \<Rightarrow> unit reader" where
  "skip_inputs 0 = cret ()"
| "skip_inputs (Suc k) =
     cbind (cur_skip (32 + 4 + 32)) (\<lambda>_.
     cbind cur_u32 (\<lambda>sig_len.
     cbind (cur_skip (unat sig_len)) (\<lambda>_.
     cbind (cur_skip (32 + 32 + 8)) (\<lambda>_. skip_inputs k))))"

fun skip_outputs :: "nat \<Rightarrow> unit reader" where
  "skip_outputs 0 = cret ()"
| "skip_outputs (Suc k) =
     cbind (cur_skip 8) (\<lambda>_.
     cbind (cur_skip 32) (\<lambda>_.
     cbind (cur_skip 32) (\<lambda>_.
     cbind (cur_skip 32) (\<lambda>_.
     cbind (cur_skip 32) (\<lambda>_.
     cbind (cur_skip 8) (\<lambda>_.
     cbind cur_u32 (\<lambda>zk_len.
     cbind (cur_skip (unat zk_len)) (\<lambda>_.
     cbind (cur_skip 32) (\<lambda>_.
     cbind (cur_skip 32) (\<lambda>_.
     cbind (cur_skip 8) (\<lambda>_.
     cbind (cur_skip 8) (\<lambda>_.
     cbind (cur_skip 8) (\<lambda>_.
     cbind (cur_skip 4) (\<lambda>_. skip_outputs k))))))))))))))"

fun skip_n_witnesses :: "nat \<Rightarrow> unit reader" where
  "skip_n_witnesses 0 = cret ()"
| "skip_n_witnesses (Suc k) =
     cbind cur_u32 (\<lambda>len. cbind (cur_skip (unat len)) (\<lambda>_. skip_n_witnesses k))"

definition skip_witnesses :: "unit reader" where
  "skip_witnesses = cbind cur_u32 (\<lambda>count. skip_n_witnesses (unat count))"

section \<open>Views\<close>

record block_view =
  bv_height :: u64
  bv_poh_start :: u64
  bv_poh_end :: u64
  bv_prev_hash :: hash
  bv_block_hash :: hash
  bv_tx_count :: u32
  bv_raw :: bytes

definition block_header_reader :: "bytes \<Rightarrow> block_view reader" where
  "block_header_reader d =
     cbind cur_u16 (\<lambda>version.
     if version \<noteq> EXPECTED_WIRE_VERSION then cfail else
     cbind cur_hash (\<lambda>block_hash.
     cbind cur_hash (\<lambda>prev_hash.
     cbind cur_u64 (\<lambda>height.
     cbind cur_u64 (\<lambda>poh_start.
     cbind cur_u64 (\<lambda>poh_end.
     cbind cur_hash (\<lambda>_.
     cbind cur_u32 (\<lambda>tx_count.
     cret \<lparr>bv_height = height, bv_poh_start = poh_start, bv_poh_end = poh_end, bv_prev_hash = prev_hash,
           bv_block_hash = block_hash, bv_tx_count = tx_count, bv_raw = d\<rparr>))))))))"

definition block_view_parse :: "bytes \<Rightarrow> block_view option" where
  "block_view_parse d = map_option fst (block_header_reader d (cursor_new d))"

definition bv_has_transactions :: "block_view \<Rightarrow> bool" where
  "bv_has_transactions v \<longleftrightarrow> 0 < bv_tx_count v"

definition bv_is_genesis :: "block_view \<Rightarrow> bool" where
  "bv_is_genesis v \<longleftrightarrow> bv_height v = 0"

record tx_view =
  tv_tx_hash :: hash
  tv_fee :: u64
  tv_poh_tick :: u64
  tv_locktime :: u64
  tv_tx_type :: u8
  tv_input_count :: u32
  tv_output_count :: u32
  tv_parsed_len :: nat
  tv_raw :: bytes

text \<open>The statements of \<open>TxView::parse\<close> up to \<open>skip_witnesses\<close>, returning what was read.\<close>

definition tx_reader :: "(u8 \<times> u32 \<times> u32 \<times> u64 \<times> hash \<times> u64 \<times> u64) reader" where
  "tx_reader =
     cbind cur_u16 (\<lambda>version.
     if version \<noteq> EXPECTED_WIRE_VERSION then cfail else
     cbind cur_u32 (\<lambda>_.
     cbind cur_u32 (\<lambda>_.
     cbind cur_u8 (\<lambda>ty.
     cbind cur_u32 (\<lambda>input_count.
     cbind (skip_inputs (unat input_count)) (\<lambda>_.
     cbind cur_u32 (\<lambda>output_count.
     cbind (skip_outputs (unat output_count)) (\<lambda>_.
     cbind cur_u64 (\<lambda>fee.
     cbind cur_hash (\<lambda>hash.
     cbind cur_u64 (\<lambda>poh_tick.
     cbind cur_u64 (\<lambda>locktime.
     cbind skip_witnesses (\<lambda>_.
     cret (ty, input_count, output_count, fee, hash, poh_tick, locktime))))))))))))))"

definition tx_view_parse :: "bytes \<Rightarrow> tx_view option" where
  "tx_view_parse d =
     (case tx_reader (cursor_new d) of None \<Rightarrow> None
      | Some ((ty, ic, oc, fee, hash, poh_tick, locktime), c) \<Rightarrow>
          Some \<lparr>tv_tx_hash = hash, tv_fee = fee, tv_poh_tick = poh_tick, tv_locktime = locktime,
                tv_tx_type = ty, tv_input_count = ic, tv_output_count = oc,
                tv_parsed_len = cur_pos c, tv_raw = take (cur_pos c) d\<rparr>)"

definition tv_has_inputs :: "tx_view \<Rightarrow> bool" where "tv_has_inputs v \<longleftrightarrow> 0 < tv_input_count v"
definition tv_has_outputs :: "tx_view \<Rightarrow> bool" where "tv_has_outputs v \<longleftrightarrow> 0 < tv_output_count v"
definition tv_size :: "tx_view \<Rightarrow> nat" where "tv_size v = tv_parsed_len v"
definition tv_is_coinbase :: "tx_view \<Rightarrow> bool" where
  "tv_is_coinbase v \<longleftrightarrow> tv_input_count v = 0 \<and> 0 < tv_output_count v"
definition tv_is_heartbeat :: "tx_view \<Rightarrow> bool" where "tv_is_heartbeat v \<longleftrightarrow> tv_tx_type v = 2"

section \<open>The iterator\<close>

record block_tx_iter =
  it_cursor :: cursor
  it_remaining :: u32

definition iter_new :: "bytes \<Rightarrow> nat \<Rightarrow> u32 \<Rightarrow> block_tx_iter option" where
  "iter_new d offset tx_count =
     (if length d < offset then None
      else Some \<lparr>it_cursor = cursor_new (drop offset d), it_remaining = tx_count\<rparr>)"

definition iter_next :: "block_tx_iter \<Rightarrow> (tx_view \<times> block_tx_iter) option" where
  "iter_next it =
     (if it_remaining it = 0 then None
      else let start = cur_pos (it_cursor it)
           in if length (cur_data (it_cursor it)) < start then None
              else (case tx_view_parse (drop start (cur_data (it_cursor it))) of None \<Rightarrow> None
                | Some tx \<Rightarrow>
                    (case cur_skip (tv_parsed_len tx) (it_cursor it) of None \<Rightarrow> None
                     | Some (_, c) \<Rightarrow> Some (tx, \<lparr>it_cursor = c, it_remaining = it_remaining it - 1\<rparr>))))"

text \<open>\<open>collect\<close>: the items up to the first \<open>None\<close>; the remaining count is the measure.\<close>

function iter_collect :: "block_tx_iter \<Rightarrow> tx_view list" where
  "iter_collect it = (case iter_next it of None \<Rightarrow> [] | Some (tx, it') \<Rightarrow> tx # iter_collect it')"
  by pat_completeness auto
termination
proof (relation "measure (\<lambda>it. unat (it_remaining it))", goal_cases)
  case (2 it p tx it')
  then have "it_remaining it \<noteq> 0" and "it_remaining it' = it_remaining it - 1"
    by (auto simp: iter_next_def Let_def split: if_splits option.splits)
  then show ?case by (simp add: unat_minus_one) (simp add: unat_gt_0)
qed simp

declare iter_collect.simps [simp del]

section \<open>Fast checks\<close>

definition check_block_size :: "bytes \<Rightarrow> nat \<Rightarrow> bool" where
  "check_block_size d mx \<longleftrightarrow> length d \<le> mx"

definition fee_reader :: "u64 reader" where
  "fee_reader =
     cbind cur_u16 (\<lambda>v.
     if v \<noteq> EXPECTED_WIRE_VERSION then cfail else
     cbind cur_u32 (\<lambda>_.
     cbind cur_u32 (\<lambda>_.
     cbind (cur_skip 1) (\<lambda>_.
     cbind cur_u32 (\<lambda>ic.
     cbind (skip_inputs (unat ic)) (\<lambda>_.
     cbind cur_u32 (\<lambda>oc.
     cbind (skip_outputs (unat oc)) (\<lambda>_. cur_u64))))))))"

definition check_min_fee :: "bytes \<Rightarrow> u64 \<Rightarrow> bool" where
  "check_min_fee d min_fee =
     (case fee_reader (cursor_new d) of Some (fee, _) \<Rightarrow> min_fee \<le> fee | None \<Rightarrow> False)"

definition check_tx_size :: "bytes \<Rightarrow> nat \<Rightarrow> bool" where
  "check_tx_size d mx \<longleftrightarrow> length d \<le> mx"

definition check_not_empty :: "bytes \<Rightarrow> bool" where
  "check_not_empty d \<longleftrightarrow> BLOCK_HEADER_SIZE < length d"


section \<open>What a reader accepts\<close>

definition cur_ok :: "cursor \<Rightarrow> bool" where
  "cur_ok c \<longleftrightarrow> cur_pos c \<le> length (cur_data c)"

definition cur_rest :: "cursor \<Rightarrow> bytes" where
  "cur_rest c = drop (cur_pos c) (cur_data c)"

definition advance :: "nat \<Rightarrow> cursor \<Rightarrow> cursor" where
  "advance n c = c\<lparr>cur_pos := cur_pos c + n\<rparr>"

text \<open>\<open>E\<close> is the language of the reader: the pairs of a value and the bytes it is read from.\<close>

locale decoder =
  fixes p :: "'a reader" and E :: "('a \<times> bytes) set"
  assumes decodes: "cur_ok c \<Longrightarrow> p c = Some (v, c') \<longleftrightarrow>
    (\<exists>bs. (v, bs) \<in> E \<and> prefix bs (cur_rest c) \<and> c' = advance (length bs) c)"
begin

lemma reads_encoding: "(v, bs) \<in> E \<Longrightarrow> p (cursor_new (bs @ r)) = Some (v, advance (length bs) (cursor_new (bs @ r)))"
  by (subst decodes) (auto simp: cursor_new_def cur_ok_def cur_rest_def)

lemma reads_only_encodings:
  "p (cursor_new d) = Some (v, c) \<Longrightarrow> \<exists>bs r. (v, bs) \<in> E \<and> d = bs @ r \<and> cur_pos c = length bs"
  using decodes [of "cursor_new d" v c]
  by (auto simp: cursor_new_def cur_ok_def cur_rest_def advance_def prefix_def)

end

text \<open>The language of a sequence.\<close>

definition then_lang :: "('a \<times> bytes) set \<Rightarrow> ('a \<Rightarrow> ('b \<times> bytes) set) \<Rightarrow> ('b \<times> bytes) set" where
  "then_lang E F = {(w, bs @ cs) |w bs cs. \<exists>v. (v, bs) \<in> E \<and> (w, cs) \<in> F v}"

lemma then_lang_iff: "(w, ds) \<in> then_lang E F \<longleftrightarrow> (\<exists>v bs cs. (v, bs) \<in> E \<and> (w, cs) \<in> F v \<and> ds = bs @ cs)"
  by (auto simp: then_lang_def)

lemma prefix_append_iff: "prefix (bs @ cs) r \<longleftrightarrow> prefix bs r \<and> prefix cs (drop (length bs) r)"
  by (auto simp: prefix_def)

lemma advance_simps [simp]:
  "cur_rest (advance n c) = drop n (cur_rest c)" "advance m (advance n c) = advance (n + m) c"
  "advance 0 c = c"
  by (simp_all add: advance_def cur_rest_def add.commute add.assoc)

lemma advance_ok: "cur_ok c \<Longrightarrow> prefix bs (cur_rest c) \<Longrightarrow> cur_ok (advance (length bs) c)"
  by (auto simp: cur_ok_def cur_rest_def advance_def dest: prefix_length_le)

lemma decoder_cbind:
  assumes "decoder p E" and "\<And>v. decoder (q v) (F v)"
  shows "decoder (cbind p q) (then_lang E F)"
proof
  fix c c' w
  assume ok: "cur_ok c"
  have "cbind p q c = Some (w, c') \<longleftrightarrow> (\<exists>v c1. p c = Some (v, c1) \<and> q v c1 = Some (w, c'))"
    by (auto simp: cbind_def split: option.splits)
  also have "\<dots> \<longleftrightarrow> (\<exists>v bs. (v, bs) \<in> E \<and> prefix bs (cur_rest c) \<and> q v (advance (length bs) c) = Some (w, c'))"
    unfolding decoder.decodes [OF assms(1) ok] by blast
  also have "\<dots> \<longleftrightarrow> (\<exists>v bs cs. (v, bs) \<in> E \<and> (w, cs) \<in> F v \<and> prefix (bs @ cs) (cur_rest c)
      \<and> c' = advance (length (bs @ cs)) c)"
  proof -
    have "prefix bs (cur_rest c) \<Longrightarrow> q v (advance (length bs) c) = Some (w, c') \<longleftrightarrow>
        (\<exists>cs. (w, cs) \<in> F v \<and> prefix cs (drop (length bs) (cur_rest c)) \<and> c' = advance (length bs + length cs) c)"
      for v bs
      using decoder.decodes [OF assms(2) advance_ok [OF ok]] by simp
    then show ?thesis by (simp add: prefix_append_iff cong: conj_cong) blast
  qed
  finally show "cbind p q c = Some (w, c') \<longleftrightarrow>
      (\<exists>bs. (w, bs) \<in> then_lang E F \<and> prefix bs (cur_rest c) \<and> c' = advance (length bs) c)"
    unfolding then_lang_iff by blast
qed

definition skip_lang :: "nat \<Rightarrow> (unit \<times> bytes) set" where
  "skip_lang n = {((), bs) |bs. length bs = n}"

definition word_lang :: "nat \<Rightarrow> ('a::len word \<times> bytes) set" where
  "word_lang n = {(w, le_bytes n w) |w. True}"

definition hash_lang :: "(hash \<times> bytes) set" where
  "hash_lang = {(bs, bs) |bs. length bs = 32}"

definition byte_lang :: "(u8 \<times> bytes) set" where
  "byte_lang = {(w, [w]) |w. True}"

lemma decoder_cret: "decoder (cret v) {(v, [])}"
  by unfold_locales (auto simp: cret_def)

lemma decoder_cfail: "decoder cfail {}"
  by unfold_locales (simp add: cfail_def)

lemma decoder_read: "decoder (cur_read n) {(bs, bs) |bs. length bs = n}"
proof
  fix c c' v
  assume "cur_ok c"
  moreover have "prefix v (cur_rest c) \<longleftrightarrow> length v \<le> length (cur_rest c) \<and> take (length v) (cur_rest c) = v"
    by (metis append_take_drop_id prefix_def prefix_length_le take_is_prefix append_eq_conv_conj)
  ultimately show "cur_read n c = Some (v, c') \<longleftrightarrow>
      (\<exists>bs. (v, bs) \<in> {(bs, bs) |bs. length bs = n} \<and> prefix bs (cur_rest c) \<and> c' = advance (length bs) c)"
    by (auto simp: cur_read_def Let_def cur_ok_def cur_rest_def advance_def)
qed

lemma decoder_skip: "decoder (cur_skip n) (skip_lang n)"
proof -
  have "cur_skip n = cbind (cur_read n) (\<lambda>_. cret ())"
    by (auto simp: fun_eq_iff cur_skip_def cbind_def cur_read_def cret_def Let_def)
  moreover have "then_lang {(bs, bs) |bs. length bs = n} (\<lambda>_. {((), [])}) = skip_lang n"
    by (auto simp: then_lang_def skip_lang_def)
  ultimately show ?thesis using decoder_cbind [OF decoder_read decoder_cret, of n "\<lambda>_. ()"] by simp
qed

lemma then_lang_word:
  assumes "8 * n = LENGTH('a)"
  shows "then_lang {(bs, bs) |bs. length bs = n} (\<lambda>bs. {(from_le_bytes bs :: 'a::len word, [])})
    = word_lang n"
proof -
  have "bs = le_bytes n (from_le_bytes bs :: 'a word)" if "length bs = n" for bs
    using le_bytes_from_le_bytes [of bs, where 'a = 'a] that assms by simp
  moreover have "from_le_bytes (le_bytes n w) = w" for w :: "'a word"
    using assms by (simp add: le_bytes_roundtrip)
  ultimately show ?thesis by (fastforce simp: then_lang_def word_lang_def)
qed

lemma decoder_word:
  assumes "8 * n = LENGTH('a)"
  shows "decoder (cbind (cur_read n) (\<lambda>bs. cret (from_le_bytes bs :: 'a::len word))) (word_lang n)"
  using decoder_cbind [OF decoder_read decoder_cret, of n "\<lambda>bs. from_le_bytes bs :: 'a word"]
  unfolding then_lang_word [OF assms] .

lemma decoder_u16: "decoder cur_u16 (word_lang 2)"
  unfolding cur_u16_def by (rule decoder_word) simp

lemma decoder_u32: "decoder cur_u32 (word_lang 4)"
  unfolding cur_u32_def by (rule decoder_word) simp

lemma decoder_u64: "decoder cur_u64 (word_lang 8)"
  unfolding cur_u64_def by (rule decoder_word) simp

lemma decoder_u8: "decoder cur_u8 byte_lang"
proof -
  have "then_lang {(bs, bs) |bs. length bs = 1} (\<lambda>bs. {(bs ! 0, [])}) = byte_lang"
    by (auto simp: then_lang_def byte_lang_def length_Suc_conv)
  then show ?thesis
    using decoder_cbind [OF decoder_read decoder_cret, of 1 "\<lambda>bs. bs ! 0"] by (simp add: cur_u8_def)
qed

lemma decoder_hash: "decoder cur_hash hash_lang"
  unfolding cur_hash_def hash_lang_def by (rule decoder_read)

lemmas decoders = decoder_cbind decoder_cret decoder_cfail decoder_skip decoder_u8 decoder_u16
  decoder_u32 decoder_u64 decoder_hash

section \<open>The wire format\<close>

text \<open>Each variable-length field is preceded by its 32-bit length; the fixed parts around it are kept
  as byte strings of the right length.\<close>

record wire_item =
  wi_head :: bytes
  wi_body :: bytes
  wi_tail :: bytes

definition encode_item :: "wire_item \<Rightarrow> bytes" where
  "encode_item i = wi_head i @ le32 (of_nat (length (wi_body i))) @ wi_body i @ wi_tail i"

definition item_ok :: "nat \<Rightarrow> nat \<Rightarrow> wire_item \<Rightarrow> bool" where
  "item_ok h t i \<longleftrightarrow> length (wi_head i) = h \<and> length (wi_tail i) = t \<and> length (wi_body i) < 2 ^ 32"

definition items_lang :: "nat \<Rightarrow> nat \<Rightarrow> nat \<Rightarrow> (unit \<times> bytes) set" where
  "items_lang h t n = {((), concat (map encode_item is)) |is. length is = n \<and> list_all (item_ok h t) is}"

lemma items_lang_0: "items_lang h t 0 = {((), [])}"
  by (auto simp: items_lang_def)

lemma unat_of_nat_u32: "n < 2 ^ 32 \<Longrightarrow> unat (of_nat n :: u32) = n"
  by (simp add: unat_of_nat)

lemma then_skip:
  "(w, ds) \<in> then_lang (skip_lang n) F \<longleftrightarrow> (\<exists>b r. length b = n \<and> ds = b @ r \<and> (w, r) \<in> F ())"
  by (auto simp: then_lang_iff skip_lang_def)

lemma then_word:
  "(w, ds) \<in> then_lang (word_lang k) F \<longleftrightarrow> (\<exists>x r. ds = le_bytes k x @ r \<and> (w, r) \<in> F x)"
  by (auto simp: then_lang_iff word_lang_def)

lemma then_hash:
  "(w, ds) \<in> then_lang hash_lang F \<longleftrightarrow> (\<exists>x r. length x = 32 \<and> ds = x @ r \<and> (w, r) \<in> F x)"
  by (auto simp: then_lang_iff hash_lang_def)

lemma then_byte:
  "(w, ds) \<in> then_lang byte_lang F \<longleftrightarrow> (\<exists>x r. ds = x # r \<and> (w, r) \<in> F x)"
  by (auto simp: then_lang_iff byte_lang_def)

lemma cbind_skip_skip: "cbind (cur_skip m) (\<lambda>_. cbind (cur_skip n) q) = cbind (cur_skip (m + n)) q"
  by (auto simp: fun_eq_iff cbind_def cur_skip_def Let_def add.assoc)

lemma items_lang_Suc:
  "(u, bs) \<in> items_lang h t (Suc n) \<longleftrightarrow>
     (\<exists>a r1. length a = h \<and> bs = a @ r1 \<and> (\<exists>(w :: u32) r2. r1 = le32 w @ r2 \<and>
       (\<exists>b r3. length b = unat w \<and> r2 = b @ r3 \<and> (\<exists>c r4. length c = t \<and> r3 = c @ r4
          \<and> (u, r4) \<in> items_lang h t n))))" (is "?L \<longleftrightarrow> ?R")
proof
  assume ?L
  then obtain i "is" where i: "item_ok h t i" "length is = n" "list_all (item_ok h t) is"
      "bs = encode_item i @ concat (map encode_item is)"
    by (auto simp: items_lang_def length_Suc_conv)
  let ?r = "concat (map encode_item is)" and ?w = "of_nat (length (wi_body i)) :: u32"
  have w: "unat ?w = length (wi_body i)" using i(1) by (simp add: item_ok_def unat_of_nat_u32)
  have "\<exists>c r4. length c = t \<and> wi_tail i @ ?r = c @ r4 \<and> (u, r4) \<in> items_lang h t n"
    using i by (intro exI [of _ "wi_tail i"] exI [of _ ?r]) (auto simp: item_ok_def items_lang_def)
  then have "\<exists>b r3. length b = unat ?w \<and> wi_body i @ wi_tail i @ ?r = b @ r3
      \<and> (\<exists>c r4. length c = t \<and> r3 = c @ r4 \<and> (u, r4) \<in> items_lang h t n)"
    using w by metis
  then have "\<exists>(w :: u32) r2. le32 ?w @ wi_body i @ wi_tail i @ ?r = le32 w @ r2 \<and>
      (\<exists>b r3. length b = unat w \<and> r2 = b @ r3 \<and> (\<exists>c r4. length c = t \<and> r3 = c @ r4 \<and> (u, r4) \<in> items_lang h t n))"
    by metis
  moreover have "bs = wi_head i @ le32 ?w @ wi_body i @ wi_tail i @ ?r" and "length (wi_head i) = h"
    using i(1,4) by (simp_all add: encode_item_def item_ok_def)
  ultimately show ?R by blast
next
  assume ?R
  then obtain a w b c r where *: "length a = h" "length b = unat (w :: u32)" "length c = t"
      "(u, r) \<in> items_lang h t n" "bs = a @ le32 w @ b @ c @ r" by auto
  let ?i = "\<lparr>wi_head = a, wi_body = b, wi_tail = c\<rparr>"
  from *(4) obtain "is" where "length is = n" "list_all (item_ok h t) is" "r = concat (map encode_item is)"
    by (auto simp: items_lang_def)
  moreover have "item_ok h t ?i" using * unat_lt_pow [of w] by (simp add: item_ok_def)
  moreover have "bs = encode_item ?i @ r" using * by (simp add: encode_item_def)
  ultimately show ?L unfolding items_lang_def by (auto intro!: exI [of _ "?i # is"])
qed

lemma decoder_items:
  assumes "decoder q (items_lang h t n)"
  shows "decoder (cbind (cur_skip h) (\<lambda>_. cbind cur_u32 (\<lambda>l. cbind (cur_skip (unat l + t)) (\<lambda>_. q))))
    (items_lang h t (Suc n))"
proof -
  have "items_lang h t (Suc n) = then_lang (skip_lang h) (\<lambda>_. then_lang (word_lang 4) (\<lambda>l :: u32.
      then_lang (skip_lang (unat l)) (\<lambda>_. then_lang (skip_lang t) (\<lambda>_. items_lang h t n))))"
    by (simp only: set_eq_iff split_paired_All items_lang_Suc then_skip then_word simp_thms)
  then show ?thesis by (simp only: flip: cbind_skip_skip) (intro decoders assms)
qed

lemma decoder_inputs: "decoder (skip_inputs n) (items_lang 68 72 n)"
  by (induction n) (simp_all add: items_lang_0 decoder_cret decoder_items cbind_skip_skip)

lemma decoder_outputs: "decoder (skip_outputs n) (items_lang 144 92 n)"
  by (induction n) (simp_all add: items_lang_0 decoder_cret decoder_items cbind_skip_skip)

lemma decoder_n_witnesses: "decoder (skip_n_witnesses n) (items_lang 0 0 n)"
proof (induction n)
  case 0
  then show ?case by (simp add: items_lang_0 decoder_cret)
next
  case (Suc n)
  have "items_lang 0 0 (Suc n) = then_lang (word_lang 4) (\<lambda>l :: u32.
      then_lang (skip_lang (unat l)) (\<lambda>_. items_lang 0 0 n))"
    unfolding set_eq_iff split_paired_All items_lang_Suc then_skip then_word by simp
  then show ?case by (simp only: skip_n_witnesses.simps) (intro decoders Suc)
qed

definition counted_lang :: "nat \<Rightarrow> nat \<Rightarrow> (u32 \<times> bytes) set" where
  "counted_lang h t = {(of_nat (length is), le32 (of_nat (length is)) @ concat (map encode_item is)) |is.
     length is < 2 ^ 32 \<and> list_all (item_ok h t) is}"

lemma counted_lang_eq:
  "counted_lang h t = then_lang (word_lang 4) (\<lambda>k. then_lang (items_lang h t (unat k)) (\<lambda>_. {(k, [])}))" (is "_ = ?L")
proof (intro set_eqI iffI)
  fix x
  assume "x \<in> counted_lang h t"
  then show "x \<in> ?L"
    by (force simp: counted_lang_def then_lang_def word_lang_def items_lang_def unat_of_nat_u32)
next
  fix x
  assume "x \<in> ?L"
  then obtain k "is" where "length is = unat (k :: u32)" "list_all (item_ok h t) is"
      "x = (k, le32 k @ concat (map encode_item is))"
    by (auto simp: then_lang_def word_lang_def items_lang_def)
  moreover from this(1) have "of_nat (length is) = k" by simp
  ultimately show "x \<in> counted_lang h t"
    using unat_lt_pow [of k] unfolding counted_lang_def by force
qed

text \<open>A reader of a count and as many items, in the shape the parser has it.\<close>

lemma then_lang_assoc: "then_lang (then_lang E F) G = then_lang E (\<lambda>v. then_lang (F v) G)"
  unfolding set_eq_iff split_paired_All then_lang_iff by (metis append_assoc)

lemma then_lang_ret: "then_lang {(v, [])} F = F v"
  by (auto simp: then_lang_def)

lemma then_counted:
  "then_lang (word_lang 4) (\<lambda>k. then_lang (items_lang h t (unat k)) (\<lambda>_. F k)) = then_lang (counted_lang h t) F"
  by (simp add: counted_lang_eq then_lang_assoc then_lang_ret)

record wire_tx =
  wt_version :: u32
  wt_chain_id :: u32
  wt_type :: u8
  wt_inputs :: "wire_item list"
  wt_outputs :: "wire_item list"
  wt_fee :: u64
  wt_hash :: hash
  wt_poh_tick :: u64
  wt_locktime :: u64
  wt_witnesses :: "wire_item list"

definition encode_items :: "wire_item list \<Rightarrow> bytes" where
  "encode_items is = le32 (of_nat (length is)) @ concat (map encode_item is)"

definition items_ok :: "nat \<Rightarrow> nat \<Rightarrow> wire_item list \<Rightarrow> bool" where
  "items_ok h t is \<longleftrightarrow> length is < 2 ^ 32 \<and> list_all (item_ok h t) is"

definition encode_tx :: "wire_tx \<Rightarrow> bytes" where
  "encode_tx t =
     le16 EXPECTED_WIRE_VERSION @ le32 (wt_version t) @ le32 (wt_chain_id t) @ [wt_type t]
     @ encode_items (wt_inputs t) @ encode_items (wt_outputs t) @ le64 (wt_fee t) @ wt_hash t
     @ le64 (wt_poh_tick t) @ le64 (wt_locktime t) @ encode_items (wt_witnesses t)"

text \<open>An input is 68 bytes, a signature and 72 bytes; an output is 144 bytes, a proof and 92 bytes; a
  witness is its bytes alone.\<close>

definition wire_tx_ok :: "wire_tx \<Rightarrow> bool" where
  "wire_tx_ok t \<longleftrightarrow> items_ok 68 72 (wt_inputs t) \<and> items_ok 144 92 (wt_outputs t)
     \<and> items_ok 0 0 (wt_witnesses t) \<and> length (wt_hash t) = 32"

definition wire_tx_fields :: "wire_tx \<Rightarrow> u8 \<times> u32 \<times> u32 \<times> u64 \<times> hash \<times> u64 \<times> u64" where
  "wire_tx_fields t = (wt_type t, of_nat (length (wt_inputs t)), of_nat (length (wt_outputs t)),
     wt_fee t, wt_hash t, wt_poh_tick t, wt_locktime t)"

definition tx_lang :: "((u8 \<times> u32 \<times> u32 \<times> u64 \<times> hash \<times> u64 \<times> u64) \<times> bytes) set" where
  "tx_lang = {(wire_tx_fields t, encode_tx t) |t. wire_tx_ok t}"

lemma then_wordI: "(w, r) \<in> F x \<Longrightarrow> (w, le_bytes k x @ r) \<in> then_lang (word_lang k) F"
  by (auto simp: then_word)

lemma then_word_lastI: "(w, []) \<in> F x \<Longrightarrow> (w, le_bytes k x) \<in> then_lang (word_lang k) F"
  by (auto simp: then_word)

lemma then_hashI: "length x = 32 \<Longrightarrow> (w, r) \<in> F x \<Longrightarrow> (w, x @ r) \<in> then_lang hash_lang F"
  by (auto simp: then_hash)

lemma then_byteI: "(w, r) \<in> F x \<Longrightarrow> (w, [x] @ r) \<in> then_lang byte_lang F"
  by (auto simp: then_byte)

lemma then_countedI:
  "items_ok h t is \<Longrightarrow> (w, r) \<in> F (of_nat (length is)) \<Longrightarrow> (w, encode_items is @ r) \<in> then_lang (counted_lang h t) F"
  unfolding then_lang_iff
  by (intro exI [of _ "of_nat (length is)"] exI [of _ "encode_items is"] exI [of _ r])
    (auto simp: counted_lang_def items_ok_def encode_items_def)

lemma then_countedE:
  assumes "(w, ds) \<in> then_lang (counted_lang h t) F"
  obtains "is" r where "items_ok h t is" "(w, r) \<in> F (of_nat (length is))" "ds = encode_items is @ r"
  using assms by (auto simp: then_lang_iff counted_lang_def items_ok_def encode_items_def)

definition tx_lang_body :: "((u8 \<times> u32 \<times> u32 \<times> u64 \<times> hash \<times> u64 \<times> u64) \<times> bytes) set" where
  "tx_lang_body =
     then_lang (word_lang 4) (\<lambda>_ :: u32. then_lang (word_lang 4) (\<lambda>_ :: u32. then_lang byte_lang (\<lambda>ty.
     then_lang (counted_lang 68 72) (\<lambda>ic. then_lang (counted_lang 144 92) (\<lambda>oc.
     then_lang (word_lang 8) (\<lambda>fee. then_lang hash_lang (\<lambda>hash. then_lang (word_lang 8) (\<lambda>poh.
     then_lang (word_lang 8) (\<lambda>lock. then_lang (counted_lang 0 0) (\<lambda>_.
       {((ty, ic, oc, fee, hash, poh, lock), [])}))))))))))"

definition tx_lang_steps :: "((u8 \<times> u32 \<times> u32 \<times> u64 \<times> hash \<times> u64 \<times> u64) \<times> bytes) set" where
  "tx_lang_steps = then_lang (word_lang 2) (\<lambda>v. if v \<noteq> EXPECTED_WIRE_VERSION then {} else tx_lang_body)"

lemma decoder_witnesses: "decoder skip_witnesses (then_lang (word_lang 4) (\<lambda>k :: u32. items_lang 0 0 (unat k)))"
  unfolding skip_witnesses_def by (intro decoders decoder_n_witnesses)

lemma then_witnesses:
  "then_lang (then_lang (word_lang 4) (\<lambda>k :: u32. items_lang 0 0 (unat k))) (\<lambda>_. E)
     = then_lang (counted_lang 0 0) (\<lambda>_. E)"
  by (simp add: then_lang_assoc then_counted)

lemma decoder_tx_steps: "decoder tx_reader tx_lang_steps"
proof -
  have if_lang: "decoder (if b then cfail else q) (if b then {} else E)" if "decoder q E" for b q E
    using that by (simp add: decoder_cfail)
  show ?thesis
    unfolding tx_reader_def tx_lang_steps_def tx_lang_body_def then_counted [symmetric, of 68] then_counted [symmetric, of 144]
      then_witnesses [symmetric]
    by (intro decoders if_lang decoder_inputs decoder_outputs decoder_witnesses)
qed

lemma tx_lang_steps_eq: "tx_lang_steps = tx_lang"
proof (intro set_eqI iffI)
  fix x
  assume "x \<in> tx_lang"
  then obtain t where x: "x = (wire_tx_fields t, encode_tx t)" and ok: "wire_tx_ok t"
    by (auto simp: tx_lang_def)
  have wit: "encode_items (wt_witnesses t) = encode_items (wt_witnesses t) @ []" by simp
  show "x \<in> tx_lang_steps"
    unfolding x encode_tx_def wire_tx_fields_def tx_lang_steps_def
    apply (subst wit)
    apply (rule then_wordI)
    apply (simp only: simp_thms if_False tx_lang_body_def)
    apply (intro then_wordI then_hashI then_byteI then_countedI)
    using ok by (simp_all add: wire_tx_ok_def)
next
  fix x
  assume "x \<in> tx_lang_steps"
  then obtain w ds where x: "x = (w, ds)" and "(w, ds) \<in> tx_lang_steps" by (cases x) auto
  then obtain v r1 where 1: "ds = le16 v @ r1" "v = EXPECTED_WIRE_VERSION"
      "(w, r1) \<in> tx_lang_body"
    unfolding tx_lang_steps_def then_word by (auto split: if_splits)
  then obtain a b ty r2 where 2: "r1 = le32 (a :: u32) @ le32 (b :: u32) @ ty # r2"
      "(w, r2) \<in> then_lang (counted_lang 68 72) (\<lambda>ic. then_lang (counted_lang 144 92) (\<lambda>oc.
         then_lang (word_lang 8) (\<lambda>fee. then_lang hash_lang (\<lambda>hash. then_lang (word_lang 8) (\<lambda>poh.
         then_lang (word_lang 8) (\<lambda>lock. then_lang (counted_lang 0 0) (\<lambda>_.
           {((ty, ic, oc, fee, hash, poh, lock), [])})))))))"
    unfolding tx_lang_body_def then_word then_byte by blast
  from 2(2) obtain ins outs r3 where 3: "items_ok 68 72 ins" "items_ok 144 92 outs"
      "r2 = encode_items ins @ encode_items outs @ r3"
      "(w, r3) \<in> then_lang (word_lang 8) (\<lambda>fee. then_lang hash_lang (\<lambda>hash. then_lang (word_lang 8) (\<lambda>poh.
         then_lang (word_lang 8) (\<lambda>lock. then_lang (counted_lang 0 0) (\<lambda>_.
           {((ty, of_nat (length ins), of_nat (length outs), fee, hash, poh, lock), [])})))))"
    by (elim then_countedE) auto
  from 3(4) obtain fee hash poh lock r4 where 4: "r3 = le64 fee @ hash @ le64 poh @ le64 lock @ r4" "length hash = 32"
      "(w, r4) \<in> then_lang (counted_lang 0 0) (\<lambda>_. {((ty, of_nat (length ins), of_nat (length outs), fee, hash, poh, lock), [])})"
    unfolding then_word then_hash by blast
  from 4(3) obtain ws where 5: "items_ok 0 0 ws" "r4 = encode_items ws"
      "w = (ty, of_nat (length ins), of_nat (length outs), fee, hash, poh, lock)"
    by (elim then_countedE) auto
  let ?t = "\<lparr>wt_version = a, wt_chain_id = b, wt_type = ty, wt_inputs = ins, wt_outputs = outs, wt_fee = fee,
    wt_hash = hash, wt_poh_tick = poh, wt_locktime = lock, wt_witnesses = ws\<rparr>"
  have "wire_tx_ok ?t" "ds = encode_tx ?t" "w = wire_tx_fields ?t"
    using 1 2 3 4 5 by (simp_all add: wire_tx_ok_def encode_tx_def wire_tx_fields_def)
  then show "x \<in> tx_lang" unfolding x tx_lang_def by blast
qed

interpretation tx: decoder tx_reader tx_lang
  using decoder_tx_steps unfolding tx_lang_steps_eq .

section \<open>The fee without the rest\<close>

definition fee_lang :: "(u64 \<times> bytes) set" where
  "fee_lang =
     then_lang (word_lang 2) (\<lambda>v. if v \<noteq> EXPECTED_WIRE_VERSION then {} else
     then_lang (word_lang 4) (\<lambda>_ :: u32. then_lang (word_lang 4) (\<lambda>_ :: u32. then_lang (skip_lang 1) (\<lambda>_.
     then_lang (counted_lang 68 72) (\<lambda>_. then_lang (counted_lang 144 92) (\<lambda>_. word_lang 8))))))"

lemma decoder_fee: "decoder fee_reader fee_lang"
proof -
  have if_lang: "decoder (if b then cfail else q) (if b then {} else E)" if "decoder q E" for b q E
    using that by (simp add: decoder_cfail)
  show ?thesis
    unfolding fee_reader_def fee_lang_def then_counted [symmetric]
    by (intro decoders if_lang decoder_inputs decoder_outputs)
qed

interpretation fee: decoder fee_reader fee_lang
  by (rule decoder_fee)

lemma then_skipI: "length b = n \<Longrightarrow> (w, r) \<in> F () \<Longrightarrow> (w, b @ r) \<in> then_lang (skip_lang n) F"
  by (auto simp: then_skip)

lemma fee_reader_encoded:
  assumes "wire_tx_ok t"
  shows "\<exists>c. fee_reader (cursor_new (encode_tx t @ r)) = Some (wt_fee t, c)"
proof -
  let ?pre = "le16 EXPECTED_WIRE_VERSION @ le32 (wt_version t) @ le32 (wt_chain_id t) @ [wt_type t]
     @ encode_items (wt_inputs t) @ encode_items (wt_outputs t) @ le64 (wt_fee t)"
  have "(wt_fee t, ?pre) \<in> fee_lang"
    unfolding fee_lang_def
    apply (rule then_wordI)
    apply (simp only: simp_thms if_False)
    apply (intro then_wordI then_skipI then_countedI)
    using assms by (simp_all add: wire_tx_ok_def word_lang_def)
  from fee.reads_encoding [OF this, of "wt_hash t @ le64 (wt_poh_tick t) @ le64 (wt_locktime t) @ encode_items (wt_witnesses t) @ r"]
  show ?thesis by (simp add: encode_tx_def)
qed

section \<open>Transactions and blocks\<close>

definition view_of :: "wire_tx \<Rightarrow> tx_view" where
  "view_of t =
     \<lparr>tv_tx_hash = wt_hash t, tv_fee = wt_fee t, tv_poh_tick = wt_poh_tick t, tv_locktime = wt_locktime t,
      tv_tx_type = wt_type t, tv_input_count = of_nat (length (wt_inputs t)),
      tv_output_count = of_nat (length (wt_outputs t)),
      tv_parsed_len = length (encode_tx t), tv_raw = encode_tx t\<rparr>"

lemma tx_view_parse_encoded:
  assumes "wire_tx_ok t"
  shows "tx_view_parse (encode_tx t @ r) = Some (view_of t)"
proof -
  from assms have "(wire_tx_fields t, encode_tx t) \<in> tx_lang" by (auto simp: tx_lang_def)
  from tx.reads_encoding [OF this, of r] show ?thesis
    by (simp add: tx_view_parse_def wire_tx_fields_def view_of_def advance_def cursor_new_def)
qed

lemma tx_view_parse_iff:
  "tx_view_parse d = Some v \<longleftrightarrow> (\<exists>t r. wire_tx_ok t \<and> d = encode_tx t @ r \<and> v = view_of t)"
proof
  assume p: "tx_view_parse d = Some v"
  then obtain f c where "tx_reader (cursor_new d) = Some (f, c)"
    by (auto simp: tx_view_parse_def split: option.splits)
  from tx.reads_only_encodings [OF this] obtain t r where "wire_tx_ok t" "d = encode_tx t @ r"
    by (auto simp: tx_lang_def)
  with p tx_view_parse_encoded [of t r] show "\<exists>t r. wire_tx_ok t \<and> d = encode_tx t @ r \<and> v = view_of t"
    by auto
qed (auto simp: tx_view_parse_encoded)

lemma iter_collect_encoded:
  assumes "list_all wire_tx_ok ts" and "length ts < 2 ^ 32"
    and "cur_ok (it_cursor it)" and "cur_rest (it_cursor it) = concat (map encode_tx ts) @ r"
    and "it_remaining it = of_nat (length ts)"
  shows "iter_collect it = map view_of ts"
  using assms
proof (induction ts arbitrary: it)
  case Nil
  then show ?case by (simp add: iter_collect.simps [of it] iter_next_def)
next
  case (Cons t ts)
  let ?c = "it_cursor it"
  have rem: "unat (it_remaining it) = Suc (length ts)"
    using Cons.prems(2,5) unat_of_nat_u32 [of "Suc (length ts)"] by simp
  then have rem': "it_remaining it - 1 = of_nat (length ts)" "it_remaining it \<noteq> 0"
    using Cons.prems(5) by auto
  have rest: "drop (cur_pos ?c) (cur_data ?c) = encode_tx t @ concat (map encode_tx ts) @ r"
    using Cons.prems(4) by (simp add: cur_rest_def)
  have "length (cur_data ?c) - cur_pos ?c = length (encode_tx t @ concat (map encode_tx ts) @ r)"
    using arg_cong [OF rest, of length] by simp
  then have skip: "cur_skip (length (encode_tx t)) ?c = Some ((), advance (length (encode_tx t)) ?c)"
    using Cons.prems(3) by (simp add: cur_skip_def Let_def advance_def cur_ok_def)
  let ?it = "\<lparr>it_cursor = advance (length (encode_tx t)) ?c, it_remaining = it_remaining it - 1\<rparr>"
  have "iter_next it = Some (view_of t, ?it)"
    using rem'(2) Cons.prems(1,3) skip
    by (simp add: iter_next_def Let_def rest tx_view_parse_encoded cur_ok_def view_of_def)
  moreover have "iter_collect ?it = map view_of ts"
    by (rule Cons.IH)
      (use Cons.prems rem' in \<open>auto intro!: advance_ok [of _ "encode_tx t"]\<close>)
  ultimately show ?case by (simp add: iter_collect.simps [of it])
qed

definition encode_header :: "hash \<Rightarrow> hash \<Rightarrow> u64 \<Rightarrow> u64 \<Rightarrow> u64 \<Rightarrow> hash \<Rightarrow> u32 \<Rightarrow> bytes" where
  "encode_header block_hash prev_hash height poh_start poh_end root tx_count =
     le16 EXPECTED_WIRE_VERSION @ block_hash @ prev_hash @ le64 height @ le64 poh_start @ le64 poh_end
     @ root @ le32 tx_count"

lemma block_view_parse_encoded:
  assumes "length bh = 32" and "length ph = 32" and "length root = 32"
  shows "block_view_parse (encode_header bh ph h ps pe root n @ r) =
    Some \<lparr>bv_height = h, bv_poh_start = ps, bv_poh_end = pe, bv_prev_hash = ph, bv_block_hash = bh,
          bv_tx_count = n, bv_raw = encode_header bh ph h ps pe root n @ r\<rparr>"
proof -
  let ?d = "encode_header bh ph h ps pe root n @ r"
  let ?v = "\<lparr>bv_height = h, bv_poh_start = ps, bv_poh_end = pe, bv_prev_hash = ph, bv_block_hash = bh,
          bv_tx_count = n, bv_raw = ?d\<rparr>"
  define E where "E = then_lang (word_lang 2) (\<lambda>v. if v \<noteq> EXPECTED_WIRE_VERSION then {} else
     then_lang hash_lang (\<lambda>bh. then_lang hash_lang (\<lambda>ph. then_lang (word_lang 8) (\<lambda>h.
     then_lang (word_lang 8) (\<lambda>ps. then_lang (word_lang 8) (\<lambda>pe. then_lang hash_lang (\<lambda>_.
     then_lang (word_lang 4) (\<lambda>n.
       {(\<lparr>bv_height = h, bv_poh_start = ps, bv_poh_end = pe, bv_prev_hash = ph, bv_block_hash = bh,
          bv_tx_count = n, bv_raw = ?d\<rparr>, [])}))))))))"
  have if_lang: "decoder (if b then cfail else q) (if b then {} else L)" if "decoder q L" for b q L
    using that by (simp add: decoder_cfail)
  have dec: "decoder (block_header_reader ?d) E"
    unfolding block_header_reader_def E_def by (intro decoders if_lang)
  have "(?v, encode_header bh ph h ps pe root n) \<in> E"
    unfolding E_def encode_header_def
    apply (rule then_wordI)
    apply (simp only: simp_thms if_False)
    apply (intro then_wordI then_hashI then_word_lastI)
    using assms by simp_all
  from decoder.reads_encoding [OF dec this, of r] show ?thesis by (simp add: block_view_parse_def)
qed

section \<open>Properties\<close>

text \<open>C8. \<open>TxView::parse\<close> accepts a buffer exactly when it starts with the encoding of a transaction of
  the documented format (version 5, every count and length field equal to what follows it), and then
  reports that transaction's hash, fee, tick, locktime, type and counts, the exact number of bytes of
  the encoding, and those bytes, whatever follows them.\<close>

theorem tx_view_parse_exact:
  "tx_view_parse d = Some v \<longleftrightarrow>
     (\<exists>t r. wire_tx_ok t \<and> d = encode_tx t @ r
        \<and> v = \<lparr>tv_tx_hash = wt_hash t, tv_fee = wt_fee t, tv_poh_tick = wt_poh_tick t,
               tv_locktime = wt_locktime t, tv_tx_type = wt_type t,
               tv_input_count = of_nat (length (wt_inputs t)),
               tv_output_count = of_nat (length (wt_outputs t)),
               tv_parsed_len = length (encode_tx t), tv_raw = encode_tx t\<rparr>)"
  by (simp add: tx_view_parse_iff view_of_def)

text \<open>The fast fee check agrees with the full parser: on every buffer that parses as a
  transaction, it holds exactly when the parsed fee reaches the minimum.\<close>

theorem check_min_fee_agrees:
  assumes "tx_view_parse d = Some v"
  shows "check_min_fee d min_fee \<longleftrightarrow> min_fee \<le> tv_fee v"
proof -
  from assms obtain t r where t: "wire_tx_ok t" "d = encode_tx t @ r" "v = view_of t"
    by (auto simp: tx_view_parse_iff)
  obtain c where "fee_reader (cursor_new d) = Some (wt_fee t, c)"
    using fee_reader_encoded [OF t(1)] t(2) by blast
  then show ?thesis by (simp add: check_min_fee_def t(3) view_of_def)
qed

definition sample_wire_tx :: "u64 \<Rightarrow> wire_tx" where
  "sample_wire_tx fee =
     \<lparr>wt_version = 1, wt_chain_id = 2, wt_type = 0,
      wt_inputs = [\<lparr>wi_head = replicate 68 0, wi_body = [7, 7], wi_tail = replicate 72 0\<rparr>],
      wt_outputs = [], wt_fee = fee, wt_hash = zero_hash, wt_poh_tick = 3, wt_locktime = 0, wt_witnesses = []\<rparr>"

lemma sample_wire_tx_ok [simp]: "wire_tx_ok (sample_wire_tx fee)"
  by (simp add: wire_tx_ok_def sample_wire_tx_def items_ok_def item_ok_def)

theorem check_min_fee_agrees_witness:
  "check_min_fee (encode_tx (sample_wire_tx 100)) 50 \<and> \<not> check_min_fee (encode_tx (sample_wire_tx 100)) 200"
proof -
  have p: "tx_view_parse (encode_tx (sample_wire_tx 100)) = Some (view_of (sample_wire_tx 100))"
    using tx_view_parse_encoded [of "sample_wire_tx 100" "[]"] by simp
  show ?thesis
    using check_min_fee_agrees [OF p, of 50] check_min_fee_agrees [OF p, of 200]
    by (simp add: view_of_def sample_wire_tx_def)
qed

text \<open>C30. A block's bytes give back its header and its transactions: for a header that declares as
  many transactions as follow it, the header view returns the encoded fields and the lazy iterator,
  started after the header, yields exactly the views of the transactions, in order, and stops,
  whatever bytes come after them.\<close>

theorem block_iteration:
  assumes "length bh = 32" and "length ph = 32" and "length root = 32"
    and "list_all wire_tx_ok ts" and "length ts < 2 ^ 32"
    and "d = encode_header bh ph h ps pe root (of_nat (length ts)) @ concat (map encode_tx ts) @ r"
  shows "block_view_parse d = Some \<lparr>bv_height = h, bv_poh_start = ps, bv_poh_end = pe, bv_prev_hash = ph,
      bv_block_hash = bh, bv_tx_count = of_nat (length ts), bv_raw = d\<rparr>
    \<and> map_option iter_collect (iter_new d BLOCK_HEADER_SIZE (of_nat (length ts))) = Some (map view_of ts)"
proof -
  have len: "length (encode_header bh ph h ps pe root (of_nat (length ts))) = BLOCK_HEADER_SIZE"
    by (simp add: encode_header_def BLOCK_HEADER_SIZE_def assms(1-3))
  let ?it = "\<lparr>it_cursor = cursor_new (concat (map encode_tx ts) @ r), it_remaining = of_nat (length ts)\<rparr>"
  have "iter_new d BLOCK_HEADER_SIZE (of_nat (length ts)) = Some ?it"
    by (simp add: iter_new_def assms(6) flip: len)
  moreover have "iter_collect ?it = map view_of ts"
    by (rule iter_collect_encoded [OF assms(4,5)]) (simp_all add: cursor_new_def cur_ok_def cur_rest_def)
  ultimately show ?thesis
    using block_view_parse_encoded [OF assms(1-3)] assms(6) by simp
qed

theorem block_iteration_witness:
  "map_option iter_collect (iter_new
     (encode_header zero_hash zero_hash 1 0 9 zero_hash 2 @ encode_tx (sample_wire_tx 5) @ encode_tx (sample_wire_tx 6))
     BLOCK_HEADER_SIZE 2) = Some [view_of (sample_wire_tx 5), view_of (sample_wire_tx 6)]"
  using block_iteration [of zero_hash zero_hash zero_hash "[sample_wire_tx 5, sample_wire_tx 6]" _ 1 0 9 "[]", OF _ _ _ _ _ refl]
  by simp

end
