(* ===== verification/Dna_Range.thy ===== *)
theory Dna_Range
  imports Prelude
begin

text \<open>
  \<open>crates/aevum-core/src/dna_range.rs\<close>: provenance of coins. A range is an interval of the global
  numbering of satoshis with its origin, owner and parent; it is split in two on a transfer and
  carried over to layer 2 by a bridge transaction. A plain \<open>+\<close> or \<open>-\<close> that leaves 64 bits (32 for
  the transfer count) is a panic.

  The lemmas: \<open>split\<close> is described on every input, and its own supply check never fails; from the
  genesis range on, every sequence of splits and bridge transfers keeps a partition of the genesis
  supply in which each satoshi has exactly one owner and every range verifies; the identifier commits
  to root, parent and interval, while the proof hash does not tell a parent from a bridge.
\<close>

section \<open>Ranges\<close>

definition DOMAIN :: bytes where "DOMAIN = ascii ''AEVUM_DNA_RANGE_V4''"
definition SATOSHIS_PER_AEV :: u64 where "SATOSHIS_PER_AEV = 100000000"
definition GENESIS_SUPPLY :: u64 where "GENESIS_SUPPLY = 21000000 * SATOSHIS_PER_AEV"
definition MAX_SUPPLY :: u64 where "MAX_SUPPLY = 371000000 * SATOSHIS_PER_AEV"

datatype dna_origin = Genesis | EpochMining u64 hash | EpochRemainder u64 hash

fun origin_bytes :: "dna_origin \<Rightarrow> bytes" where
  "origin_bytes Genesis = [0]"
| "origin_bytes (EpochMining epoch event_id) = [1] @ le64 epoch @ event_id"
| "origin_bytes (EpochRemainder epoch event_id) = [2] @ le64 epoch @ event_id"

fun origin_epoch :: "dna_origin \<Rightarrow> u64 option" where
  "origin_epoch Genesis = None"
| "origin_epoch (EpochMining epoch _) = Some epoch"
| "origin_epoch (EpochRemainder epoch _) = Some epoch"

datatype dna_layer = L1 | L2

record dna_range =
  dr_range_id :: hash
  dr_root_id :: hash
  dr_origin :: dna_origin
  dr_start :: u64
  dr_end :: u64
  dr_layer :: dna_layer
  dr_birth_epoch :: u64
  dr_birth_height :: u64
  dr_birth_timestamp :: u64
  dr_miner :: bytes
  dr_parent_range_id :: "hash option"
  dr_bridge_tx :: "hash option"
  dr_creation_tx :: "hash option"
  dr_owner :: bytes
  dr_transfer_count :: u32
  dr_last_transfer_block :: u64
  dr_proof :: hash

text \<open>\<open>if let Some(p) = o { h.update(p) }\<close>: an absent value adds no bytes.\<close>

definition opt_bytes :: "hash option \<Rightarrow> bytes" where
  "opt_bytes x = (case x of None \<Rightarrow> [] | Some h \<Rightarrow> h)"

definition id_preimage :: "dna_range \<Rightarrow> bytes" where
  "id_preimage r = DOMAIN @ ascii ''ID'' @ dr_root_id r @ opt_bytes (dr_parent_range_id r)
     @ le64 (dr_start r) @ le64 (dr_end r)"

definition range_id :: "'pk crypto_api \<Rightarrow> dna_range \<Rightarrow> hash" where
  "range_id C r = blake3 C (id_preimage r)"

definition proof_preimage :: "dna_range \<Rightarrow> bytes" where
  "proof_preimage r = DOMAIN @ ascii ''PROOF'' @ origin_bytes (dr_origin r) @ dr_root_id r
     @ le64 (dr_start r) @ le64 (dr_end r) @ le64 (dr_birth_epoch r) @ le64 (dr_birth_height r)
     @ opt_bytes (dr_parent_range_id r) @ opt_bytes (dr_bridge_tx r) @ dr_owner r"

definition range_hash :: "'pk crypto_api \<Rightarrow> dna_range \<Rightarrow> hash" where
  "range_hash C r = blake3 C (proof_preimage r)"

text \<open>The last two lines of every constructor: first the identifier, then the proof.\<close>

definition seal_range :: "'pk crypto_api \<Rightarrow> dna_range \<Rightarrow> dna_range" where
  "seal_range C r = (let r1 = r\<lparr>dr_range_id := range_id C r\<rparr> in r1\<lparr>dr_proof := range_hash C r1\<rparr>)"

definition range_new_genesis :: "'pk crypto_api \<Rightarrow> hash \<Rightarrow> bytes \<Rightarrow> u64 \<Rightarrow> u64 \<Rightarrow> dna_range" where
  "range_new_genesis C root_id owner height timestamp = seal_range C
     \<lparr>dr_range_id = zero_hash, dr_root_id = root_id, dr_origin = Genesis, dr_start = 0,
      dr_end = GENESIS_SUPPLY - 1, dr_layer = L1, dr_birth_epoch = 0, dr_birth_height = height,
      dr_birth_timestamp = timestamp, dr_miner = replicate 32 0, dr_parent_range_id = None,
      dr_bridge_tx = None, dr_creation_tx = None, dr_owner = owner, dr_transfer_count = 0,
      dr_last_transfer_block = height, dr_proof = zero_hash\<rparr>"

definition range_new_epoch ::
  "'pk crypto_api \<Rightarrow> hash \<Rightarrow> dna_origin \<Rightarrow> u64 \<Rightarrow> u64 \<Rightarrow> u64 \<Rightarrow> u64 \<Rightarrow> u64 \<Rightarrow> bytes \<Rightarrow> bytes \<Rightarrow> dna_range" where
  "range_new_epoch C root_id origin start end' epoch height timestamp miner owner = seal_range C
     \<lparr>dr_range_id = zero_hash, dr_root_id = root_id, dr_origin = origin, dr_start = start,
      dr_end = end', dr_layer = L1, dr_birth_epoch = epoch, dr_birth_height = height,
      dr_birth_timestamp = timestamp, dr_miner = miner, dr_parent_range_id = None,
      dr_bridge_tx = None, dr_creation_tx = None, dr_owner = owner, dr_transfer_count = 0,
      dr_last_transfer_block = height, dr_proof = zero_hash\<rparr>"

definition range_amount :: "dna_range \<Rightarrow> u64 option" where
  "range_amount r = (case chk_sub (dr_end r) (dr_start r) of None \<Rightarrow> None | Some d \<Rightarrow> chk_add d 1)"

text \<open>The conjuncts from the left: a later sum is only computed when the earlier ones hold.\<close>

definition verify_split :: "dna_range \<Rightarrow> dna_range \<Rightarrow> dna_range \<Rightarrow> bool option" where
  "verify_split parent a b =
     (if dr_start a \<noteq> dr_start parent then Some False
      else if dr_end b \<noteq> dr_end parent then Some False
      else case chk_add (dr_end a) 1 of None \<Rightarrow> None | Some e \<Rightarrow>
        (if e \<noteq> dr_start b then Some False
         else case range_amount parent of None \<Rightarrow> None | Some p \<Rightarrow>
           (case range_amount a of None \<Rightarrow> None | Some x \<Rightarrow>
             (case range_amount b of None \<Rightarrow> None | Some y \<Rightarrow>
               (case chk_add x y of None \<Rightarrow> None | Some s \<Rightarrow> Some (p = s))))))"

definition range_child ::
  "'pk crypto_api \<Rightarrow> dna_range \<Rightarrow> u64 \<Rightarrow> u64 \<Rightarrow> bytes \<Rightarrow> hash \<Rightarrow> u64 \<Rightarrow> dna_range option" where
  "range_child C r start end' owner tx blk =
     (case chk_add (dr_transfer_count r) 1 of None \<Rightarrow> None | Some n \<Rightarrow>
       Some (seal_range C
         \<lparr>dr_range_id = zero_hash, dr_root_id = dr_root_id r, dr_origin = dr_origin r, dr_start = start,
          dr_end = end', dr_layer = dr_layer r, dr_birth_epoch = dr_birth_epoch r,
          dr_birth_height = dr_birth_height r, dr_birth_timestamp = dr_birth_timestamp r,
          dr_miner = dr_miner r, dr_parent_range_id = Some (dr_range_id r),
          dr_bridge_tx = dr_bridge_tx r, dr_creation_tx = Some tx, dr_owner = owner,
          dr_transfer_count = n, dr_last_transfer_block = blk, dr_proof = zero_hash\<rparr>))"

datatype split_error = InvalidSplit | SupplyViolation

definition range_split ::
  "'pk crypto_api \<Rightarrow> dna_range \<Rightarrow> u64 \<Rightarrow> bytes \<Rightarrow> bytes \<Rightarrow> hash \<Rightarrow> u64
     \<Rightarrow> (dna_range \<times> dna_range, split_error) result" where
  "range_split C r point left right tx blk =
     (if point \<le> dr_start r \<or> dr_end r < point then Err InvalidSplit
      else case chk_sub point 1 of None \<Rightarrow> Panic | Some e \<Rightarrow>
        (case range_child C r (dr_start r) e left tx blk of None \<Rightarrow> Panic | Some a \<Rightarrow>
          (case range_child C r point (dr_end r) right tx blk of None \<Rightarrow> Panic | Some b \<Rightarrow>
            (case verify_split r a b of
               None \<Rightarrow> Panic
             | Some ok \<Rightarrow> if \<not> ok then Err SupplyViolation else Ok (a, b)))))"

definition bridge_to_l2 :: "'pk crypto_api \<Rightarrow> hash \<Rightarrow> dna_range \<Rightarrow> dna_range" where
  "bridge_to_l2 C bridge r = seal_range C (r\<lparr>dr_layer := L2, dr_bridge_tx := Some bridge\<rparr>)"

definition range_verify :: "'pk crypto_api \<Rightarrow> dna_range \<Rightarrow> bool" where
  "range_verify C r \<longleftrightarrow> dr_range_id r = range_id C r \<and> dr_proof r = range_hash C r \<and> dr_start r \<le> dr_end r"

definition verify_lineage :: "dna_range \<Rightarrow> dna_range \<Rightarrow> bool" where
  "verify_lineage parent child \<longleftrightarrow>
     dr_parent_range_id child = Some (dr_range_id parent) \<and> dr_root_id child = dr_root_id parent"

definition range_contains :: "dna_range \<Rightarrow> u64 \<Rightarrow> bool" where
  "range_contains r s \<longleftrightarrow> dr_start r \<le> s \<and> s \<le> dr_end r"

definition emission_event :: "'pk crypto_api \<Rightarrow> u64 \<Rightarrow> u64 \<Rightarrow> u64 \<Rightarrow> u64 \<Rightarrow> hash" where
  "emission_event C epoch height reward participants =
     blake3 C (ascii ''AEVUM_EMISSION_V4'' @ le64 epoch @ le64 height @ le64 reward @ le64 participants)"

definition aev_to_satoshi :: "u64 \<Rightarrow> u64 option" where
  "aev_to_satoshi v = chk_mul v SATOSHIS_PER_AEV"

section \<open>Splitting\<close>

text \<open>The number of satoshis of an interval, as an unbounded number.\<close>

definition range_len :: "dna_range \<Rightarrow> nat" where
  "range_len r = (if dr_start r \<le> dr_end r then unat (dr_end r) - unat (dr_start r) + 1 else 0)"

text \<open>The fields that a transfer must keep, up to the owner's half of the interval.\<close>

definition same_provenance :: "dna_range \<Rightarrow> dna_range \<Rightarrow> bool" where
  "same_provenance p c \<longleftrightarrow>
     dr_root_id c = dr_root_id p \<and> dr_origin c = dr_origin p \<and> dr_layer c = dr_layer p
     \<and> dr_birth_epoch c = dr_birth_epoch p \<and> dr_birth_height c = dr_birth_height p
     \<and> dr_birth_timestamp c = dr_birth_timestamp p \<and> dr_miner c = dr_miner p
     \<and> dr_bridge_tx c = dr_bridge_tx p"

lemma seal_range_sel [simp]:
  "dr_root_id (seal_range C r) = dr_root_id r" "dr_origin (seal_range C r) = dr_origin r"
  "dr_start (seal_range C r) = dr_start r" "dr_end (seal_range C r) = dr_end r"
  "dr_layer (seal_range C r) = dr_layer r" "dr_birth_epoch (seal_range C r) = dr_birth_epoch r"
  "dr_birth_height (seal_range C r) = dr_birth_height r"
  "dr_birth_timestamp (seal_range C r) = dr_birth_timestamp r" "dr_miner (seal_range C r) = dr_miner r"
  "dr_parent_range_id (seal_range C r) = dr_parent_range_id r"
  "dr_bridge_tx (seal_range C r) = dr_bridge_tx r" "dr_creation_tx (seal_range C r) = dr_creation_tx r"
  "dr_owner (seal_range C r) = dr_owner r" "dr_transfer_count (seal_range C r) = dr_transfer_count r"
  "dr_last_transfer_block (seal_range C r) = dr_last_transfer_block r"
  by (simp_all add: seal_range_def Let_def)

lemma seal_range_verify: "range_verify C (seal_range C r) \<longleftrightarrow> dr_start r \<le> dr_end r"
  by (simp add: range_verify_def seal_range_def Let_def range_id_def range_hash_def id_preimage_def
      proof_preimage_def)

lemma range_amount_Some_iff:
  "range_amount r = Some n \<longleftrightarrow> dr_start r \<le> dr_end r \<and> unat n = unat (dr_end r) - unat (dr_start r) + 1"
  by (auto simp: range_amount_def rust_arith word_le_nat_alt split: option.splits)

lemma range_amount_len: "range_amount r = Some n \<Longrightarrow> unat n = range_len r"
  by (simp add: range_amount_Some_iff range_len_def)

lemma range_amount_ex:
  assumes "dr_start r \<le> dr_end r" and "unat (dr_end r) - unat (dr_start r) + 1 < 2 ^ 64"
  shows "\<exists>n. range_amount r = Some n \<and> unat n = unat (dr_end r) - unat (dr_start r) + 1"
proof -
  from assms(1) have "chk_sub (dr_end r) (dr_start r) = Some (dr_end r - dr_start r)"
    and "unat (dr_end r - dr_start r) = unat (dr_end r) - unat (dr_start r)"
    by (simp_all add: chk_sub_def unat_sub word_le_nat_alt)
  with assms(2) have "range_amount r = Some (dr_end r - dr_start r + 1)"
    by (simp add: range_amount_def chk_add_def)
  then show ?thesis using range_amount_Some_iff by blast
qed

text \<open>The two halves of a split: consecutive, adjacent, together the whole.\<close>

lemma verify_split_halves:
  assumes "dr_start a = dr_start r" and "dr_end b = dr_end r"
    and "unat (dr_end a) + 1 = unat point" and "dr_start b = point"
    and "dr_start r < point" and "point \<le> dr_end r"
    and "unat (dr_end r) - unat (dr_start r) + 1 < 2 ^ 64"
  shows "verify_split r a b = Some True"
proof -
  have lt: "unat (dr_start r) < unat point" "unat point \<le> unat (dr_end r)"
    using assms(5,6) by (simp_all add: word_less_nat_alt word_le_nat_alt)
  obtain p where p: "range_amount r = Some p" "unat p = unat (dr_end r) - unat (dr_start r) + 1"
    using range_amount_ex [of r] assms(5-7) by (meson le_less_trans less_imp_le order.strict_trans2)
  have la: "dr_start a \<le> dr_end a"
    and na: "unat (dr_end a) - unat (dr_start a) + 1 = unat point - unat (dr_start r)"
    using assms(1,3) lt by (simp_all add: word_le_nat_alt)
  have small: "unat point < 2 ^ 64" "unat (dr_end r) - unat point + 1 < 2 ^ 64"
    using unat_lt_pow [of point] assms(7) lt by simp_all
  obtain x where x: "range_amount a = Some x" "unat x = unat point - unat (dr_start r)"
    using range_amount_ex [OF la] na small(1) by force
  obtain y where y: "range_amount b = Some y" "unat y = unat (dr_end r) - unat point + 1"
    using range_amount_ex [of b] assms(2,4,6) small(2) by auto
  have e: "chk_add (dr_end a) 1 = Some point" using assms(3) by (simp add: rust_arith)
  have "chk_add x y = Some p" using x(2) y(2) p(2) lt by (simp add: rust_arith)
  with p(1) x(1) y(1) e assms(1,2,4) show ?thesis by (simp add: verify_split_def)
qed

lemma range_child_Some:
  assumes "range_child C r s e owner tx blk = Some c"
  shows "dr_start c = s" and "dr_end c = e" and "dr_owner c = owner"
    and "unat (dr_transfer_count c) = unat (dr_transfer_count r) + 1"
    and "verify_lineage r c" and "same_provenance r c" and "range_verify C c \<longleftrightarrow> s \<le> e"
proof -
  obtain n where "chk_add (dr_transfer_count r) 1 = Some n"
    using assms by (auto simp: range_child_def split: option.splits)
  with assms show "dr_start c = s" and "dr_end c = e" and "dr_owner c = owner"
    and "unat (dr_transfer_count c) = unat (dr_transfer_count r) + 1"
    and "verify_lineage r c" and "same_provenance r c" and "range_verify C c \<longleftrightarrow> s \<le> e"
    by (auto simp: range_child_def verify_lineage_def same_provenance_def seal_range_verify rust_arith)
qed

text \<open>
  \<open>split\<close> on every input. It refuses a point outside \<open>start < point \<le> end\<close>; it panics when the
  transfer count is exhausted or the range is the whole 64-bit interval; in every other case it
  succeeds (the supply check after the construction never fails) and returns the intervals from
  \<open>start\<close> to \<open>point - 1\<close> and from \<open>point\<close> to \<open>end\<close>, for the two owners, both verifying, both children
  of the parent with its provenance.
\<close>

lemma point_pred:
  fixes a point :: u64
  assumes "a < point"
  shows "chk_sub point 1 = Some (point - 1)" and "unat (point - 1) = unat point - 1"
    and "a \<le> point - 1" and "chk_add (point - 1) 1 = Some point"
proof -
  have lt: "unat a < unat point" using assms by (simp add: word_less_nat_alt)
  then show "chk_sub point 1 = Some (point - 1)" and u: "unat (point - 1) = unat point - 1"
    by (simp_all add: chk_sub_def word_le_nat_alt unat_sub)
  show "a \<le> point - 1" and "chk_add (point - 1) 1 = Some point"
    using u lt by (simp_all add: word_le_nat_alt rust_arith)
qed

lemma range_span_fits: "\<not> (s = 0 \<and> e = - 1) \<Longrightarrow> unat e - unat s + 1 < 2 ^ 64" for s e :: u64
proof (cases "e = - 1")
  case True
  moreover assume "\<not> (s = 0 \<and> e = - 1)"
  ultimately have "unat s \<noteq> 0" by (simp add: unat_eq_0)
  then show ?thesis using unat_lt_pow [of e] by simp
next
  case False
  then show ?thesis using unat_below_max [of e] by simp
qed

lemma transfer_count_next:
  fixes c :: u32
  assumes "c \<noteq> - 1"
  obtains n where "chk_add c 1 = Some n" and "unat n = unat c + 1"
proof -
  have "unat c + 1 < 2 ^ 32" using unat_below_max [OF assms] by simp
  then show thesis using that by (cases "chk_add c 1") (auto simp: rust_arith)
qed

lemma range_split_behaviour:
  fixes C :: "'pk crypto_api"
  shows "case range_split C r point left right tx blk of
     Err e \<Rightarrow> e = InvalidSplit \<and> (point \<le> dr_start r \<or> dr_end r < point)
   | Panic \<Rightarrow> dr_start r < point \<and> point \<le> dr_end r
       \<and> (dr_transfer_count r = - 1 \<or> dr_start r = 0 \<and> dr_end r = - 1)
   | Ok (a, b) \<Rightarrow> dr_start r < point \<and> point \<le> dr_end r
       \<and> dr_start a = dr_start r \<and> dr_end a = point - 1 \<and> dr_start b = point \<and> dr_end b = dr_end r
       \<and> dr_owner a = left \<and> dr_owner b = right
       \<and> range_len a + range_len b = range_len r
       \<and> range_verify C a \<and> range_verify C b \<and> verify_lineage r a \<and> verify_lineage r b
       \<and> same_provenance r a \<and> same_provenance r b
       \<and> unat (dr_transfer_count a) = unat (dr_transfer_count r) + 1
       \<and> unat (dr_transfer_count b) = unat (dr_transfer_count r) + 1"
proof (cases "point \<le> dr_start r \<or> dr_end r < point")
  case True
  then show ?thesis by (simp add: range_split_def)
next
  case False
  then have lt: "dr_start r < point" "point \<le> dr_end r" by auto
  note pt = point_pred [OF lt(1)]
  show ?thesis
  proof (cases "dr_transfer_count r = - 1")
    case True
    then have "chk_add (dr_transfer_count r) 1 = None" by (simp add: rust_arith unat_max_word)
    with lt False True show ?thesis by (simp add: range_split_def pt(1) range_child_def)
  next
    case tc: False
    then obtain n where n: "chk_add (dr_transfer_count r) 1 = Some n" "unat n = unat (dr_transfer_count r) + 1"
      by (rule transfer_count_next)
    obtain a where a: "range_child C r (dr_start r) (point - 1) left tx blk = Some a"
      using n(1) by (simp add: range_child_def)
    obtain b where b: "range_child C r point (dr_end r) right tx blk = Some b"
      using n(1) by (simp add: range_child_def)
    note ab = range_child_Some [OF a] range_child_Some [OF b]
    have pos: "unat point \<noteq> 0" using lt(1) by (auto simp: word_less_nat_alt)
    show ?thesis
    proof (cases "dr_start r = 0 \<and> dr_end r = - 1")
      case True
      then have "range_amount r = None"
        by (auto simp: range_amount_def rust_arith unat_max_word split: option.split)
      then have "verify_split r a b = None" using ab pt(4) by (simp add: verify_split_def)
      then have "range_split C r point left right tx blk = Panic"
        using False by (simp add: range_split_def pt(1) a b)
      with lt True show ?thesis by simp
    next
      case whole: False
      have "verify_split r a b = Some True"
        using lt pt(2) pos ab range_span_fits [OF whole] by (intro verify_split_halves) simp_all
      then have "range_split C r point left right tx blk = Ok (a, b)"
        using False by (simp add: range_split_def pt(1) a b)
      moreover have "range_len a + range_len b = range_len r"
        using lt pt(2,3) pos ab by (simp add: range_len_def word_le_nat_alt word_less_nat_alt)
      ultimately show ?thesis using lt pt(3) ab n(2) by simp
    qed
  qed
qed

section \<open>The partition of the genesis supply\<close>

text \<open>
  The holder's ranges as a list, and the operations on it: replacing a range by its two halves, or
  carrying it to layer 2. A refused or impossible operation leaves the list.
\<close>

datatype range_op = SplitOp nat u64 bytes bytes hash u64 | BridgeOp nat hash

fun range_step :: "'pk crypto_api \<Rightarrow> range_op \<Rightarrow> dna_range list \<Rightarrow> dna_range list" where
  "range_step C (SplitOp i point left right tx blk) rs =
     (if length rs \<le> i then rs
      else case range_split C (rs ! i) point left right tx blk of
        Ok (a, b) \<Rightarrow> take i rs @ [a, b] @ drop (Suc i) rs
      | _ \<Rightarrow> rs)"
| "range_step C (BridgeOp i bridge) rs =
     (if length rs \<le> i then rs else rs[i := bridge_to_l2 C bridge (rs ! i)])"

text \<open>The ranges follow each other without gap from \<open>lo\<close> to \<open>hi\<close>, and each of them verifies.\<close>

fun tiles :: "'pk crypto_api \<Rightarrow> hash \<Rightarrow> nat \<Rightarrow> dna_range list \<Rightarrow> nat \<Rightarrow> bool" where
  "tiles C root lo [] hi \<longleftrightarrow> lo = hi"
| "tiles C root lo (r # rs) hi \<longleftrightarrow>
     unat (dr_start r) = lo \<and> dr_start r \<le> dr_end r \<and> range_verify C r \<and> dr_root_id r = root
     \<and> dr_origin r = Genesis \<and> tiles C root (unat (dr_end r) + 1) rs hi"

lemma tiles_append:
  "tiles C root lo (xs @ ys) hi \<longleftrightarrow> (\<exists>m. tiles C root lo xs m \<and> tiles C root m ys hi)"
  by (induction xs arbitrary: lo) auto

lemma tiles_le: "tiles C root lo rs hi \<Longrightarrow> lo \<le> hi"
  by (induction rs arbitrary: lo) (force simp: word_le_nat_alt)+

lemma tiles_below:
  "tiles C root lo rs hi \<Longrightarrow> r \<in> set rs \<Longrightarrow> lo \<le> unat (dr_start r)"
proof (induction rs arbitrary: lo)
  case (Cons x rs)
  then show ?case by (force simp: word_le_nat_alt)
qed simp

lemma tiles_exactly_one:
  assumes "tiles C root lo rs hi" and "lo \<le> unat s" and "unat s < hi"
  shows "length (filter (\<lambda>r. range_contains r s) rs) = 1"
  using assms
proof (induction rs arbitrary: lo)
  case (Cons r rs)
  have t: "tiles C root (unat (dr_end r) + 1) rs hi" and lo: "unat (dr_start r) = lo"
    using Cons.prems by auto
  show ?case
  proof (cases "unat s \<le> unat (dr_end r)")
    case True
    then have "\<not> range_contains r' s" if "r' \<in> set rs" for r'
      using that tiles_below [OF t that] by (auto simp: range_contains_def word_le_nat_alt)
    then have "filter (\<lambda>r. range_contains r s) rs = []" by (simp add: filter_empty_conv)
    moreover have "range_contains r s"
      using True Cons.prems(2) lo by (simp add: range_contains_def word_le_nat_alt)
    ultimately show ?thesis by simp
  next
    case False
    then have "\<not> range_contains r s" by (simp add: range_contains_def word_le_nat_alt)
    moreover have "length (filter (\<lambda>r. range_contains r s) rs) = 1"
      using Cons.IH [OF t] False Cons.prems(3) by simp
    ultimately show ?thesis by simp
  qed
qed simp

lemma tiles_total: "tiles C root lo rs hi \<Longrightarrow> lo + sum_list (map range_len rs) = hi"
proof (induction rs arbitrary: lo)
  case (Cons r rs)
  have "unat (dr_end r) + 1 + sum_list (map range_len rs) = hi"
    by (rule Cons.IH) (use Cons.prems in simp)
  moreover have "lo + range_len r = unat (dr_end r) + 1"
    using Cons.prems by (auto simp: range_len_def word_le_nat_alt)
  ultimately show ?case by simp
qed simp

lemma tiles_split:
  assumes "tiles C root lo [r] hi" and "range_split C r point left right tx blk = Ok (a, b)"
  shows "tiles C root lo [a, b] hi"
proof -
  note sb = range_split_behaviour [where C = C and r = r and point = point and left = left and right = right
      and tx = tx and blk = blk, unfolded assms(2)]
  from sb have "dr_start r < point" by simp
  then have p: "unat (point - 1) + 1 = unat point"
    by (simp add: unat_sub word_le_nat_alt word_less_nat_alt)
  have "dr_start r \<le> point - 1"
    using \<open>dr_start r < point\<close> p by (simp add: word_le_nat_alt word_less_nat_alt)
  with assms(1) sb p show ?thesis by (simp add: same_provenance_def)
qed

lemma tiles_bridge:
  "tiles C root lo [r] hi \<Longrightarrow> tiles C root lo [bridge_to_l2 C bridge r] hi"
  by (simp add: bridge_to_l2_def seal_range_verify)

lemma range_step_tiles: "tiles C root lo rs hi \<Longrightarrow> tiles C root lo (range_step C x rs) hi"
proof -
  assume t: "tiles C root lo rs hi"
  have one: "tiles C root lo (take i rs @ ys @ drop (Suc i) rs) hi"
    if "i < length rs" and "\<And>m m'. tiles C root m [rs ! i] m' \<Longrightarrow> tiles C root m ys m'" for i ys
  proof -
    have "rs = take i rs @ [rs ! i] @ drop (Suc i) rs" using that(1) by (simp add: id_take_nth_drop)
    then have "tiles C root lo (take i rs @ [rs ! i] @ drop (Suc i) rs) hi" using t by simp
    then show ?thesis unfolding tiles_append using that(2) by blast
  qed
  show ?thesis
  proof (cases x)
    case (SplitOp i point left right tx blk)
    show ?thesis
    proof (cases "i < length rs \<and> is_ok (range_split C (rs ! i) point left right tx blk)")
      case True
      then obtain a b where ok: "range_split C (rs ! i) point left right tx blk = Ok (a, b)"
        by (cases "range_split C (rs ! i) point left right tx blk") auto
      have "tiles C root lo (take i rs @ [a, b] @ drop (Suc i) rs) hi"
        using True ok by (intro one) (simp_all add: tiles_split del: tiles.simps)
      with True ok show ?thesis by (simp add: SplitOp)
    next
      case False
      then have "range_step C x rs = rs"
        by (cases "range_split C (rs ! i) point left right tx blk") (auto simp: SplitOp)
      with t show ?thesis by simp
    qed
  next
    case (BridgeOp i bridge)
    show ?thesis
    proof (cases "i < length rs")
      case True
      have "tiles C root lo (take i rs @ [bridge_to_l2 C bridge (rs ! i)] @ drop (Suc i) rs) hi"
        using True by (intro one) (simp_all only: tiles_bridge)
      with True show ?thesis by (simp add: BridgeOp upd_conv_take_nth_drop)
    qed (use t BridgeOp in simp)
  qed
qed

lemma unat_GENESIS_SUPPLY: "unat GENESIS_SUPPLY = 2100000000000000"
  by (simp add: GENESIS_SUPPLY_def SATOSHIS_PER_AEV_def)

definition genesis_ranges :: "'pk crypto_api \<Rightarrow> hash \<Rightarrow> bytes \<Rightarrow> u64 \<Rightarrow> u64 \<Rightarrow> dna_range list" where
  "genesis_ranges C root owner height timestamp = [range_new_genesis C root owner height timestamp]"

lemma genesis_tiles:
  "tiles C root 0 (genesis_ranges C root owner height timestamp) (unat GENESIS_SUPPLY)"
  by (simp add: genesis_ranges_def range_new_genesis_def seal_range_verify GENESIS_SUPPLY_def
      SATOSHIS_PER_AEV_def)

interpretation ranges: step_system "genesis_ranges C root owner height timestamp" "range_step C"
  "\<lambda>rs. tiles C root 0 rs (unat GENESIS_SUPPLY)"
  for C :: "'pk crypto_api" and root owner height timestamp
  by unfold_locales (rule genesis_tiles, rule range_step_tiles)

text \<open>
  C7. No satoshi is lost, duplicated or given two owners. From the genesis range on, after any sequence
  of splits (at any point, refused ones included) and bridge transfers: every satoshi of the genesis
  supply lies in exactly one range, the amounts add up to the genesis supply, and every range
  verifies, keeps the genesis origin and names the emission root.
\<close>

theorem dna_partition:
  assumes "rs = fold (range_step C) ops (genesis_ranges C root owner height timestamp)"
  shows "(unat s < unat GENESIS_SUPPLY \<longrightarrow> length (filter (\<lambda>r. range_contains r s) rs) = 1)
    \<and> sum_list (map range_len rs) = unat GENESIS_SUPPLY
    \<and> list_all (\<lambda>r. range_verify C r \<and> dr_origin r = Genesis \<and> dr_root_id r = root) rs"
proof -
  have t: "tiles C root 0 rs (unat GENESIS_SUPPLY)" unfolding assms by (rule ranges.run_init_inv)
  moreover have "list_all (\<lambda>r. range_verify C r \<and> dr_origin r = Genesis \<and> dr_root_id r = root) rs"
    if "tiles C root lo rs hi" for lo hi rs
    using that by (induction rs arbitrary: lo) auto
  ultimately show ?thesis using tiles_exactly_one [OF t] tiles_total [OF t] by simp
qed

theorem dna_partition_witness:
  "length (filter (\<lambda>r. range_contains r 7)
     (fold (range_step sample_crypto) [SplitOp 0 5 [1] [2] zero_hash 9, BridgeOp 1 zero_hash]
        (genesis_ranges sample_crypto zero_hash [3] 0 0))) = 1"
proof -
  have "unat (7 :: u64) < unat GENESIS_SUPPLY" by (simp add: unat_GENESIS_SUPPLY)
  then show ?thesis using dna_partition [OF refl, of 7] by blast
qed

section \<open>What the two hashes commit to\<close>

definition range_wf :: "dna_range \<Rightarrow> bool" where
  "range_wf r \<longleftrightarrow> length (dr_root_id r) = 32 \<and> length (dr_owner r) = 32
     \<and> (case dr_parent_range_id r of None \<Rightarrow> True | Some h \<Rightarrow> length h = 32)
     \<and> (case dr_bridge_tx r of None \<Rightarrow> True | Some h \<Rightarrow> length h = 32)
     \<and> (case dr_origin r of Genesis \<Rightarrow> True | EpochMining _ h \<Rightarrow> length h = 32
          | EpochRemainder _ h \<Rightarrow> length h = 32)"

lemma id_preimage_binds:
  assumes "range_wf x" and "range_wf y" and "id_preimage x = id_preimage y"
  shows "(dr_root_id x, dr_parent_range_id x, dr_start x, dr_end x)
       = (dr_root_id y, dr_parent_range_id y, dr_start y, dr_end y)"
proof -
  have rest: "opt_bytes (dr_parent_range_id x) @ le64 (dr_start x) @ le64 (dr_end x)
      = opt_bytes (dr_parent_range_id y) @ le64 (dr_start y) @ le64 (dr_end y)"
    and root: "dr_root_id x = dr_root_id y"
    using assms by (auto simp: id_preimage_def range_wf_def append_eq_append_conv)
  have "length (opt_bytes (dr_parent_range_id x)) = length (opt_bytes (dr_parent_range_id y))"
    using arg_cong [OF rest, of length] by simp
  with rest root assms(1,2) show ?thesis
    by (auto simp: append_eq_append_conv opt_bytes_def range_wf_def split: option.splits)
qed

interpretation range_id_binding: binding id_preimage range_wf
  "\<lambda>r. (dr_root_id r, dr_parent_range_id r, dr_start r, dr_end r)"
  by unfold_locales (rule id_preimage_binds)

text \<open>
  A range identifier commits to the emission root, the parent and the interval; and it does not
  change when the range is carried over to layer 2, so the lineage of the children survives a bridge
  transfer. The proof hash, which covers origin and owner as well, does not tell a parent from
  a bridge: the range with only a parent and the one with only a bridge of the same value have the
  same proof.
\<close>

theorem range_id_commits:
  assumes "range_wf x" and "range_wf y" and "no_collision C (id_preimage x) (id_preimage y)"
  shows "(range_id C x = range_id C y \<longleftrightarrow>
      dr_root_id x = dr_root_id y \<and> dr_parent_range_id x = dr_parent_range_id y
      \<and> dr_start x = dr_start y \<and> dr_end x = dr_end y)
    \<and> range_id C (bridge_to_l2 C h x) = range_id C x
    \<and> range_hash C (x\<lparr>dr_parent_range_id := Some h, dr_bridge_tx := None\<rparr>)
       = range_hash C (x\<lparr>dr_parent_range_id := None, dr_bridge_tx := Some h\<rparr>)"
proof -
  have "range_id C x = range_id C y \<Longrightarrow> (dr_root_id x, dr_parent_range_id x, dr_start x, dr_end x)
       = (dr_root_id y, dr_parent_range_id y, dr_start y, dr_end y)"
    unfolding range_id_def by (rule range_id_binding.hash_binds [OF assms])
  moreover have "range_id C (bridge_to_l2 C h x) = range_id C x"
    by (simp add: range_id_def id_preimage_def bridge_to_l2_def)
  moreover have "range_hash C (x\<lparr>dr_parent_range_id := Some h, dr_bridge_tx := None\<rparr>)
       = range_hash C (x\<lparr>dr_parent_range_id := None, dr_bridge_tx := Some h\<rparr>)"
    by (simp add: range_hash_def proof_preimage_def opt_bytes_def)
  ultimately show ?thesis by (auto simp: range_id_def id_preimage_def)
qed

definition sample_range :: dna_range where
  "sample_range = range_new_genesis sample_crypto zero_hash (replicate 32 3) 0 0"

theorem range_id_commits_witness:
  "range_wf sample_range \<and> range_id sample_crypto (bridge_to_l2 sample_crypto zero_hash sample_range)
     = range_id sample_crypto sample_range"
proof -
  have w: "range_wf sample_range" by (simp add: sample_range_def range_new_genesis_def range_wf_def)
  then show ?thesis using range_id_commits [OF w w, of sample_crypto zero_hash] by simp
qed

end
