(* ===== verification/Mempool.thy ===== *)
theory Mempool
  imports Transaction "HOL-Library.AList"
begin

text \<open>
  \<open>crates/aevum-node/src/mempool.rs\<close>: the bucketed transaction pool. Each public method takes the
  write lock for its whole body, so one call is one step of the state \<open>mempool\<close>.

  \<^item> A \<open>HashMap\<close> is an association list with \<open>AList.update\<close> and \<open>AList.delete\<close>; a \<open>VecDeque\<close> is a list
    with its front at the head. The statistics counters are natural numbers.
  \<^item> \<open>Instant::now()\<close> is an argument, in nanoseconds.
  \<^item> The \<open>while let\<close> loop of \<open>build_block\<close> pushes back a reference that does not fit and tries again, so
    it need not end: it is a partial function, and \<^term>\<open>None\<close> is the loop that never returns.

  The lemmas: an invariant that ties index, store, nullifiers and buckets together and holds after any
  sequence of calls; the effect of \<open>build_block\<close> when everything fits; and its divergence when a
  pooled transaction does not fit.
\<close>

section \<open>State\<close>

definition FEE_BUCKETS :: nat where "FEE_BUCKETS = 64"
definition MIN_FEE :: u64 where "MIN_FEE = 1"
definition MAX_MEMPOOL_TX :: nat where "MAX_MEMPOOL_TX = 50000"
definition MAX_MEMPOOL_BYTES :: nat where "MAX_MEMPOOL_BYTES = 128 * 1024 * 1024"
definition TX_TTL :: nat where "TX_TTL = 3600 * 1000000000"

record tx_ref =
  ref_hash :: hash
  ref_fee :: u64
  ref_size :: u32
  ref_poh_tick :: u64
  ref_inserted_at :: nat

record mempool_stats =
  ms_total_tx :: nat
  ms_total_bytes :: nat
  ms_fee_watermark :: u64
  ms_bucket_depths :: "nat list"
  ms_rejected_low_fee :: nat
  ms_rejected_duplicate :: nat
  ms_rejected_nullifier :: nat
  ms_rejected_full :: nat
  ms_evicted_stale :: nat
  ms_evicted_low_fee :: nat
  ms_blocks_built :: nat
  ms_txs_included :: nat

record ('pk, 'zk, 'dna) mempool =
  mp_buckets :: "tx_ref list list"
  mp_index :: "(hash \<times> tx_ref) list"
  mp_nullifiers :: "(hash \<times> hash) list"
  mp_tx_store :: "(hash \<times> ('pk, 'zk, 'dna) transaction) list"
  mp_total_bytes :: nat
  mp_min_fee_watermark :: u64
  mp_stats :: mempool_stats

definition stats_default :: mempool_stats where
  "stats_default =
     \<lparr>ms_total_tx = 0, ms_total_bytes = 0, ms_fee_watermark = 0,
      ms_bucket_depths = replicate FEE_BUCKETS 0, ms_rejected_low_fee = 0, ms_rejected_duplicate = 0,
      ms_rejected_nullifier = 0, ms_rejected_full = 0, ms_evicted_stale = 0, ms_evicted_low_fee = 0,
      ms_blocks_built = 0, ms_txs_included = 0\<rparr>"

definition mempool_new :: "('pk, 'zk, 'dna) mempool" where
  "mempool_new =
     \<lparr>mp_buckets = replicate FEE_BUCKETS [], mp_index = [], mp_nullifiers = [], mp_tx_store = [],
      mp_total_bytes = 0, mp_min_fee_watermark = MIN_FEE, mp_stats = stats_default\<rparr>"

section \<open>Admission\<close>

fun bit_length :: "nat \<Rightarrow> nat" where
  "bit_length n = (if n = 0 then 0 else Suc (bit_length (n div 2)))"

declare bit_length.simps [simp del]

definition leading_zeros :: "u64 \<Rightarrow> nat" where
  "leading_zeros w = 64 - bit_length (unat w)"

definition bucket_of :: "u64 \<Rightarrow> nat" where
  "bucket_of fee = (if fee = 0 then 0 else min (63 - leading_zeros fee) (FEE_BUCKETS - 1))"

definition estimated_size :: "('pk, 'zk, 'dna) transaction \<Rightarrow> nat" where
  "estimated_size tx =
     (let inputs = usize_sat_mul (length (tx_inputs tx)) 204;
          outputs = usize_sat_mul (length (tx_outputs tx)) 174;
          witnesses = sum_list (map (\<lambda>w. usize_sat_add 4 (length w)) (tx_heartbeat_witnesses tx))
      in usize_sat_add (usize_sat_add (usize_sat_add 63 inputs) outputs) witnesses)"

definition tx_nullifiers :: "('pk, 'zk, 'dna) transaction \<Rightarrow> hash list" where
  "tx_nullifiers tx = map in_nullifier (tx_inputs tx)"

definition refresh_stats :: "('pk, 'zk, 'dna) mempool \<Rightarrow> ('pk, 'zk, 'dna) mempool" where
  "refresh_stats s =
     s\<lparr>mp_stats := (mp_stats s)\<lparr>ms_total_tx := length (mp_index s), ms_total_bytes := mp_total_bytes s\<rparr>\<rparr>"

definition mempool_insert ::
  "nat \<Rightarrow> ('pk, 'zk, 'dna) transaction \<Rightarrow> u64 \<Rightarrow> ('pk, 'zk, 'dna) mempool \<Rightarrow> ('pk, 'zk, 'dna) mempool \<times> bool" where
  "mempool_insert now tx poh_tick s =
     (if tx_fee tx < mp_min_fee_watermark s
        then (s\<lparr>mp_stats := (mp_stats s)\<lparr>ms_rejected_low_fee := ms_rejected_low_fee (mp_stats s) + 1\<rparr>\<rparr>, False)
      else if map_of (mp_index s) (tx_hash tx) \<noteq> None
        then (s\<lparr>mp_stats := (mp_stats s)\<lparr>ms_rejected_duplicate := ms_rejected_duplicate (mp_stats s) + 1\<rparr>\<rparr>, False)
      else if list_ex (\<lambda>n. map_of (mp_nullifiers s) n \<noteq> None) (tx_nullifiers tx)
        then (s\<lparr>mp_stats := (mp_stats s)\<lparr>ms_rejected_nullifier := ms_rejected_nullifier (mp_stats s) + 1\<rparr>\<rparr>, False)
      else let size = min (estimated_size tx) MAX_MEMPOOL_BYTES in
        if MAX_MEMPOOL_TX \<le> length (mp_index s)
          then (s\<lparr>mp_stats := (mp_stats s)\<lparr>ms_rejected_full := ms_rejected_full (mp_stats s) + 1\<rparr>\<rparr>, False)
        else if MAX_MEMPOOL_BYTES < mp_total_bytes s + size
          then (s\<lparr>mp_stats := (mp_stats s)\<lparr>ms_rejected_full := ms_rejected_full (mp_stats s) + 1\<rparr>\<rparr>, False)
        else
          let txref = \<lparr>ref_hash = tx_hash tx, ref_fee = tx_fee tx, ref_size = of_nat size,
                       ref_poh_tick = poh_tick, ref_inserted_at = now\<rparr>;
              bucket = bucket_of (tx_fee tx)
          in (refresh_stats (s\<lparr>
                mp_index := AList.update (tx_hash tx) txref (mp_index s),
                mp_buckets := (mp_buckets s)[bucket := mp_buckets s ! bucket @ [txref]],
                mp_nullifiers := fold (\<lambda>n m. AList.update n (tx_hash tx) m) (tx_nullifiers tx) (mp_nullifiers s),
                mp_tx_store := AList.update (tx_hash tx) tx (mp_tx_store s),
                mp_total_bytes := mp_total_bytes s + size\<rparr>), True))"

section \<open>Removal\<close>

definition forget_nullifiers ::
  "('pk, 'zk, 'dna) transaction \<Rightarrow> (hash \<times> hash) list \<Rightarrow> (hash \<times> hash) list" where
  "forget_nullifiers tx m = fold AList.delete (tx_nullifiers tx) m"

text \<open>The inner \<open>if let Some(tx) = self.tx_store.remove(h)\<close> of the removal loops.\<close>

definition remove_stored :: "hash \<Rightarrow> ('pk, 'zk, 'dna) mempool \<Rightarrow> ('pk, 'zk, 'dna) mempool" where
  "remove_stored h s =
     (case map_of (mp_tx_store s) h of None \<Rightarrow> s
      | Some tx \<Rightarrow> s\<lparr>mp_tx_store := AList.delete h (mp_tx_store s),
                     mp_nullifiers := forget_nullifiers tx (mp_nullifiers s)\<rparr>)"

definition remove_one :: "hash \<Rightarrow> ('pk, 'zk, 'dna) mempool \<Rightarrow> ('pk, 'zk, 'dna) mempool" where
  "remove_one h s =
     (case map_of (mp_index s) h of None \<Rightarrow> s
      | Some txref \<Rightarrow>
          remove_stored h (s\<lparr>mp_index := AList.delete h (mp_index s),
                            mp_total_bytes := mp_total_bytes s - unat (ref_size txref)\<rparr>))"

definition remove_transactions :: "hash list \<Rightarrow> ('pk, 'zk, 'dna) mempool \<Rightarrow> ('pk, 'zk, 'dna) mempool" where
  "remove_transactions hashes s = refresh_stats (fold remove_one hashes s)"

definition evict_one :: "hash \<Rightarrow> ('pk, 'zk, 'dna) mempool \<Rightarrow> ('pk, 'zk, 'dna) mempool" where
  "evict_one h s =
     remove_stored h
       (case map_of (mp_index s) h of None \<Rightarrow> s
        | Some txref \<Rightarrow> s\<lparr>mp_index := AList.delete h (mp_index s),
                          mp_total_bytes := mp_total_bytes s - unat (ref_size txref)\<rparr>)"

definition is_stale :: "nat \<Rightarrow> tx_ref \<Rightarrow> bool" where
  "is_stale now txref \<longleftrightarrow> TX_TTL < now - ref_inserted_at txref"

definition evict_stale :: "nat \<Rightarrow> ('pk, 'zk, 'dna) mempool \<Rightarrow> ('pk, 'zk, 'dna) mempool \<times> nat" where
  "evict_stale now s =
     (let stale = map ref_hash (filter (is_stale now) (concat (mp_buckets s)));
          s1 = fold evict_one stale (s\<lparr>mp_buckets := map (filter (\<lambda>r. \<not> is_stale now r)) (mp_buckets s)\<rparr>);
          s2 = s1\<lparr>mp_stats := (mp_stats s1)\<lparr>ms_evicted_stale := ms_evicted_stale (mp_stats s1) + length stale\<rparr>\<rparr>
      in (refresh_stats s2, length stale))"

definition adjust_fee_floor :: "bool \<Rightarrow> ('pk, 'zk, 'dna) mempool \<Rightarrow> ('pk, 'zk, 'dna) mempool" where
  "adjust_fee_floor congestion s =
     (let w = (if congestion then sat_add (mp_min_fee_watermark s) 1
               else max (sat_sub (mp_min_fee_watermark s) 1) MIN_FEE)
      in s\<lparr>mp_min_fee_watermark := w, mp_stats := (mp_stats s)\<lparr>ms_fee_watermark := w\<rparr>\<rparr>)"

definition get_stats :: "('pk, 'zk, 'dna) mempool \<Rightarrow> mempool_stats" where
  "get_stats s = (mp_stats s)\<lparr>ms_bucket_depths := map length (mp_buckets s)\<rparr>"

section \<open>Building a block\<close>

type_synonym ('pk, 'zk, 'dna) build_state =
  "('pk, 'zk, 'dna) mempool \<times> nat \<times> ('pk, 'zk, 'dna) transaction list"

text \<open>The part of an iteration that takes a transaction whose reference fits.\<close>

definition take_tx :: "tx_ref \<Rightarrow> ('pk, 'zk, 'dna) build_state \<Rightarrow> ('pk, 'zk, 'dna) build_state" where
  "take_tx txref st =
     (case st of (s, bytes, out) \<Rightarrow>
      (case map_of (mp_tx_store s) (ref_hash txref) of None \<Rightarrow> (s, bytes, out)
       | Some tx \<Rightarrow>
           (s\<lparr>mp_tx_store := AList.delete (ref_hash txref) (mp_tx_store s),
              mp_index := AList.delete (ref_hash txref) (mp_index s),
              mp_nullifiers := forget_nullifiers tx (mp_nullifiers s),
              mp_total_bytes := mp_total_bytes s - unat (ref_size txref),
              mp_stats := (mp_stats s)\<lparr>ms_txs_included := ms_txs_included (mp_stats s) + 1\<rparr>\<rparr>,
            bytes + unat (ref_size txref), out @ [tx])))"

text \<open>The loop on one bucket. The flag of the result tells that the block is full.\<close>

partial_function (option) bucket_loop ::
  "nat \<Rightarrow> nat \<Rightarrow> nat \<Rightarrow> ('pk, 'zk, 'dna) build_state \<Rightarrow> (bool \<times> ('pk, 'zk, 'dna) build_state) option" where
  "bucket_loop max_tx max_bytes b st =
     (case st of (s, bytes, out) \<Rightarrow>
      (case mp_buckets s ! b of
         [] \<Rightarrow> Some (False, st)
       | txref # q \<Rightarrow>
           if map_of (mp_index s) (ref_hash txref) = None
             then bucket_loop max_tx max_bytes b (s\<lparr>mp_buckets := (mp_buckets s)[b := q]\<rparr>, bytes, out)
           else if max_bytes < bytes + unat (ref_size txref)
             then bucket_loop max_tx max_bytes b (s\<lparr>mp_buckets := (mp_buckets s)[b := txref # q]\<rparr>, bytes, out)
           else (case take_tx txref (s\<lparr>mp_buckets := (mp_buckets s)[b := q]\<rparr>, bytes, out) of
               (s', bytes', out') \<Rightarrow>
                 if max_tx \<le> length out' then Some (True, (s', bytes', out'))
                 else bucket_loop max_tx max_bytes b (s', bytes', out'))))"

fun buckets_loop ::
  "nat \<Rightarrow> nat \<Rightarrow> nat list \<Rightarrow> ('pk, 'zk, 'dna) build_state \<Rightarrow> ('pk, 'zk, 'dna) build_state option" where
  "buckets_loop max_tx max_bytes [] st = Some st"
| "buckets_loop max_tx max_bytes (b # bs) st =
     (case bucket_loop max_tx max_bytes b st of
        None \<Rightarrow> None
      | Some (True, st') \<Rightarrow> Some st'
      | Some (False, st') \<Rightarrow> buckets_loop max_tx max_bytes bs st')"

definition build_block ::
  "nat \<Rightarrow> nat \<Rightarrow> ('pk, 'zk, 'dna) mempool
     \<Rightarrow> (('pk, 'zk, 'dna) mempool \<times> ('pk, 'zk, 'dna) transaction list) option" where
  "build_block max_tx max_bytes s =
     (case buckets_loop max_tx max_bytes (rev [0..<FEE_BUCKETS]) (s, 0, []) of
        None \<Rightarrow> None
      | Some (s', _, out) \<Rightarrow>
          Some (refresh_stats
            (s'\<lparr>mp_stats := (mp_stats s')\<lparr>ms_blocks_built := ms_blocks_built (mp_stats s') + 1\<rparr>\<rparr>), out))"

section \<open>Queries\<close>

definition pool_len :: "('pk, 'zk, 'dna) mempool \<Rightarrow> nat" where
  "pool_len s = length (mp_index s)"

definition pool_is_empty :: "('pk, 'zk, 'dna) mempool \<Rightarrow> bool" where
  "pool_is_empty s \<longleftrightarrow> mp_index s = []"

definition pool_contains :: "hash \<Rightarrow> ('pk, 'zk, 'dna) mempool \<Rightarrow> bool" where
  "pool_contains h s \<longleftrightarrow> map_of (mp_index s) h \<noteq> None"

section \<open>The invariant\<close>

declare map_of_eq_None_iff [simp del]

text \<open>Index, store and nullifier table describe the same set of transactions.\<close>

definition pool_links ::
  "(hash \<times> tx_ref) list \<Rightarrow> (hash \<times> ('pk, 'zk, 'dna) transaction) list \<Rightarrow> (hash \<times> hash) list \<Rightarrow> bool" where
  "pool_links idx store nulls \<longleftrightarrow>
     distinct (map fst idx) \<and> dom (map_of idx) = dom (map_of store)
     \<and> (\<forall>h tx. map_of store h = Some tx \<longrightarrow> tx_hash tx = h)
     \<and> (\<forall>n h. map_of nulls n = Some h \<longleftrightarrow> (\<exists>tx. map_of store h = Some tx \<and> n \<in> set (tx_nullifiers tx)))"

definition pool_queued :: "tx_ref list list \<Rightarrow> (hash \<times> tx_ref) list \<Rightarrow> bool" where
  "pool_queued bs idx \<longleftrightarrow> length bs = FEE_BUCKETS
     \<and> (\<forall>h \<in> dom (map_of idx). \<exists>r \<in> set (concat bs). ref_hash r = h)
     \<and> (\<forall>b < FEE_BUCKETS. \<forall>r \<in> set (bs ! b). bucket_of (ref_fee r) = b)"

definition pool_inv :: "('pk, 'zk, 'dna) mempool \<Rightarrow> bool" where
  "pool_inv s \<longleftrightarrow> pool_links (mp_index s) (mp_tx_store s) (mp_nullifiers s)
     \<and> pool_queued (mp_buckets s) (mp_index s)
     \<and> length (mp_index s) \<le> MAX_MEMPOOL_TX \<and> mp_total_bytes s \<le> MAX_MEMPOOL_BYTES
     \<and> MIN_FEE \<le> mp_min_fee_watermark s"

lemma map_of_update_all [simp]:
  "map_of (fold (\<lambda>n m. AList.update n h m) ns m) = (\<lambda>n. if n \<in> set ns then Some h else map_of m n)"
  by (induction ns arbitrary: m) (auto simp: fun_eq_iff update_conv')

lemma map_of_delete_all: "map_of (fold AList.delete ns m) = (\<lambda>n. if n \<in> set ns then None else map_of m n)"
  by (induction ns arbitrary: m) (auto simp: fun_eq_iff delete_conv')

lemma map_of_forget [simp]:
  "map_of (forget_nullifiers tx m) = (\<lambda>n. if n \<in> set (tx_nullifiers tx) then None else map_of m n)"
  by (simp add: forget_nullifiers_def map_of_delete_all)

lemma bucket_of_less: "bucket_of fee < FEE_BUCKETS"
  using diff_le_self [of 63 "leading_zeros fee"] by (auto simp: bucket_of_def FEE_BUCKETS_def)

lemma pool_links_insert:
  assumes "pool_links idx store nulls" and "map_of idx (tx_hash tx) = None"
    and "\<forall>n \<in> set (tx_nullifiers tx). map_of nulls n = None"
  shows "pool_links (AList.update (tx_hash tx) r idx) (AList.update (tx_hash tx) tx store)
    (fold (\<lambda>n m. AList.update n (tx_hash tx) m) (tx_nullifiers tx) nulls)"
proof -
  have none: "map_of store (tx_hash tx) = None"
    using assms(1,2) unfolding pool_links_def by (metis domIff)
  let ?store = "map_of (AList.update (tx_hash tx) tx store)"
  let ?nulls = "map_of (fold (\<lambda>n m. AList.update n (tx_hash tx) m) (tx_nullifiers tx) nulls)"
  have store: "?store h = (if h = tx_hash tx then Some tx else map_of store h)" for h
    by (simp add: update_conv')
  have old: "map_of nulls n = Some h \<longleftrightarrow> (\<exists>t. map_of store h = Some t \<and> n \<in> set (tx_nullifiers t))" for n h
    using assms(1) by (simp add: pool_links_def)
  have "?nulls n = Some h \<longleftrightarrow> (\<exists>t. ?store h = Some t \<and> n \<in> set (tx_nullifiers t))" for n h
  proof (cases "h = tx_hash tx")
    case True
    with none old [of n h] show ?thesis by (auto simp: store)
  next
    case False
    with assms(3) old [of n h] show ?thesis by (auto simp: store)
  qed
  then show ?thesis
    using assms(1) by (auto simp: pool_links_def update_conv' distinct_update)
qed

lemma pool_links_remove:
  assumes "pool_links idx store nulls" and "map_of store h = Some tx"
  shows "pool_links (AList.delete h idx) (AList.delete h store) (forget_nullifiers tx nulls)"
proof -
  have own: "map_of nulls n = Some h" if "n \<in> set (tx_nullifiers tx)" for n
    using assms that by (auto simp: pool_links_def)
  then have "\<not> (\<exists>tx'. map_of store h' = Some tx' \<and> n \<in> set (tx_nullifiers tx'))"
    if "n \<in> set (tx_nullifiers tx)" "h' \<noteq> h" for n h'
    using assms(1) that unfolding pool_links_def by (metis option.inject)
  moreover have "map_of nulls n = Some h \<Longrightarrow> n \<in> set (tx_nullifiers tx)" for n
    using assms by (auto simp: pool_links_def)
  ultimately show ?thesis
    using assms by (auto simp: pool_links_def delete_conv' distinct_delete)
qed

lemma pool_queued_mono:
  assumes "pool_queued bs idx" and "dom (map_of idx') \<subseteq> dom (map_of idx)"
  shows "pool_queued bs idx'"
  using assms unfolding pool_queued_def by blast

lemma dom_delete [simp]: "dom (map_of (AList.delete k m)) = dom (map_of m) - {k}"
  by (auto simp: delete_conv' dom_def)

lemma length_delete: "length (AList.delete k m) \<le> length m"
  by (simp add: AList.delete_eq)

lemma pool_links_absent:
  "pool_links idx store nulls \<Longrightarrow> map_of idx h = None \<longleftrightarrow> map_of store h = None"
  unfolding pool_links_def by (metis domIff)

lemma pool_links_present:
  assumes "pool_links idx store nulls" and "map_of idx h = Some r"
  obtains tx where "map_of store h = Some tx"
  using assms pool_links_absent [OF assms(1), of h] by (cases "map_of store h") auto

lemma remove_one_inv: "pool_inv s \<Longrightarrow> pool_inv (remove_one h s)"
proof (cases "map_of (mp_index s) h")
  case (Some r)
  assume inv: "pool_inv s"
  then obtain tx where tx: "map_of (mp_tx_store s) h = Some tx"
    using Some pool_links_present unfolding pool_inv_def by blast
  have "pool_queued (mp_buckets s) (AList.delete h (mp_index s))"
    using inv pool_queued_mono [of "mp_buckets s" "mp_index s"] by (simp add: pool_inv_def)
  with Some tx inv pool_links_remove [OF _ tx] length_delete [of h "mp_index s"] show ?thesis
    by (simp add: pool_inv_def remove_one_def remove_stored_def le_trans [OF diff_le_self])
qed (simp add: remove_one_def)

lemma evict_one_eq:
  assumes "pool_links (mp_index s) (mp_tx_store s) (mp_nullifiers s)"
  shows "evict_one h s = remove_one h s"
proof (cases "map_of (mp_index s) h")
  case None
  then have "map_of (mp_tx_store s) h = None" using pool_links_absent [OF assms, of h] by blast
  with None show ?thesis by (simp add: evict_one_def remove_one_def remove_stored_def)
qed (simp add: evict_one_def remove_one_def)

lemma refresh_stats_inv [simp]: "pool_inv (refresh_stats s) = pool_inv s"
  by (simp add: pool_inv_def refresh_stats_def)

lemma stats_upd_inv [simp]: "pool_inv (s\<lparr>mp_stats := x\<rparr>) = pool_inv s"
  by (simp add: pool_inv_def)

lemma pool_queued_insert:
  assumes q: "pool_queued bs idx"
  shows "pool_queued (bs[bucket_of (ref_fee r) := bs ! bucket_of (ref_fee r) @ [r]]) (AList.update (ref_hash r) r idx)"
    (is "pool_queued ?bs _")
proof -
  let ?b = "bucket_of (ref_fee r)"
  have len: "length bs = FEE_BUCKETS" using q by (simp add: pool_queued_def)
  have "set (bs ! b) \<subseteq> set (?bs ! b)" if "b < FEE_BUCKETS" for b
    using that len by (cases "b = ?b") auto
  then have sub: "set (concat bs) \<subseteq> set (concat ?bs)" using len by (fastforce simp: in_set_conv_nth)
  have "bs ! ?b @ [r] \<in> set ?bs"
    using bucket_of_less [of "ref_fee r"] len by (simp add: set_update_memI)
  then have r: "r \<in> set (concat ?bs)" by force
  have ex: "\<exists>r' \<in> set (concat ?bs). ref_hash r' = h" if "h \<in> dom (map_of (AList.update (ref_hash r) r idx))" for h
  proof (cases "h = ref_hash r")
    case True
    with r show ?thesis by blast
  next
    case False
    with that have "h \<in> dom (map_of idx)" by (auto simp: update_conv')
    then obtain r' where r': "r' \<in> set (concat bs)" "ref_hash r' = h"
      using q unfolding pool_queued_def by blast
    from r'(2) subsetD [OF sub r'(1)] show ?thesis by (rule bexI)
  qed
  have own: "\<forall>b < FEE_BUCKETS. \<forall>r \<in> set (?bs ! b). bucket_of (ref_fee r) = b"
    using q len bucket_of_less [of "ref_fee r"]
    by (auto simp: pool_queued_def nth_list_update split: if_splits)
  have "length ?bs = FEE_BUCKETS" using len by simp
  then show ?thesis unfolding pool_queued_def using ex own by blast
qed

lemma length_update_new: "map_of m k = None \<Longrightarrow> length (AList.update k v m) = Suc (length m)"
  by (induction m) (auto split: if_splits)

lemma insert_True:
  assumes "snd (mempool_insert now tx tick s)"
  shows "mp_min_fee_watermark s \<le> tx_fee tx" "map_of (mp_index s) (tx_hash tx) = None"
    "\<forall>n \<in> set (tx_nullifiers tx). map_of (mp_nullifiers s) n = None"
    "length (mp_index s) < MAX_MEMPOOL_TX"
    "mp_total_bytes s + min (estimated_size tx) MAX_MEMPOOL_BYTES \<le> MAX_MEMPOOL_BYTES"
  using assms by (auto simp: mempool_insert_def Let_def list_ex_iff not_le split: if_splits)

lemma insert_inv: "pool_inv s \<Longrightarrow> pool_inv (fst (mempool_insert now tx tick s))"
proof (cases "snd (mempool_insert now tx tick s)")
  case False
  assume "pool_inv s"
  with False show ?thesis by (auto simp: mempool_insert_def Let_def)
next
  case True
  assume inv: "pool_inv s"
  note g = insert_True [OF True]
  let ?r = "\<lparr>ref_hash = tx_hash tx, ref_fee = tx_fee tx,
    ref_size = of_nat (min (estimated_size tx) MAX_MEMPOOL_BYTES), ref_poh_tick = tick, ref_inserted_at = now\<rparr>"
  have "pool_links (AList.update (tx_hash tx) ?r (mp_index s)) (AList.update (tx_hash tx) tx (mp_tx_store s))
      (fold (\<lambda>n m. AList.update n (tx_hash tx) m) (tx_nullifiers tx) (mp_nullifiers s))"
    using inv by (intro pool_links_insert g) (simp add: pool_inv_def)
  moreover have "pool_queued ((mp_buckets s)[bucket_of (tx_fee tx) := mp_buckets s ! bucket_of (tx_fee tx) @ [?r]])
      (AList.update (tx_hash tx) ?r (mp_index s))"
    using pool_queued_insert [of "mp_buckets s" "mp_index s" ?r] inv by (simp add: pool_inv_def)
  ultimately show ?thesis
    using inv g by (simp add: pool_inv_def mempool_insert_def refresh_stats_def Let_def list_ex_iff length_update_new
        linorder_not_less)
qed

lemma fold_remove_inv: "pool_inv s \<Longrightarrow> pool_inv (fold remove_one hs s)"
  by (induction hs arbitrary: s) (simp_all add: remove_one_inv)

lemma remove_transactions_inv: "pool_inv s \<Longrightarrow> pool_inv (remove_transactions hs s)"
  by (simp add: remove_transactions_def fold_remove_inv)

lemma adjust_fee_floor_inv: "pool_inv s \<Longrightarrow> pool_inv (adjust_fee_floor c s)"
proof -
  assume "pool_inv s"
  moreover have "MIN_FEE \<le> sat_add w 1" if "MIN_FEE \<le> w" for w
    using that unat_lt_pow [of w] by (simp add: word_le_nat_alt rust_arith MIN_FEE_def)
  ultimately show ?thesis by (simp add: pool_inv_def adjust_fee_floor_def Let_def)
qed

lemma evict_one_links:
  assumes "pool_links (mp_index s) (mp_tx_store s) (mp_nullifiers s)"
  shows "pool_links (mp_index (evict_one h s)) (mp_tx_store (evict_one h s)) (mp_nullifiers (evict_one h s))
    \<and> dom (map_of (mp_index (evict_one h s))) = dom (map_of (mp_index s)) - {h}
    \<and> mp_buckets (evict_one h s) = mp_buckets s
    \<and> length (mp_index (evict_one h s)) \<le> length (mp_index s)
    \<and> mp_total_bytes (evict_one h s) \<le> mp_total_bytes s
    \<and> mp_min_fee_watermark (evict_one h s) = mp_min_fee_watermark s"
proof (cases "map_of (mp_index s) h")
  case None
  then show ?thesis using assms by (auto simp: evict_one_eq remove_one_def)
next
  case (Some r)
  with assms obtain tx where tx: "map_of (mp_tx_store s) h = Some tx"
    using pool_links_present by blast
  with Some pool_links_remove [OF assms tx] length_delete [of h "mp_index s"]
  show ?thesis by (simp add: evict_one_eq [OF assms] remove_one_def remove_stored_def)
qed

lemma fold_evict_links:
  assumes "pool_links (mp_index s) (mp_tx_store s) (mp_nullifiers s)"
  shows "pool_links (mp_index (fold evict_one hs s)) (mp_tx_store (fold evict_one hs s)) (mp_nullifiers (fold evict_one hs s))
    \<and> dom (map_of (mp_index (fold evict_one hs s))) = dom (map_of (mp_index s)) - set hs
    \<and> mp_buckets (fold evict_one hs s) = mp_buckets s
    \<and> length (mp_index (fold evict_one hs s)) \<le> length (mp_index s)
    \<and> mp_total_bytes (fold evict_one hs s) \<le> mp_total_bytes s
    \<and> mp_min_fee_watermark (fold evict_one hs s) = mp_min_fee_watermark s"
  using assms
proof (induction hs arbitrary: s)
  case (Cons h hs)
  note e = evict_one_links [OF Cons.prems, of h]
  from Cons.IH [OF conjunct1 [OF e]] conjunct2 [OF e] show ?case by (auto intro: le_trans)
qed simp

lemma pool_queued_filter:
  assumes q: "pool_queued bs idx"
    and d: "dom (map_of idx') \<subseteq> dom (map_of idx) - ref_hash ` {r \<in> set (concat bs). \<not> P r}"
  shows "pool_queued (map (filter P) bs) idx'"
proof -
  have "\<exists>r \<in> set (concat (map (filter P) bs)). ref_hash r = h" if h: "h \<in> dom (map_of idx')" for h
  proof -
    obtain r where r: "r \<in> set (concat bs)" "ref_hash r = h"
      using q d h unfolding pool_queued_def by blast
    with d h have "P r" by blast
    with r show ?thesis by auto
  qed
  with q show ?thesis by (simp add: pool_queued_def)
qed

lemma evict_stale_inv: "pool_inv s \<Longrightarrow> pool_inv (fst (evict_stale now s))"
proof -
  assume inv: "pool_inv s"
  let ?stale = "map ref_hash (filter (is_stale now) (concat (mp_buckets s)))"
  let ?s = "s\<lparr>mp_buckets := map (filter (\<lambda>r. \<not> is_stale now r)) (mp_buckets s)\<rparr>"
  have "pool_links (mp_index ?s) (mp_tx_store ?s) (mp_nullifiers ?s)" using inv by (simp add: pool_inv_def)
  note f = fold_evict_links [OF this, of ?stale]
  then have "pool_queued (map (filter (\<lambda>r. \<not> is_stale now r)) (mp_buckets s)) (mp_index (fold evict_one ?stale ?s))"
    using inv by (intro pool_queued_filter [of _ "mp_index s"]) (auto simp: pool_inv_def)
  with f inv show ?thesis by (auto simp: pool_inv_def evict_stale_def Let_def refresh_stats_def)
qed

section \<open>The loop keeps the invariant\<close>

lemma pool_queued_pop:
  assumes q: "pool_queued bs idx" and b: "b < FEE_BUCKETS" and front: "bs ! b = r # rest"
    and d: "dom (map_of idx') \<subseteq> dom (map_of idx) - {ref_hash r}"
  shows "pool_queued (bs[b := rest]) idx'"
proof -
  have len: "length bs = FEE_BUCKETS" using q by (simp add: pool_queued_def)
  have ex: "\<exists>r' \<in> set (concat (bs[b := rest])). ref_hash r' = h" if h: "h \<in> dom (map_of idx')" for h
  proof -
    obtain r' where r': "r' \<in> set (concat bs)" "ref_hash r' = h"
      using q d h unfolding pool_queued_def by blast
    then obtain i where i: "i < length bs" "r' \<in> set (bs ! i)"
      by (metis (no_types, opaque_lifting) UN_E in_set_conv_nth set_concat)
    have "r' \<noteq> r" using d h r'(2) by blast
    with i front len b have "r' \<in> set (bs[b := rest] ! i)" "i < length (bs[b := rest])"
      by (cases "i = b", auto)
    then have "r' \<in> set (concat (bs[b := rest]))" unfolding set_concat by (meson UN_I nth_mem)
    with r'(2) show ?thesis by blast
  qed
  have own: "\<forall>i < FEE_BUCKETS. \<forall>r' \<in> set (bs[b := rest] ! i). bucket_of (ref_fee r') = i"
    using q b front len by (auto simp: pool_queued_def nth_list_update split: if_splits)
  have "length (bs[b := rest]) = FEE_BUCKETS" using len by simp
  then show ?thesis unfolding pool_queued_def using ex own by blast
qed

lemma pop_ghost_inv:
  assumes "pool_inv s" and "b < FEE_BUCKETS" and "mp_buckets s ! b = r # rest"
    and "map_of (mp_index s) (ref_hash r) = None"
  shows "pool_inv (s\<lparr>mp_buckets := (mp_buckets s)[b := rest]\<rparr>)"
proof -
  have "pool_queued ((mp_buckets s)[b := rest]) (mp_index s)"
    by (rule pool_queued_pop [OF _ assms(2,3)]) (use assms in \<open>auto simp: pool_inv_def\<close>)
  with assms(1) show ?thesis by (simp add: pool_inv_def)
qed

lemma pop_take_eq:
  assumes "pool_inv s" and "map_of (mp_index s) (ref_hash r) \<noteq> None"
  obtains tx where "map_of (mp_tx_store s) (ref_hash r) = Some tx"
    and "take_tx r (s\<lparr>mp_buckets := bs\<rparr>, bytes, out) =
      (s\<lparr>mp_buckets := bs, mp_tx_store := AList.delete (ref_hash r) (mp_tx_store s),
          mp_index := AList.delete (ref_hash r) (mp_index s),
          mp_nullifiers := forget_nullifiers tx (mp_nullifiers s),
          mp_total_bytes := mp_total_bytes s - unat (ref_size r),
          mp_stats := (mp_stats s)\<lparr>ms_txs_included := ms_txs_included (mp_stats s) + 1\<rparr>\<rparr>,
       bytes + unat (ref_size r), out @ [tx])"
proof -
  from assms obtain tx where "map_of (mp_tx_store s) (ref_hash r) = Some tx"
    using pool_links_present [of "mp_index s" "mp_tx_store s" "mp_nullifiers s"] by (auto simp: pool_inv_def)
  with that show thesis by (simp add: take_tx_def)
qed

lemma pop_take_inv:
  assumes inv: "pool_inv s" and b: "b < FEE_BUCKETS" and front: "mp_buckets s ! b = r # rest"
    and idx: "map_of (mp_index s) (ref_hash r) \<noteq> None"
  shows "pool_inv (fst (take_tx r (s\<lparr>mp_buckets := (mp_buckets s)[b := rest]\<rparr>, bytes, out)))"
proof -
  obtain tx where tx: "map_of (mp_tx_store s) (ref_hash r) = Some tx"
    and eq: "take_tx r (s\<lparr>mp_buckets := (mp_buckets s)[b := rest]\<rparr>, bytes, out) =
      (s\<lparr>mp_buckets := (mp_buckets s)[b := rest], mp_tx_store := AList.delete (ref_hash r) (mp_tx_store s),
          mp_index := AList.delete (ref_hash r) (mp_index s),
          mp_nullifiers := forget_nullifiers tx (mp_nullifiers s),
          mp_total_bytes := mp_total_bytes s - unat (ref_size r),
          mp_stats := (mp_stats s)\<lparr>ms_txs_included := ms_txs_included (mp_stats s) + 1\<rparr>\<rparr>,
       bytes + unat (ref_size r), out @ [tx])"
    by (rule pop_take_eq [OF inv idx])
  have "pool_queued ((mp_buckets s)[b := rest]) (AList.delete (ref_hash r) (mp_index s))"
    by (rule pool_queued_pop [OF _ b front]) (use inv in \<open>auto simp: pool_inv_def\<close>)
  with inv pool_links_remove [OF _ tx] length_delete [of "ref_hash r" "mp_index s"] show ?thesis
    by (simp add: eq pool_inv_def le_trans [OF diff_le_self])
qed

text \<open>What holds after a left-over reference is dropped and after a transaction is taken holds after the loops.\<close>

lemma bucket_loop_keeps:
  assumes pop: "\<And>s b r rest. Q s \<Longrightarrow> b < FEE_BUCKETS \<Longrightarrow> mp_buckets s ! b = r # rest \<Longrightarrow> map_of (mp_index s) (ref_hash r) = None
      \<Longrightarrow> Q (s\<lparr>mp_buckets := (mp_buckets s)[b := rest]\<rparr>)"
    and take: "\<And>s b r rest bytes out. Q s \<Longrightarrow> b < FEE_BUCKETS \<Longrightarrow> mp_buckets s ! b = r # rest \<Longrightarrow> map_of (mp_index s) (ref_hash r) \<noteq> None
      \<Longrightarrow> Q (fst (take_tx r (s\<lparr>mp_buckets := (mp_buckets s)[b := rest]\<rparr>, bytes, out)))"
    and res: "bucket_loop mt mb b st = Some res" and b: "b < FEE_BUCKETS" and start: "Q (fst st)"
  shows "Q (fst (snd res))"
proof -
  have "b < FEE_BUCKETS \<longrightarrow> Q (fst st) \<longrightarrow> Q (fst (snd res))"
  proof (rule bucket_loop.raw_induct [where P = "\<lambda>mt mb b st res. b < FEE_BUCKETS \<longrightarrow> Q (fst st) \<longrightarrow> Q (fst (snd res))", OF _ res],
      goal_cases)
    case (1 loop mt mb b st res)
    show ?case
    proof (intro impI)
      assume b: "b < FEE_BUCKETS" and inv: "Q (fst st)"
      obtain s bytes out where st: "st = (s, bytes, out)" by (cases st)
      have IH: "loop mt mb b st' = Some res \<Longrightarrow> Q (fst st') \<Longrightarrow> Q (fst (snd res))" for st'
        using "1"(1) b by blast
      show "Q (fst (snd res))"
      proof (cases "mp_buckets s ! b")
        case Nil
        with "1"(2) st inv show ?thesis by auto
      next
        case (Cons r rest)
        show ?thesis
        proof (cases "map_of (mp_index s) (ref_hash r) = None")
          case True
          with "1"(2) Cons st have "loop mt mb b (s\<lparr>mp_buckets := (mp_buckets s)[b := rest]\<rparr>, bytes, out) = Some res"
            by simp
          from IH [OF this] pop [OF _ b Cons True] inv st show ?thesis by simp
        next
          case False
          obtain s' bytes' out' where t: "take_tx r (s\<lparr>mp_buckets := (mp_buckets s)[b := rest]\<rparr>, bytes, out) = (s', bytes', out')"
            by (metis prod_cases3)
          have "Q s'" using take [OF _ b Cons False, of bytes out] inv st t by simp
          moreover have "s\<lparr>mp_buckets := (mp_buckets s)[b := r # rest]\<rparr> = s"
            unfolding Cons [symmetric] by simp
          ultimately show ?thesis
            using "1"(2) Cons st False t inv by (auto split: if_splits dest!: IH)
        qed
      qed
    qed
  qed
  with b start show ?thesis by blast
qed

lemma buckets_loop_keeps:
  assumes loop: "\<And>mt mb b st res. bucket_loop mt mb b st = Some res \<Longrightarrow> b < FEE_BUCKETS \<Longrightarrow> Q (fst st) \<Longrightarrow> Q (fst (snd res))"
  shows "buckets_loop mt mb bs st = Some st' \<Longrightarrow> \<forall>b \<in> set bs. b < FEE_BUCKETS \<Longrightarrow> Q (fst st) \<Longrightarrow> Q (fst st')"
proof (induction mt mb bs st rule: buckets_loop.induct)
  case (2 mt mb b bs st)
  from "2.prems"(1) obtain fl st1 where l: "bucket_loop mt mb b st = Some (fl, st1)"
    by (auto split: option.splits)
  have "Q (fst st1)" using loop [OF l] "2.prems" by simp
  with l 2 show ?case by (cases fl) auto
qed simp

lemma bucket_loop_inv:
  "bucket_loop mt mb b st = Some res \<Longrightarrow> b < FEE_BUCKETS \<Longrightarrow> pool_inv (fst st) \<Longrightarrow> pool_inv (fst (snd res))"
  by (rule bucket_loop_keeps [of pool_inv, OF pop_ghost_inv pop_take_inv])

lemma buckets_loop_inv:
  "buckets_loop mt mb bs st = Some st' \<Longrightarrow> \<forall>b \<in> set bs. b < FEE_BUCKETS \<Longrightarrow> pool_inv (fst st) \<Longrightarrow> pool_inv (fst st')"
  by (rule buckets_loop_keeps [of pool_inv, OF bucket_loop_inv])

lemma build_block_inv: "pool_inv s \<Longrightarrow> build_block mt mb s = Some (s', out) \<Longrightarrow> pool_inv s'"
  by (auto simp: build_block_def split: option.splits dest!: buckets_loop_inv)

text \<open>The calls of the pool. A call of \<open>build_block\<close> that does not return leaves no later state; the step
  then keeps the state.\<close>

datatype ('pk, 'zk, 'dna) pool_op =
    PoolInsert nat "('pk, 'zk, 'dna) transaction" u64
  | PoolBuild nat nat
  | PoolRemove "hash list"
  | PoolEvict nat
  | PoolFloor bool

fun pool_step :: "('pk, 'zk, 'dna) pool_op \<Rightarrow> ('pk, 'zk, 'dna) mempool \<Rightarrow> ('pk, 'zk, 'dna) mempool" where
  "pool_step (PoolInsert now tx tick) s = fst (mempool_insert now tx tick s)"
| "pool_step (PoolBuild max_tx max_bytes) s =
     (case build_block max_tx max_bytes s of None \<Rightarrow> s | Some (s', _) \<Rightarrow> s')"
| "pool_step (PoolRemove hashes) s = remove_transactions hashes s"
| "pool_step (PoolEvict now) s = fst (evict_stale now s)"
| "pool_step (PoolFloor congestion) s = adjust_fee_floor congestion s"

lemma pool_inv_new: "pool_inv mempool_new"
  by (simp add: pool_inv_def mempool_new_def pool_links_def pool_queued_def)

interpretation pool: step_system mempool_new pool_step pool_inv
proof unfold_locales
  show "pool_inv mempool_new" by (rule pool_inv_new)
  show "pool_inv (pool_step x s)" if "pool_inv s" for x s
    using that
    by (cases x) (auto simp: insert_inv remove_transactions_inv evict_stale_inv adjust_fee_floor_inv
        dest: build_block_inv split: option.splits)
qed

section \<open>When the loop does not end\<close>

lemma bucket_loop_stuck:
  assumes front: "mp_buckets s ! b = r # rest" and idx: "map_of (mp_index s) (ref_hash r) \<noteq> None"
    and big: "max_bytes < bytes + unat (ref_size r)"
  shows "bucket_loop max_tx max_bytes b (s, bytes, out) = None"
proof (rule ccontr)
  assume "bucket_loop max_tx max_bytes b (s, bytes, out) \<noteq> None"
  then obtain res where res: "bucket_loop max_tx max_bytes b (s, bytes, out) = Some res" by blast
  have same: "s\<lparr>mp_buckets := (mp_buckets s)[b := r # rest]\<rparr> = s"
    unfolding front [symmetric] by simp
  have "b' = b \<longrightarrow> st = (s, bytes, out) \<longrightarrow> mb = max_bytes \<longrightarrow> False"
    if "bucket_loop mt mb b' st = Some y" for mt mb b' st y
  proof (rule bucket_loop.raw_induct [where P = "\<lambda>mt mb b' st y. b' = b \<longrightarrow> st = (s, bytes, out) \<longrightarrow> mb = max_bytes \<longrightarrow> False",
      OF _ that], goal_cases)
    case (1 loop mt mb b' st y)
    show ?case
    proof (intro impI)
      assume eqs: "b' = b" "st = (s, bytes, out)" "mb = max_bytes"
      with "1"(2) front idx big same have "loop mt mb b' st = Some y" by auto
      from "1"(1) [OF this] eqs show False by blast
    qed
  qed
  with res show False by blast
qed

lemma bucket_loop_empty: "mp_buckets s ! b = [] \<Longrightarrow> bucket_loop mt mb b (s, bytes, out) = Some (False, (s, bytes, out))"
  by (simp add: bucket_loop.simps)

lemma buckets_loop_stuck:
  assumes "mp_buckets s ! b = r # rest" and "map_of (mp_index s) (ref_hash r) \<noteq> None"
    and "max_bytes < bytes + unat (ref_size r)" and "\<forall>c \<in> set pre. mp_buckets s ! c = []"
  shows "buckets_loop max_tx max_bytes (pre @ b # post) (s, bytes, out) = None"
  using assms(4)
  by (induction pre) (simp_all add: bucket_loop_stuck [OF assms(1-3)] bucket_loop_empty)

section \<open>When everything fits\<close>

text \<open>The loop on one bucket, when no reference is pushed back: it goes through the queue once.\<close>

fun drain ::
  "nat \<Rightarrow> nat \<Rightarrow> tx_ref list \<Rightarrow> ('pk, 'zk, 'dna) build_state \<Rightarrow> bool \<times> ('pk, 'zk, 'dna) build_state" where
  "drain max_tx b [] st = (False, st)"
| "drain max_tx b (r # q) (s, bytes, out) =
     (let st = (s\<lparr>mp_buckets := (mp_buckets s)[b := q]\<rparr>, bytes, out) in
      if map_of (mp_index s) (ref_hash r) = None then drain max_tx b q st
      else (case take_tx r st of (s', bytes', out') \<Rightarrow>
          if max_tx \<le> length out' then (True, (s', bytes', out')) else drain max_tx b q (s', bytes', out')))"

lemma take_tx_buckets: "take_tx r (s, bytes, out) = (s', bytes', out') \<Longrightarrow> mp_buckets s' = mp_buckets s"
  by (auto simp: take_tx_def split: option.splits)

lemma take_tx_bytes: "take_tx r (s, bytes, out) = (s', bytes', out') \<Longrightarrow> bytes' \<le> bytes + unat (ref_size r)"
  by (auto simp: take_tx_def split: option.splits)

definition refs_size :: "tx_ref list \<Rightarrow> nat" where
  "refs_size rs = sum_list (map (unat \<circ> ref_size) rs)"

lemma bucket_loop_drain:
  assumes "mp_buckets s ! b = q" and "b < length (mp_buckets s)" and "bytes + refs_size q \<le> max_bytes"
  shows "bucket_loop max_tx max_bytes b (s, bytes, out) = Some (drain max_tx b q (s, bytes, out))"
  using assms
proof (induction q arbitrary: s bytes out)
  case Nil
  then show ?case by (simp add: bucket_loop_empty)
next
  case (Cons r q)
  let ?s = "s\<lparr>mp_buckets := (mp_buckets s)[b := q]\<rparr>"
  obtain s' bytes' out' where t: "take_tx r (?s, bytes, out) = (s', bytes', out')" by (metis prod_cases3)
  have fits: "bytes + unat (ref_size r) \<le> max_bytes" "bytes + refs_size q \<le> max_bytes"
    using Cons.prems(3) by (simp_all add: refs_size_def)
  have "bytes' + refs_size q \<le> max_bytes"
    using take_tx_bytes [OF t] Cons.prems(3) by (simp add: refs_size_def)
  moreover have "mp_buckets s' = (mp_buckets s)[b := q]" using take_tx_buckets [OF t] by simp
  ultimately have IH: "bucket_loop max_tx max_bytes b (s', bytes', out') = Some (drain max_tx b q (s', bytes', out'))"
    using Cons.IH [of s' bytes'] Cons.prems(2) by simp
  have IH0: "bucket_loop max_tx max_bytes b (?s, bytes, out) = Some (drain max_tx b q (?s, bytes, out))"
    using Cons.IH [of ?s bytes] Cons.prems(2) fits(2) by simp
  show ?case
    using Cons.prems(1) fits(1) t IH IH0 by (simp add: bucket_loop.simps [of _ _ _ "(s, bytes, out)"] Let_def)
qed

text \<open>References tell the fee of the stored transaction they name. A reference left behind by a removal
  can break this only if another transaction with the same declared hash is inserted later.\<close>

definition faithful :: "('pk, 'zk, 'dna) mempool \<Rightarrow> bool" where
  "faithful s \<longleftrightarrow> (\<forall>r \<in> set (concat (mp_buckets s)). \<forall>tx. map_of (mp_tx_store s) (ref_hash r) = Some tx \<longrightarrow> ref_fee r = tx_fee tx)"

abbreviation fee_ordered :: "('pk, 'zk, 'dna) transaction list \<Rightarrow> bool" where
  "fee_ordered \<equiv> sorted_wrt (\<lambda>x y. bucket_of (tx_fee y) \<le> bucket_of (tx_fee x))"

definition building :: "('pk, 'zk, 'dna) mempool \<Rightarrow> nat \<Rightarrow> ('pk, 'zk, 'dna) build_state \<Rightarrow> bool" where
  "building s0 b st \<longleftrightarrow> (case st of (s, bytes, out) \<Rightarrow>
     pool_inv s \<and> faithful s \<and> distinct (map tx_hash out)
     \<and> (\<forall>tx \<in> set out. map_of (mp_tx_store s0) (tx_hash tx) = Some tx \<and> b \<le> bucket_of (tx_fee tx))
     \<and> (\<forall>h. map_of (mp_tx_store s) h = (if h \<in> tx_hash ` set out then None else map_of (mp_tx_store s0) h))
     \<and> fee_ordered out)"

lemma faithful_sub:
  assumes "faithful s" and "set (concat (mp_buckets s')) \<subseteq> set (concat (mp_buckets s))"
    and "\<And>h tx. map_of (mp_tx_store s') h = Some tx \<Longrightarrow> map_of (mp_tx_store s) h = Some tx"
  shows "faithful s'"
  using assms unfolding faithful_def by blast

lemma set_concat_pop:
  assumes "bs ! b = r # q"
  shows "set (concat (bs[b := q])) \<subseteq> set (concat bs)"
proof (cases "b < length bs")
  case True
  have "set (bs ! b) \<subseteq> set (concat bs)" using nth_mem [OF True] by auto
  then have "set q \<subseteq> set (concat bs)" using assms by simp
  moreover have "set (bs[b := q]) \<subseteq> insert q (set bs)" by (rule set_update_subset_insert)
  ultimately show ?thesis by fastforce
qed (simp add: list_update_beyond)

lemma building_pop:
  assumes "building s0 b (s, bytes, out)" and "b < FEE_BUCKETS" and front: "mp_buckets s ! b = r # q"
    and "map_of (mp_index s) (ref_hash r) = None"
  shows "building s0 b (s\<lparr>mp_buckets := (mp_buckets s)[b := q]\<rparr>, bytes, out)"
proof -
  have "faithful (s\<lparr>mp_buckets := (mp_buckets s)[b := q]\<rparr>)"
  proof (rule faithful_sub [of s])
    show "faithful s" using assms(1) by (simp add: building_def)
    show "set (concat (mp_buckets (s\<lparr>mp_buckets := (mp_buckets s)[b := q]\<rparr>))) \<subseteq> set (concat (mp_buckets s))"
      unfolding mempool.select_convs mempool.update_convs using set_concat_pop [OF front] by simp
  qed simp
  moreover have "pool_inv (s\<lparr>mp_buckets := (mp_buckets s)[b := q]\<rparr>)"
    using assms(1) by (intro pop_ghost_inv [OF _ assms(2) front assms(4)]) (simp add: building_def)
  ultimately show ?thesis using assms(1) by (simp add: building_def)
qed

lemma building_take:
  assumes bld: "building s0 b (s, bytes, out)" and b: "b < FEE_BUCKETS" and front: "mp_buckets s ! b = r # q"
    and idx: "map_of (mp_index s) (ref_hash r) \<noteq> None"
    and t: "take_tx r (s\<lparr>mp_buckets := (mp_buckets s)[b := q]\<rparr>, bytes, out) = (s', bytes', out')"
  shows "building s0 b (s', bytes', out') \<and> length out' = Suc (length out) \<and> mp_buckets s' = (mp_buckets s)[b := q]"
proof -
  have inv: "pool_inv s" using bld by (simp add: building_def)
  obtain tx where tx: "map_of (mp_tx_store s) (ref_hash r) = Some tx"
    and eq0: "take_tx r (s\<lparr>mp_buckets := (mp_buckets s)[b := q]\<rparr>, bytes, out) =
      (s\<lparr>mp_buckets := (mp_buckets s)[b := q], mp_tx_store := AList.delete (ref_hash r) (mp_tx_store s),
          mp_index := AList.delete (ref_hash r) (mp_index s),
          mp_nullifiers := forget_nullifiers tx (mp_nullifiers s),
          mp_total_bytes := mp_total_bytes s - unat (ref_size r),
          mp_stats := (mp_stats s)\<lparr>ms_txs_included := ms_txs_included (mp_stats s) + 1\<rparr>\<rparr>,
       bytes + unat (ref_size r), out @ [tx])"
    by (rule pop_take_eq [OF inv idx])
  from eq0 t have out': "out' = out @ [tx]"
    and store': "mp_tx_store s' = AList.delete (ref_hash r) (mp_tx_store s)"
    and buckets: "mp_buckets s' = (mp_buckets s)[b := q]"
    by auto
  have store: "map_of (mp_tx_store s') h = (if h = ref_hash r then None else map_of (mp_tx_store s) h)" for h
    by (simp add: store' delete_conv')
  have hash: "tx_hash tx = ref_hash r" using inv tx by (simp add: pool_inv_def pool_links_def)
  have len: "b < length (mp_buckets s)" using inv b by (simp add: pool_inv_def pool_queued_def)
  have "set (mp_buckets s ! b) \<subseteq> set (concat (mp_buckets s))" using nth_mem [OF len] by auto
  with front have mem: "r \<in> set (concat (mp_buckets s))" by simp
  have "bucket_of (ref_fee r) = b"
    using inv b front by (simp add: pool_inv_def pool_queued_def)
  moreover have "ref_fee r = tx_fee tx" using bld mem tx unfolding building_def faithful_def by blast
  ultimately have fee: "bucket_of (tx_fee tx) = b" by simp
  have "faithful s'"
  proof (rule faithful_sub [of s])
    show "faithful s" using bld by (simp add: building_def)
    show "set (concat (mp_buckets s')) \<subseteq> set (concat (mp_buckets s))"
      unfolding buckets by (rule set_concat_pop [OF front])
  qed (simp add: store split: if_splits)
  moreover have "pool_inv s'" using pop_take_inv [OF inv b front idx, of bytes out] t by simp
  moreover have "ref_hash r \<notin> tx_hash ` set out" "map_of (mp_tx_store s0) (ref_hash r) = Some tx"
    using bld tx by (auto simp: building_def split: if_splits)
  ultimately show ?thesis
    using bld hash fee store buckets by (auto simp: building_def out' sorted_wrt_append)
qed

lemma drain_building:
  assumes "building s0 b (s, bytes, out)" and "b < FEE_BUCKETS" and "mp_buckets s ! b = q"
    and "length out < max mt 1" and "drain mt b q (s, bytes, out) = (fl, (s', bytes', out'))"
  shows "building s0 b (s', bytes', out') \<and> bytes' \<le> bytes + refs_size q
    \<and> (if fl then length out' = max mt 1
       else length out' < max mt 1 \<and> mp_buckets s' = (mp_buckets s)[b := []])"
  using assms
proof (induction q arbitrary: s bytes out)
  case Nil
  then have "(mp_buckets s)[b := []] = mp_buckets s" by (metis list_update_id)
  with Nil show ?case by simp
next
  case (Cons r q)
  let ?s = "s\<lparr>mp_buckets := (mp_buckets s)[b := q]\<rparr>"
  have len: "b < length (mp_buckets s)"
    using Cons.prems(1,2) by (simp add: building_def pool_inv_def pool_queued_def)
  show ?case
  proof (cases "map_of (mp_index s) (ref_hash r) = None")
    case True
    with Cons.IH [OF building_pop [OF Cons.prems(1-3) True]] Cons.prems len show ?thesis
      by (auto simp: refs_size_def split: if_splits)
  next
    case False
    obtain s1 bytes1 out1 where t: "take_tx r (?s, bytes, out) = (s1, bytes1, out1)" by (metis prod_cases3)
    note bt = building_take [OF Cons.prems(1-3) False t] and by1 = take_tx_bytes [OF t]
    show ?thesis
    proof (cases "mt \<le> length out1")
      case True
      with Cons.prems(4,5) False t bt by1 show ?thesis by (auto simp: refs_size_def max_def split: if_splits)
    next
      case nf: False
      then have "drain mt b q (s1, bytes1, out1) = (fl, (s', bytes', out'))"
        using Cons.prems(5) False t by simp
      from Cons.IH [of s1 bytes1 out1, OF _ Cons.prems(2) _ _ this] bt by1 nf len show ?thesis
        by (auto simp: refs_size_def split: if_splits)
    qed
  qed
qed

lemma building_weaken: "building s0 b st \<Longrightarrow> c \<le> b \<Longrightarrow> building s0 c st"
  by (auto simp: building_def)

lemma buckets_loop_building:
  assumes "sorted_wrt (>) bs" and "\<forall>c \<in> set bs. c < FEE_BUCKETS \<and> building s0 c (s, bytes, out)"
    and "bytes + sum_list (map (\<lambda>c. refs_size (mp_buckets s ! c)) bs) \<le> mb" and "length out < max mt 1"
    and "building s0 0 (s, bytes, out)"
  shows "\<exists>s' bytes' out'. buckets_loop mt mb bs (s, bytes, out) = Some (s', bytes', out')
    \<and> building s0 0 (s', bytes', out')
    \<and> (length out' = max mt 1 \<or> length out' < max mt 1 \<and> (\<forall>c \<in> set bs. mp_buckets s' ! c = [])
        \<and> (\<forall>c. c \<notin> set bs \<longrightarrow> mp_buckets s' ! c = mp_buckets s ! c))"
  using assms
proof (induction bs arbitrary: s bytes out)
  case Nil
  then show ?case by simp
next
  case (Cons b bs)
  have b: "b < FEE_BUCKETS" and bld: "building s0 b (s, bytes, out)" using Cons.prems(2) by simp_all
  have len: "b < length (mp_buckets s)" using b bld by (simp add: building_def pool_inv_def pool_queued_def)
  obtain fl s1 bytes1 out1 where dr: "drain mt b (mp_buckets s ! b) (s, bytes, out) = (fl, (s1, bytes1, out1))"
    by (metis prod_cases4)
  note d = drain_building [OF bld b refl Cons.prems(4) dr]
  have loop: "bucket_loop mt mb b (s, bytes, out) = Some (fl, (s1, bytes1, out1))"
    using bucket_loop_drain [OF refl len, of bytes mb] Cons.prems(3) dr by simp
  show ?case
  proof (cases fl)
    case True
    with loop d building_weaken [OF conjunct1 [OF d], of 0] show ?thesis by simp
  next
    case False
    with d have d': "building s0 b (s1, bytes1, out1)" "length out1 < max mt 1" "mp_buckets s1 = (mp_buckets s)[b := []]"
        "bytes1 \<le> bytes + refs_size (mp_buckets s ! b)" by simp_all
    have other: "c \<in> set bs \<Longrightarrow> c \<noteq> b" for c using Cons.prems(1) by auto
    then have eq: "map (\<lambda>c. refs_size (mp_buckets s1 ! c)) bs = map (\<lambda>c. refs_size (mp_buckets s ! c)) bs"
      by (intro map_cong refl) (metis d'(3) nth_list_update_neq)
    have "bytes1 + sum_list (map (\<lambda>c. refs_size (mp_buckets s1 ! c)) bs) \<le> mb"
      unfolding eq using Cons.prems(3) d'(4) by simp
    from Cons.IH [OF _ _ this d'(2)] obtain s' bytes' out' where
        l: "buckets_loop mt mb bs (s1, bytes1, out1) = Some (s', bytes', out')" "building s0 0 (s', bytes', out')"
        "length out' = max mt 1 \<or> length out' < max mt 1 \<and> (\<forall>c \<in> set bs. mp_buckets s' ! c = [])
        \<and> (\<forall>c. c \<notin> set bs \<longrightarrow> mp_buckets s' ! c = mp_buckets s1 ! c)"
      using Cons.prems(1,2) building_weaken [OF d'(1)] less_imp_le by fastforce
    have "b \<notin> set bs" using other by blast
    then have "(\<forall>c. c \<notin> set bs \<longrightarrow> mp_buckets s' ! c = mp_buckets s1 ! c) \<Longrightarrow>
        mp_buckets s' ! b = [] \<and> (\<forall>c. c \<notin> set (b # bs) \<longrightarrow> mp_buckets s' ! c = mp_buckets s ! c)"
      using d'(3) len by simp
    with l loop False show ?thesis by auto
  qed
qed

lemma refs_size_concat: "refs_size (concat bs) = sum_list (map (\<lambda>c. refs_size (bs ! c)) (rev [0..<length bs]))"
proof -
  have "refs_size (concat bs) = sum_list (map refs_size bs)"
    by (induction bs) (simp_all add: refs_size_def)
  also have "map refs_size bs = map (\<lambda>c. refs_size (bs ! c)) [0..<length bs]"
    by (rule nth_equalityI) simp_all
  finally show ?thesis by (simp add: rev_map [symmetric] sum_list_rev)
qed

lemma pool_len_card: "pool_inv s \<Longrightarrow> pool_len s = card (dom (map_of (mp_tx_store s)))"
  by (simp add: pool_len_def pool_inv_def pool_links_def distinct_card dom_map_of_conv_image_fst
      flip: distinct_card [of "map fst (mp_index s)", simplified] set_map)

lemma building_length_le:
  assumes "building s0 b (s, bytes, out)" and "pool_inv s0"
  shows "length out \<le> pool_len s0"
    and "mp_index s = [] \<Longrightarrow> length out = pool_len s0"
proof -
  have d: "card (tx_hash ` set out) = length out"
    using assms(1) by (metis (mono_tags, lifting) building_def case_prod_conv distinct_card length_map set_map)
  have sub: "tx_hash ` set out \<subseteq> dom (map_of (mp_tx_store s0))"
    using assms(1) by (auto simp: building_def)
  then show "length out \<le> pool_len s0"
    using card_mono [OF finite_dom_map_of sub] d pool_len_card [OF assms(2)] by simp
  assume "mp_index s = []"
  then have "map_of (mp_tx_store s) h = None" for h
    using assms(1) pool_links_absent [of "mp_index s" "mp_tx_store s" "mp_nullifiers s" h]
    by (simp add: building_def pool_inv_def)
  then have "dom (map_of (mp_tx_store s0)) \<subseteq> tx_hash ` set out"
    using assms(1) by (fastforce simp: building_def split: if_splits)
  with sub d pool_len_card [OF assms(2)] show "length out = pool_len s0" by (metis subset_antisym)
qed

lemma pooled_nullifiers_disjoint:
  assumes "pool_inv s" and "map_of (mp_tx_store s) h = Some tx" and "map_of (mp_tx_store s) h' = Some tx'"
    and "n \<in> set (tx_nullifiers tx)" and "n \<in> set (tx_nullifiers tx')"
  shows "h = h'"
proof -
  have "map_of (mp_nullifiers s) n = Some g \<longleftrightarrow> (\<exists>t. map_of (mp_tx_store s) g = Some t \<and> n \<in> set (tx_nullifiers t))" for g
    using assms(1) by (simp add: pool_inv_def pool_links_def)
  from this [of h] this [of h'] assms(2-) show ?thesis by auto
qed

lemma empty_buckets_empty_index:
  assumes "pool_inv s" and "\<forall>c < FEE_BUCKETS. mp_buckets s ! c = []"
  shows "mp_index s = []"
proof -
  have "set (concat (mp_buckets s)) = {}"
    using assms by (force simp: pool_inv_def pool_queued_def in_set_conv_nth)
  then have "h \<notin> dom (map_of (mp_index s))" for h
    using assms(1) unfolding pool_inv_def pool_queued_def by (metis empty_iff)
  then have "dom (map_of (mp_index s)) = {}" by blast
  then show ?thesis by (simp add: dom_map_of_conv_image_fst)
qed

section \<open>Accounting\<close>

text \<open>The size a transaction is booked with, and the sizes of all pooled transactions together.\<close>

definition booked_size :: "('pk, 'zk, 'dna) transaction \<Rightarrow> nat" where
  "booked_size tx = min (estimated_size tx) MAX_MEMPOOL_BYTES"

definition pooled_bytes :: "('pk, 'zk, 'dna) mempool \<Rightarrow> nat" where
  "pooled_bytes s =
     (\<Sum>h \<in> fst ` set (mp_tx_store s). case map_of (mp_tx_store s) h of None \<Rightarrow> 0 | Some tx \<Rightarrow> booked_size tx)"

text \<open>The transactions a sequence of calls submits, and that their declared hashes determine fee and size.
  The pool does not check hashes; its callers do.\<close>

fun submitted :: "('pk, 'zk, 'dna) pool_op list \<Rightarrow> ('pk, 'zk, 'dna) transaction list" where
  "submitted [] = []"
| "submitted (PoolInsert now tx tick # ops) = tx # submitted ops"
| "submitted (_ # ops) = submitted ops"

definition hashes_determine :: "('pk, 'zk, 'dna) transaction list \<Rightarrow> bool" where
  "hashes_determine txs \<longleftrightarrow> (\<forall>tx \<in> set txs. \<forall>tx' \<in> set txs. tx_hash tx = tx_hash tx'
     \<longrightarrow> tx_fee tx = tx_fee tx' \<and> estimated_size tx = estimated_size tx')"

text \<open>Every reference and every stored transaction has the fee and size of its hash, and the counter is the sum.\<close>

definition booked ::
  "(hash \<Rightarrow> u64) \<Rightarrow> (hash \<Rightarrow> nat) \<Rightarrow> tx_ref list list \<Rightarrow> (hash \<times> tx_ref) list
     \<Rightarrow> (hash \<times> ('pk, 'zk, 'dna) transaction) list \<Rightarrow> nat \<Rightarrow> bool" where
  "booked fee_of bytes_of bs idx store tot \<longleftrightarrow>
     (\<forall>r \<in> set (concat bs). ref_fee r = fee_of (ref_hash r) \<and> unat (ref_size r) = bytes_of (ref_hash r))
     \<and> (\<forall>h r. map_of idx h = Some r \<longrightarrow> unat (ref_size r) = bytes_of h)
     \<and> (\<forall>h tx. map_of store h = Some tx \<longrightarrow> tx_fee tx = fee_of h \<and> booked_size tx = bytes_of h)
     \<and> tot = (\<Sum>h \<in> dom (map_of idx). bytes_of h)"

abbreviation booked_pool :: "(hash \<Rightarrow> u64) \<Rightarrow> (hash \<Rightarrow> nat) \<Rightarrow> ('pk, 'zk, 'dna) mempool \<Rightarrow> bool" where
  "booked_pool fee_of bytes_of s \<equiv> booked fee_of bytes_of (mp_buckets s) (mp_index s) (mp_tx_store s) (mp_total_bytes s)"

lemma booked_refs_sub:
  "booked fee_of bytes_of bs idx store tot \<Longrightarrow> set (concat bs') \<subseteq> set (concat bs) \<Longrightarrow> booked fee_of bytes_of bs' idx store tot"
  unfolding booked_def by blast

lemma booked_delete:
  assumes "booked fee_of bytes_of bs idx store tot" and "map_of idx h \<noteq> None"
  shows "booked fee_of bytes_of bs (AList.delete h idx) (AList.delete h store) (tot - bytes_of h)"
proof -
  have "(\<Sum>g \<in> dom (map_of idx) - {h}. bytes_of g) = tot - bytes_of h"
    using assms by (subst sum_diff1_nat) (auto simp: booked_def finite_dom_map_of)
  with assms(1) show ?thesis by (simp add: booked_def delete_conv')
qed

lemma booked_insert:
  assumes old: "booked fee_of bytes_of bs idx store tot" and new: "map_of idx (tx_hash tx) = None"
    and tx: "tx_fee tx = fee_of (tx_hash tx)" "booked_size tx = bytes_of (tx_hash tx)"
    and r: "ref_hash r = tx_hash tx" "ref_fee r = tx_fee tx" "unat (ref_size r) = booked_size tx"
  shows "booked fee_of bytes_of (bs[b := bs ! b @ [r]]) (AList.update (tx_hash tx) r idx)
    (AList.update (tx_hash tx) tx store) (tot + booked_size tx)"
proof -
  have refs: "set (concat (bs[b := bs ! b @ [r]])) \<subseteq> insert r (set (concat bs))"
  proof (cases "b < length bs")
    case True
    then have "set (bs ! b) \<subseteq> set (concat bs)" by (metis UN_upper nth_mem set_concat)
    then show ?thesis using set_update_subset_insert [of bs b "bs ! b @ [r]"] by fastforce
  qed (simp add: list_update_beyond subset_insertI)
  have "dom (map_of (AList.update (tx_hash tx) r idx)) = insert (tx_hash tx) (dom (map_of idx))"
    by (auto simp: update_conv')
  with new old tx(2) have "(\<Sum>h \<in> dom (map_of (AList.update (tx_hash tx) r idx)). bytes_of h) = tot + booked_size tx"
    by (simp add: booked_def finite_dom_map_of domIff)
  moreover have "\<forall>r' \<in> set (concat (bs[b := bs ! b @ [r]])). ref_fee r' = fee_of (ref_hash r') \<and> unat (ref_size r') = bytes_of (ref_hash r')"
    using refs old tx r unfolding booked_def by fastforce
  ultimately show ?thesis
    using old tx r by (simp add: booked_def update_conv')
qed

lemma booked_size_ref: "unat (of_nat (booked_size tx) :: u32) = booked_size tx"
proof -
  have "booked_size tx < 2 ^ 32" by (simp add: booked_size_def MAX_MEMPOOL_BYTES_def min_def)
  then show ?thesis by (simp add: unat_of_nat)
qed

lemma insert_booked:
  assumes "booked_pool fee_of bytes_of s" and "tx_fee tx = fee_of (tx_hash tx)" and "booked_size tx = bytes_of (tx_hash tx)"
  shows "booked_pool fee_of bytes_of (fst (mempool_insert now tx tick s))"
proof (cases "snd (mempool_insert now tx tick s)")
  case False
  then have "\<exists>st. fst (mempool_insert now tx tick s) = s\<lparr>mp_stats := st\<rparr>"
    by (auto simp: mempool_insert_def Let_def)
  with assms(1) show ?thesis by auto
next
  case True
  note g = insert_True [OF True]
  let ?r = "\<lparr>ref_hash = tx_hash tx, ref_fee = tx_fee tx, ref_size = of_nat (booked_size tx), ref_poh_tick = tick, ref_inserted_at = now\<rparr>"
  from booked_insert [OF assms(1) g(2) assms(2,3), of ?r "bucket_of (tx_fee tx)"] g assms(1) show ?thesis
    by (simp add: mempool_insert_def refresh_stats_def Let_def list_ex_iff linorder_not_less booked_size_ref
        flip: booked_size_def)
qed

lemma remove_one_booked:
  assumes "booked_pool fee_of bytes_of s" and "pool_links (mp_index s) (mp_tx_store s) (mp_nullifiers s)"
  shows "booked_pool fee_of bytes_of (remove_one h s)"
proof (cases "map_of (mp_index s) h")
  case (Some r)
  then obtain tx where "map_of (mp_tx_store s) h = Some tx" using assms(2) pool_links_present by blast
  moreover have "unat (ref_size r) = bytes_of h" using assms(1) Some by (simp add: booked_def)
  ultimately show ?thesis
    using booked_delete [OF assms(1), of h] Some by (simp add: remove_one_def remove_stored_def)
qed (simp add: remove_one_def assms(1))

lemma fold_remove_booked:
  "booked_pool fee_of bytes_of s \<Longrightarrow> pool_inv s \<Longrightarrow> booked_pool fee_of bytes_of (fold remove_one hs s)"
proof (induction hs arbitrary: s)
  case (Cons h hs)
  then have "booked_pool fee_of bytes_of (remove_one h s)"
    by (intro remove_one_booked) (simp_all add: pool_inv_def)
  with Cons remove_one_inv [of s h] show ?case by simp
qed simp

lemma fold_evict_booked:
  "booked_pool fee_of bytes_of s \<Longrightarrow> pool_links (mp_index s) (mp_tx_store s) (mp_nullifiers s)
   \<Longrightarrow> booked_pool fee_of bytes_of (fold evict_one hs s)"
proof (induction hs arbitrary: s)
  case (Cons h hs)
  then have "booked_pool fee_of bytes_of (evict_one h s)"
    by (simp add: evict_one_eq remove_one_booked)
  with Cons evict_one_links [of s h] show ?case by simp
qed simp

lemma evict_stale_booked:
  assumes "booked_pool fee_of bytes_of s" and "pool_inv s"
  shows "booked_pool fee_of bytes_of (fst (evict_stale now s))"
proof -
  let ?s = "s\<lparr>mp_buckets := map (filter (\<lambda>r. \<not> is_stale now r)) (mp_buckets s)\<rparr>"
  have "booked_pool fee_of bytes_of ?s"
    unfolding mempool.select_convs mempool.update_convs by (rule booked_refs_sub) (use assms(1) in auto)
  moreover have "pool_links (mp_index ?s) (mp_tx_store ?s) (mp_nullifiers ?s)" using assms(2) by (simp add: pool_inv_def)
  ultimately show ?thesis
    using fold_evict_booked [of fee_of bytes_of ?s] by (simp add: evict_stale_def Let_def refresh_stats_def)
qed

lemma take_tx_booked:
  assumes "pool_inv s" and "booked_pool fee_of bytes_of s" and "b < FEE_BUCKETS" and front: "mp_buckets s ! b = r # rest"
    and "map_of (mp_index s) (ref_hash r) \<noteq> None"
  shows "booked_pool fee_of bytes_of (fst (take_tx r (s\<lparr>mp_buckets := (mp_buckets s)[b := rest]\<rparr>, bytes, out)))"
proof -
  have len: "b < length (mp_buckets s)" using assms(1,3) by (simp add: pool_inv_def pool_queued_def)
  have "r \<in> set (concat (mp_buckets s))" using nth_mem [OF len] front by force
  then have "unat (ref_size r) = bytes_of (ref_hash r)" using assms(2) unfolding booked_def by blast
  moreover have "booked fee_of bytes_of ((mp_buckets s)[b := rest]) (mp_index s) (mp_tx_store s) (mp_total_bytes s)"
    by (rule booked_refs_sub [OF assms(2) set_concat_pop [of _ b r], OF front])
  note booked_delete [OF this assms(5)]
  moreover obtain tx where "take_tx r (s\<lparr>mp_buckets := (mp_buckets s)[b := rest]\<rparr>, bytes, out) =
      (s\<lparr>mp_buckets := (mp_buckets s)[b := rest], mp_tx_store := AList.delete (ref_hash r) (mp_tx_store s),
          mp_index := AList.delete (ref_hash r) (mp_index s),
          mp_nullifiers := forget_nullifiers tx (mp_nullifiers s),
          mp_total_bytes := mp_total_bytes s - unat (ref_size r),
          mp_stats := (mp_stats s)\<lparr>ms_txs_included := ms_txs_included (mp_stats s) + 1\<rparr>\<rparr>,
       bytes + unat (ref_size r), out @ [tx])"
    by (rule pop_take_eq [OF assms(1,5)])
  ultimately show ?thesis by simp
qed

lemma pop_ghost_booked:
  "booked_pool fee_of bytes_of s \<Longrightarrow> mp_buckets s ! b = r # rest
   \<Longrightarrow> booked_pool fee_of bytes_of (s\<lparr>mp_buckets := (mp_buckets s)[b := rest]\<rparr>)"
  using booked_refs_sub [OF _ set_concat_pop] by simp

lemma bucket_loop_booked:
  "bucket_loop mt mb b st = Some res \<Longrightarrow> b < FEE_BUCKETS \<Longrightarrow> pool_inv (fst st) \<and> booked_pool fee_of bytes_of (fst st)
   \<Longrightarrow> pool_inv (fst (snd res)) \<and> booked_pool fee_of bytes_of (fst (snd res))"
  by (rule bucket_loop_keeps [of "\<lambda>s. pool_inv s \<and> booked_pool fee_of bytes_of s"])
    (blast intro: pop_ghost_inv pop_ghost_booked pop_take_inv take_tx_booked)+

lemma build_block_booked:
  assumes "booked_pool fee_of bytes_of s" and "pool_inv s" and "build_block mt mb s = Some (s', out)"
  shows "booked_pool fee_of bytes_of s'"
proof -
  from assms(3) obtain s1 bytes where b: "buckets_loop mt mb (rev [0..<FEE_BUCKETS]) (s, 0, []) = Some (s1, bytes, out)"
    and s': "s' = refresh_stats (s1\<lparr>mp_stats := (mp_stats s1)\<lparr>ms_blocks_built := ms_blocks_built (mp_stats s1) + 1\<rparr>\<rparr>)"
    by (auto simp: build_block_def split: option.splits)
  have "pool_inv s1 \<and> booked_pool fee_of bytes_of s1"
    using buckets_loop_keeps [of "\<lambda>s. pool_inv s \<and> booked_pool fee_of bytes_of s", OF bucket_loop_booked b] assms(1,2) by simp
  then show ?thesis by (simp add: s' refresh_stats_def)
qed

lemma submitted_append: "submitted (ops @ ops') = submitted ops @ submitted ops'"
  by (induction ops rule: submitted.induct) simp_all

lemma run_booked:
  assumes "\<forall>tx \<in> set (submitted ops). tx_fee tx = fee_of (tx_hash tx) \<and> booked_size tx = bytes_of (tx_hash tx)"
  shows "booked_pool fee_of bytes_of (fold pool_step ops mempool_new)"
  using assms
proof (induction ops rule: rev_induct)
  case Nil
  show ?case by (simp add: booked_def mempool_new_def)
next
  case (snoc op ops)
  let ?s = "fold pool_step ops mempool_new"
  have IH: "booked_pool fee_of bytes_of ?s" using snoc by (simp add: submitted_append)
  have inv: "pool_inv ?s" by (rule pool.run_init_inv)
  show ?case
  proof (cases op)
    case (PoolInsert now tx tick)
    with insert_booked [OF IH, of tx] snoc.prems show ?thesis by (simp add: submitted_append)
  next
    case (PoolBuild mt mb)
    with IH build_block_booked [OF IH inv] show ?thesis by (auto split: option.splits)
  next
    case (PoolRemove hs)
    with fold_remove_booked [OF IH inv] show ?thesis by (simp add: remove_transactions_def refresh_stats_def)
  next
    case (PoolEvict now)
    with evict_stale_booked [OF IH inv] show ?thesis by simp
  next
    case (PoolFloor c)
    with IH show ?thesis by (simp add: adjust_fee_floor_def Let_def)
  qed
qed

lemma hashes_determine_booked:
  assumes "hashes_determine (submitted ops)"
  obtains fee_of bytes_of where "booked_pool fee_of bytes_of (fold pool_step ops mempool_new)"
proof -
  have "\<forall>h \<in> tx_hash ` set (submitted ops). \<exists>t. t \<in> set (submitted ops) \<and> tx_hash t = h" by auto
  then obtain f where f: "\<forall>h \<in> tx_hash ` set (submitted ops). f h \<in> set (submitted ops) \<and> tx_hash (f h) = h"
    by (rule bchoice [THEN exE])
  have "tx_fee tx = tx_fee (f (tx_hash tx)) \<and> booked_size tx = booked_size (f (tx_hash tx))"
    if tx: "tx \<in> set (submitted ops)" for tx
  proof -
    have "f (tx_hash tx) \<in> set (submitted ops)" "tx_hash (f (tx_hash tx)) = tx_hash tx" using f tx by auto
    with assms tx show ?thesis unfolding hashes_determine_def booked_size_def by metis
  qed
  then have "booked_pool (tx_fee \<circ> f) (booked_size \<circ> f) (fold pool_step ops mempool_new)"
    by (intro run_booked) simp
  then show thesis by (rule that)
qed

lemma booked_faithful: "booked_pool fee_of bytes_of s \<Longrightarrow> faithful s"
  unfolding booked_def faithful_def by metis

lemma booked_counter:
  assumes "booked_pool fee_of bytes_of s" and "pool_inv s"
  shows "mp_total_bytes s = pooled_bytes s"
proof -
  have "dom (map_of (mp_index s)) = fst ` set (mp_tx_store s)"
    using assms(2) by (simp add: pool_inv_def pool_links_def dom_map_of_conv_image_fst)
  moreover have "bytes_of h = (case map_of (mp_tx_store s) h of None \<Rightarrow> 0 | Some tx \<Rightarrow> booked_size tx)"
    if h: "h \<in> fst ` set (mp_tx_store s)" for h
    using that assms(1) by (auto simp: booked_def dom_map_of_conv_image_fst [symmetric])
  ultimately show ?thesis
    using assms(1) by (simp add: booked_def pooled_bytes_def)
qed

section \<open>Properties\<close>

text \<open>C1. After any sequence of insertions, block builds, removals, evictions and fee-floor changes on a
  new pool: no nullifier is spent by two pooled transactions, and a transaction that spends a nullifier
  of a pooled one is refused; index and store hold the same hashes; every pooled transaction has a
  reference in some bucket; the pool has at most 50000 transactions, its byte counter is at most 128 MiB,
  and the fee floor is at least one. If transactions that were submitted under the same hash have the same
  fee and estimated size, the byte counter is the sum of the sizes of the pooled transactions (each one's
  size is its estimate, capped at 128 MiB), so these are at most 128 MiB together.\<close>

theorem mempool_consistent:
  assumes "s = fold pool_step ops mempool_new"
  shows "(map_of (mp_tx_store s) h = Some tx \<and> map_of (mp_tx_store s) h' = Some tx'
        \<and> n \<in> set (tx_nullifiers tx) \<and> n \<in> set (tx_nullifiers tx') \<longrightarrow> h = h')
    \<and> (map_of (mp_tx_store s) h = Some tx \<and> n \<in> set (tx_nullifiers tx) \<and> n \<in> set (tx_nullifiers new)
        \<longrightarrow> \<not> snd (mempool_insert now new tick s))
    \<and> (pool_contains h s \<longleftrightarrow> map_of (mp_tx_store s) h \<noteq> None)
    \<and> (pool_contains h s \<longrightarrow> (\<exists>q \<in> set (mp_buckets s). \<exists>r \<in> set q. ref_hash r = h))
    \<and> pool_len s \<le> 50000 \<and> mp_total_bytes s \<le> 134217728 \<and> 1 \<le> mp_min_fee_watermark s
    \<and> (hashes_determine (submitted ops) \<longrightarrow> mp_total_bytes s = pooled_bytes s \<and> pooled_bytes s \<le> 134217728)"
proof -
  have inv: "pool_inv s" unfolding assms by (rule pool.run_init_inv)
  then have nulls: "map_of (mp_nullifiers s) n = Some g \<longleftrightarrow> (\<exists>t. map_of (mp_tx_store s) g = Some t \<and> n \<in> set (tx_nullifiers t))" for g
    by (simp add: pool_inv_def pool_links_def)
  have one: "map_of (mp_tx_store s) h = Some tx \<and> map_of (mp_tx_store s) h' = Some tx'
        \<and> n \<in> set (tx_nullifiers tx) \<and> n \<in> set (tx_nullifiers tx') \<longrightarrow> h = h'"
    using nulls [of h] nulls [of h'] by auto
  have two: "map_of (mp_tx_store s) h = Some tx \<and> n \<in> set (tx_nullifiers tx) \<and> n \<in> set (tx_nullifiers new)
        \<longrightarrow> \<not> snd (mempool_insert now new tick s)"
    using nulls [of h] insert_True(3) [of now new tick s] by force
  have three: "pool_contains h s \<longleftrightarrow> map_of (mp_tx_store s) h \<noteq> None"
    using inv pool_links_absent [of "mp_index s" "mp_tx_store s" "mp_nullifiers s" h]
    by (simp add: pool_inv_def pool_contains_def)
  have four: "pool_contains h s \<longrightarrow> (\<exists>q \<in> set (mp_buckets s). \<exists>r \<in> set q. ref_hash r = h)"
    using inv by (force simp: pool_inv_def pool_queued_def pool_contains_def)
  have five: "mp_total_bytes s = pooled_bytes s" if "hashes_determine (submitted ops)"
    using hashes_determine_booked [OF that] booked_counter [OF _ inv] by (metis assms)
  have bounds: "pool_len s \<le> 50000" "mp_total_bytes s \<le> 134217728" "1 \<le> mp_min_fee_watermark s"
    using inv by (simp_all add: pool_inv_def pool_len_def MAX_MEMPOOL_TX_def MAX_MEMPOOL_BYTES_def MIN_FEE_def)
  from five bounds(2) have six: "hashes_determine (submitted ops)
      \<longrightarrow> mp_total_bytes s = pooled_bytes s \<and> pooled_bytes s \<le> 134217728" by metis
  show ?thesis by (intro conjI one two three four bounds six)
qed

lemma build_block_fits:
  assumes "s = fold pool_step ops mempool_new" and "faithful s"
    and "refs_size (concat (mp_buckets s)) \<le> max_bytes"
  shows "\<exists>s' out. build_block max_tx max_bytes s = Some (s', out)
    \<and> length out = min (max max_tx 1) (pool_len s) \<and> distinct (map tx_hash out)
    \<and> list_all (\<lambda>tx. map_of (mp_tx_store s) (tx_hash tx) = Some tx) out
    \<and> sorted_wrt (\<lambda>x y. bucket_of (tx_fee y) \<le> bucket_of (tx_fee x)) out
    \<and> (\<forall>h. pool_contains h s' \<longleftrightarrow> pool_contains h s \<and> h \<notin> tx_hash ` set out)"
proof -
  have inv: "pool_inv s" unfolding assms(1) by (rule pool.run_init_inv)
  have len: "length (mp_buckets s) = FEE_BUCKETS" using inv by (simp add: pool_inv_def pool_queued_def)
  have start: "building s c (s, 0, [])" for c using inv assms(2) by (simp add: building_def)
  have "sorted_wrt (>) (rev [0..<FEE_BUCKETS])" by (simp add: sorted_wrt_rev sorted_wrt_upt)
  from buckets_loop_building [OF this, of s s 0 "[]" max_bytes max_tx] start assms(3)
    refs_size_concat [of "mp_buckets s"] len
  have "\<exists>s' bytes' out. buckets_loop max_tx max_bytes (rev [0..<FEE_BUCKETS]) (s, 0, []) = Some (s', bytes', out)
      \<and> building s 0 (s', bytes', out)
      \<and> (length out = max max_tx 1 \<or> length out < max max_tx 1 \<and> (\<forall>c \<in> set (rev [0..<FEE_BUCKETS]). mp_buckets s' ! c = []))"
    by (simp add: less_max_iff_disj) blast
  then obtain s' bytes' out where l: "buckets_loop max_tx max_bytes (rev [0..<FEE_BUCKETS]) (s, 0, []) = Some (s', bytes', out)"
      and bld: "building s 0 (s', bytes', out)"
      and fin: "length out = max max_tx 1 \<or> length out < max max_tx 1 \<and> (\<forall>c < FEE_BUCKETS. mp_buckets s' ! c = [])"
    by auto
  let ?s = "refresh_stats (s'\<lparr>mp_stats := (mp_stats s')\<lparr>ms_blocks_built := ms_blocks_built (mp_stats s') + 1\<rparr>\<rparr>)"
  have res: "build_block max_tx max_bytes s = Some (?s, out)" by (simp add: build_block_def l)
  have inv': "pool_inv s'" using bld by (simp add: building_def)
  have size: "length out = min (max max_tx 1) (pool_len s)"
    using fin building_length_le [OF bld inv] empty_buckets_empty_index [OF inv'] by auto
  have same: "pool_contains h t \<longleftrightarrow> map_of (mp_tx_store t) h \<noteq> None" if "pool_inv t" for t :: "('a, 'b, 'c) mempool" and h
    using that pool_links_absent [of "mp_index t" "mp_tx_store t" "mp_nullifiers t" h]
    by (simp add: pool_inv_def pool_contains_def)
  have "pool_contains h ?s \<longleftrightarrow> pool_contains h s \<and> h \<notin> tx_hash ` set out" for h
    using same [OF inv, of h] same [of ?s h] inv' bld by (simp add: building_def refresh_stats_def)
  with res size bld show ?thesis by (auto simp: building_def list_all_iff)
qed

text \<open>C18. In a pool where transactions that were submitted under the same hash have the same fee and
  estimated size, and where the references in the queues fit the byte limit together, \<open>build_block\<close> returns: it takes as many transactions as the limit allows (one even for a limit of zero) or all of
  them, each a pooled transaction and none twice, in non-increasing order of fee bucket, and exactly
  these leave the pool.\<close>

theorem build_block_complete:
  assumes "s = fold pool_step ops mempool_new" and "hashes_determine (submitted ops)"
    and "refs_size (concat (mp_buckets s)) \<le> max_bytes"
  shows "\<exists>s' out. build_block max_tx max_bytes s = Some (s', out)
    \<and> length out = min (max max_tx 1) (pool_len s) \<and> distinct (map tx_hash out)
    \<and> list_all (\<lambda>tx. map_of (mp_tx_store s) (tx_hash tx) = Some tx) out
    \<and> sorted_wrt (\<lambda>x y. bucket_of (tx_fee y) \<le> bucket_of (tx_fee x)) out
    \<and> (\<forall>h. pool_contains h s' \<longleftrightarrow> pool_contains h s \<and> h \<notin> tx_hash ` set out)"
  proof -
  have "faithful s" using hashes_determine_booked [OF assms(2)] booked_faithful by (metis assms(1))
  then show ?thesis by (rule build_block_fits [OF assms(1) _ assms(3)])
qed

text \<open>C38. When the front reference of the highest non-empty bucket names a pooled transaction that is larger
  than the byte limit, \<open>build_block\<close> never returns, whatever the transaction limit is: the loop puts
  the reference back and takes it out again, holding the write lock.\<close>

theorem build_block_diverges:
  assumes "b < FEE_BUCKETS" and "mp_buckets s ! b = r # rest"
    and "\<forall>c. b < c \<and> c < FEE_BUCKETS \<longrightarrow> mp_buckets s ! c = []"
    and "pool_contains (ref_hash r) s" and "max_bytes < unat (ref_size r)"
  shows "build_block max_tx max_bytes s = None"
proof -
  have "[0..<FEE_BUCKETS] = [0..<b] @ b # [Suc b..<FEE_BUCKETS]"
    using assms(1) by (metis le0 upt_conv_Cons upt_add_eq_append le_add_diff_inverse less_imp_le)
  then have "rev [0..<FEE_BUCKETS] = rev [Suc b..<FEE_BUCKETS] @ b # rev [0..<b]" by simp
  moreover have "buckets_loop max_tx max_bytes (rev [Suc b..<FEE_BUCKETS] @ b # rev [0..<b]) (s, 0, []) = None"
    by (rule buckets_loop_stuck [OF assms(2)]) (use assms in \<open>auto simp: pool_contains_def\<close>)
  ultimately show ?thesis by (simp add: build_block_def)
qed

section \<open>A sample pool\<close>

definition sample_pool_tx :: "(u8, unit, unit) transaction" where
  "sample_pool_tx =
     (tx_new_raw 1 2 [\<lparr>in_tx_hash = zero_hash, in_output_index = 0, in_nullifier = [7], in_signature = [],
        in_public_key = 1, in_signed_hash = zero_hash, in_nonce = 0\<rparr>] [] 5 0 0)\<lparr>tx_hash := [1]\<rparr>"

definition sample_pool :: "(u8, unit, unit) mempool" where
  "sample_pool = fold pool_step [PoolInsert 0 sample_pool_tx 0] mempool_new"

lemma sample_pool_size: "estimated_size sample_pool_tx = 267"
  by (simp add: estimated_size_def sample_pool_tx_def tx_new_raw_def usize_sat_mul_def usize_sat_add_def USIZE_MAX_def)

lemma sample_pool_bucket: "bucket_of 5 = 2"
  by (simp add: bucket_of_def leading_zeros_def bit_length.simps FEE_BUCKETS_def)

lemma sample_pool_fields:
  "mp_buckets sample_pool = (replicate 64 [])[2 := [\<lparr>ref_hash = [1], ref_fee = 5, ref_size = 267, ref_poh_tick = 0, ref_inserted_at = 0\<rparr>]]"
  "mp_index sample_pool = [([1], \<lparr>ref_hash = [1], ref_fee = 5, ref_size = 267, ref_poh_tick = 0, ref_inserted_at = 0\<rparr>)]"
  "mp_tx_store sample_pool = [([1], sample_pool_tx)]"
proof -
  have f: "tx_fee sample_pool_tx = 5" "tx_hash sample_pool_tx = [1]"
    by (simp_all add: sample_pool_tx_def tx_new_raw_def)
  have "min 267 MAX_MEMPOOL_BYTES = 267" by (simp add: MAX_MEMPOOL_BYTES_def)
  then show "mp_buckets sample_pool = (replicate 64 [])[2 := [\<lparr>ref_hash = [1], ref_fee = 5, ref_size = 267, ref_poh_tick = 0, ref_inserted_at = 0\<rparr>]]"
    "mp_index sample_pool = [([1], \<lparr>ref_hash = [1], ref_fee = 5, ref_size = 267, ref_poh_tick = 0, ref_inserted_at = 0\<rparr>)]"
    "mp_tx_store sample_pool = [([1], sample_pool_tx)]"
    by (simp_all add: sample_pool_def mempool_insert_def mempool_new_def f sample_pool_size sample_pool_bucket
        MIN_FEE_def MAX_MEMPOOL_TX_def MAX_MEMPOOL_BYTES_def FEE_BUCKETS_def refresh_stats_def Let_def list_ex_iff)
qed

theorem mempool_consistent_witness:
  "\<not> snd (mempool_insert 9 sample_pool_tx 0 sample_pool) \<and> mp_total_bytes sample_pool = pooled_bytes sample_pool"
proof -
  have "map_of (mp_tx_store sample_pool) [1] = Some sample_pool_tx" "[7] \<in> set (tx_nullifiers sample_pool_tx)"
    by (simp_all add: sample_pool_fields tx_nullifiers_def) (simp add: sample_pool_tx_def tx_new_raw_def)
  moreover have "hashes_determine (submitted [PoolInsert 0 sample_pool_tx 0])" by (simp add: hashes_determine_def)
  ultimately show ?thesis using mempool_consistent [OF sample_pool_def, of "[1]" sample_pool_tx "[1]" sample_pool_tx "[7]" sample_pool_tx 9 0]
    by blast
qed

theorem build_block_complete_witness:
  "\<exists>s' out. build_block 10 1000 sample_pool = Some (s', out) \<and> length out = 1"
proof -
  have c: "concat (mp_buckets sample_pool) = [\<lparr>ref_hash = [1], ref_fee = 5, ref_size = 267, ref_poh_tick = 0, ref_inserted_at = 0\<rparr>]"
    by (simp add: sample_pool_fields numeral_eq_Suc)
  have "hashes_determine (submitted [PoolInsert 0 sample_pool_tx 0])" by (simp add: hashes_determine_def)
  moreover have "refs_size (concat (mp_buckets sample_pool)) \<le> 1000" unfolding c by (simp add: refs_size_def)
  ultimately show ?thesis
    using build_block_complete [OF sample_pool_def, of 1000 10] by (auto simp: pool_len_def sample_pool_fields)
qed

theorem build_block_diverges_witness: "build_block 10 100 sample_pool = None"
  by (rule build_block_diverges [of 2 _ "\<lparr>ref_hash = [1], ref_fee = 5, ref_size = 267, ref_poh_tick = 0, ref_inserted_at = 0\<rparr>" "[]"])
    (simp_all add: sample_pool_fields FEE_BUCKETS_def pool_contains_def)

end
