(* ===== verification/L2_Transaction.thy ===== *)
theory L2_Transaction
  imports Prelude
begin

text \<open>
  \<open>crates/aevum-l2/src/l2_transaction.rs\<close>: the layer-2 transfer, its canonical hash, the signature
  over that hash, the fee and its two shares, and the inheritance of the taint record (\<open>DNA\<close>)
  from the spent outputs. The private key's \<open>sign\<close> is a parameter; what the code needs of it, that
  the matching public key accepts its signatures, is the hypothesis of \<open>l2_sign_valid\<close>.

  The lemmas: the hash commits to every signed field; a transfer built and signed by the code is
  valid; the fee is the exact ceiling of a ten-thousandth of the amount and its shares add up to it;
  the inherited distance is one more than the largest, while the restriction depends on the order of
  the inputs.
\<close>

section \<open>Transfers\<close>

definition FOUNDER_SHARE_BPS :: u64 where "FOUNDER_SHARE_BPS = 1000"
definition COMMUNITY_SHARE_BPS :: u64 where "COMMUNITY_SHARE_BPS = 9000"
definition TX_DOMAIN_HASH :: bytes where "TX_DOMAIN_HASH = ascii ''AEVUM_L2_TX_V4_DOMAIN''"
definition SIG_DOMAIN :: bytes where "SIG_DOMAIN = ascii ''AEVUM_L2_TX_V4_SIG''"

type_synonym dna_tuple = "u16 \<times> u64 \<times> u64 \<times> u64"

record 'pk l2_transaction =
  l2t_version :: u16
  l2t_from :: 'pk
  l2t_to :: 'pk
  l2t_amount :: u64
  l2t_fee :: u64
  l2t_nonce :: u64
  l2t_tx_hash :: hash
  l2t_signature :: bytes
  l2t_timestamp :: u64
  l2t_taint_distance :: u16
  l2t_taint_origin :: u64
  l2t_taint_timestamp :: u64
  l2t_restriction_level :: u64
  l2t_binding_salt :: u64

definition l2_preimage :: "'pk crypto_api \<Rightarrow> 'pk l2_transaction \<Rightarrow> bytes" where
  "l2_preimage C tx =
     TX_DOMAIN_HASH @ le16 (l2t_version tx) @ pk_bytes C (l2t_from tx) @ pk_bytes C (l2t_to tx)
     @ le64 (l2t_amount tx) @ le64 (l2t_fee tx) @ le64 (l2t_nonce tx) @ le64 (l2t_timestamp tx)
     @ le16 (l2t_taint_distance tx) @ le64 (l2t_taint_origin tx) @ le64 (l2t_taint_timestamp tx)
     @ le64 (l2t_restriction_level tx) @ le64 (l2t_binding_salt tx)"

definition l2_compute_hash :: "'pk crypto_api \<Rightarrow> 'pk l2_transaction \<Rightarrow> hash" where
  "l2_compute_hash C tx = blake3 C (l2_preimage C tx)"

definition l2_new_unsigned ::
  "'pk crypto_api \<Rightarrow> u16 \<Rightarrow> 'pk \<Rightarrow> 'pk \<Rightarrow> u64 \<Rightarrow> u64 \<Rightarrow> u64 \<Rightarrow> dna_tuple \<Rightarrow> u64 \<Rightarrow> u64 \<Rightarrow> 'pk l2_transaction" where
  "l2_new_unsigned C version from to amount fee nonce dna timestamp binding_salt =
     (case dna of (distance, origin, taint_ts, restriction) \<Rightarrow>
       let tx = \<lparr>l2t_version = version, l2t_from = from, l2t_to = to, l2t_amount = amount, l2t_fee = fee,
                 l2t_nonce = nonce, l2t_tx_hash = zero_hash, l2t_signature = replicate 64 0,
                 l2t_timestamp = timestamp, l2t_taint_distance = distance, l2t_taint_origin = origin,
                 l2t_taint_timestamp = taint_ts, l2t_restriction_level = restriction,
                 l2t_binding_salt = binding_salt\<rparr>
       in tx\<lparr>l2t_tx_hash := l2_compute_hash C tx\<rparr>)"

definition l2_sign_msg :: "'pk l2_transaction \<Rightarrow> bytes" where
  "l2_sign_msg tx = SIG_DOMAIN @ l2t_tx_hash tx"

definition l2_sign :: "(bytes \<Rightarrow> bytes) \<Rightarrow> 'pk l2_transaction \<Rightarrow> 'pk l2_transaction" where
  "l2_sign private_sign tx = tx\<lparr>l2t_signature := private_sign (l2_sign_msg tx)\<rparr>"

definition l2_verify_signature :: "'pk crypto_api \<Rightarrow> 'pk l2_transaction \<Rightarrow> bool" where
  "l2_verify_signature C tx = pk_verify C (l2t_from tx) (l2_sign_msg tx) (l2t_signature tx)"

definition l2_is_valid :: "'pk crypto_api \<Rightarrow> 'pk l2_transaction \<Rightarrow> bool" where
  "l2_is_valid C tx =
     (if l2t_amount tx = 0 then False
      else if l2_compute_hash C tx \<noteq> l2t_tx_hash tx then False
      else l2_verify_signature C tx)"

section \<open>Fees\<close>

definition calculate_fee :: "u64 \<Rightarrow> u64" where
  "calculate_fee amount = ucast (sat_add (sat_mul (ucast amount :: u128) 1) 9999 div 10000)"

definition founder_cut :: "u64 \<Rightarrow> u64" where
  "founder_cut fee = ucast (sat_mul (ucast fee :: u128) (ucast FOUNDER_SHARE_BPS) div 10000)"

definition community_cut :: "u64 \<Rightarrow> u64" where
  "community_cut fee = sat_sub fee (founder_cut fee)"

section \<open>Outputs and their taint record\<close>

record 'pk l2_utxo =
  l2u_owner :: 'pk
  l2u_amount :: u64
  l2u_tx_hash :: hash
  l2u_output_index :: u32
  l2u_taint_distance :: u16
  l2u_taint_origin :: u64
  l2u_taint_timestamp :: u64
  l2u_restriction_level :: u64
  l2u_spent :: bool

definition l2_utxo_new :: "'pk \<Rightarrow> u64 \<Rightarrow> hash \<Rightarrow> u32 \<Rightarrow> dna_tuple \<Rightarrow> 'pk l2_utxo" where
  "l2_utxo_new owner amount tx_hash output_index dna =
     (case dna of (distance, origin, taint_ts, restriction) \<Rightarrow>
       \<lparr>l2u_owner = owner, l2u_amount = amount, l2u_tx_hash = tx_hash, l2u_output_index = output_index,
        l2u_taint_distance = distance, l2u_taint_origin = origin, l2u_taint_timestamp = taint_ts,
        l2u_restriction_level = restriction, l2u_spent = False\<rparr>)"

definition is_spendable_in :: "'pk l2_utxo \<Rightarrow> u64 list \<Rightarrow> bool" where
  "is_spendable_in u allowed = (if allowed = [] then True else l2u_taint_origin u \<in> set allowed)"

definition l2_is_clean :: "'pk l2_utxo \<Rightarrow> bool" where
  "l2_is_clean u \<longleftrightarrow> l2u_taint_distance u = 0"

text \<open>One round of the loop of \<open>inherit_dna\<close>, then the whole function.\<close>

definition dna_step :: "'pk l2_utxo \<Rightarrow> dna_tuple \<Rightarrow> dna_tuple" where
  "dna_step i acc =
     (case acc of (max_distance, origin, oldest_ts, restriction) \<Rightarrow>
       if max_distance \<le> l2u_taint_distance i
       then (l2u_taint_distance i, l2u_taint_origin i, min oldest_ts (l2u_taint_timestamp i),
             max restriction (l2u_restriction_level i))
       else acc)"

definition inherit_dna :: "'pk l2_utxo list \<Rightarrow> dna_tuple" where
  "inherit_dna inputs =
     (if inputs = [] then (0, 0, 0, 0)
      else case fold dna_step inputs (0, 0, - 1, 0) of
        (max_distance, origin, oldest_ts, restriction) \<Rightarrow>
          (sat_add max_distance 1, origin, oldest_ts, restriction))"

section \<open>The hash and the signature\<close>

text \<open>The fields that the hash covers: all but the hash itself and the signature.\<close>

definition l2_core :: "'pk l2_transaction \<Rightarrow> 'pk l2_transaction" where
  "l2_core tx = tx\<lparr>l2t_tx_hash := [], l2t_signature := []\<rparr>"

lemma l2_preimage_binds:
  assumes "pk_wf C" and "l2_preimage C a = l2_preimage C b"
  shows "l2_core a = l2_core b"
  using assms(2)
  by (cases a; cases b)
    (simp add: l2_preimage_def l2_core_def append_eq_append_conv pk_wf_length [OF assms(1)]
      pk_wf_inj [OF assms(1)])

lemma l2_compute_hash_sig [simp]:
  "l2_compute_hash C (tx\<lparr>l2t_signature := sg\<rparr>) = l2_compute_hash C tx"
  "l2_compute_hash C (tx\<lparr>l2t_tx_hash := h\<rparr>) = l2_compute_hash C tx"
  by (simp_all add: l2_compute_hash_def l2_preimage_def)

lemma l2_new_unsigned_sel [simp]:
  "l2t_tx_hash (l2_new_unsigned C v from to amount fee nonce dna ts salt)
     = l2_compute_hash C (l2_new_unsigned C v from to amount fee nonce dna ts salt)"
  "l2t_amount (l2_new_unsigned C v from to amount fee nonce dna ts salt) = amount"
  "l2t_from (l2_new_unsigned C v from to amount fee nonce dna ts salt) = from"
  by (cases dna; simp add: l2_new_unsigned_def Let_def l2_compute_hash_def l2_preimage_def)+

lemma l2_is_valid_iff:
  "l2_is_valid C tx \<longleftrightarrow> l2t_amount tx \<noteq> 0 \<and> l2t_tx_hash tx = l2_compute_hash C tx
     \<and> pk_verify C (l2t_from tx) (SIG_DOMAIN @ l2t_tx_hash tx) (l2t_signature tx)"
  by (auto simp: l2_is_valid_def l2_verify_signature_def l2_sign_msg_def)

lemma l2_signed_is_valid:
  assumes "\<And>m. pk_verify C from m (private_sign m)" and "amount \<noteq> 0"
  shows "l2_is_valid C (l2_sign private_sign (l2_new_unsigned C v from to amount fee nonce dna ts salt))"
  using assms by (simp add: l2_is_valid_iff l2_sign_def l2_sign_msg_def)

interpretation l2_binding: binding "l2_preimage C" "\<lambda>_. pk_wf C" l2_core for C :: "'pk crypto_api"
  by unfold_locales (rule l2_preimage_binds)

text \<open>
  The canonical hash of a layer-2 transfer commits to everything it means: two transfers with the
  same \<open>compute_hash\<close> agree on version, both keys, amount, fee, nonce, times, the whole taint record
  and the binding salt, unless their preimages are a BLAKE3 collision.
\<close>

theorem l2_hash_commits:
  assumes "pk_wf C" and "no_collision C (l2_preimage C a) (l2_preimage C b)"
    and "l2_compute_hash C a = l2_compute_hash C b"
  shows "l2_core a = l2_core b"
  by (rule l2_binding.hash_binds [OF assms(1,1,2) assms(3) [unfolded l2_compute_hash_def]])

definition sample_l2_tx :: "u64 \<Rightarrow> u64 \<Rightarrow> u64 \<Rightarrow> u8 l2_transaction" where
  "sample_l2_tx nonce amount fee =
     l2_sign (\<lambda>m. m) (l2_new_unsigned sample_crypto 1 7 8 amount fee nonce (0, 0, 0, 0) 100 0)"

theorem l2_hash_commits_witness:
  "pk_wf sample_crypto \<and> l2_core (sample_l2_tx 0 5 1) = l2_core (l2_new_unsigned sample_crypto 1 7 8 5 1 0 (0, 0, 0, 0) 100 0)"
  using l2_hash_commits [of sample_crypto "sample_l2_tx 0 5 1"
      "l2_new_unsigned sample_crypto 1 7 8 5 1 0 (0, 0, 0, 0) 100 0"]
  by (simp add: sample_l2_tx_def l2_sign_def)

text \<open>
  What the code builds and signs, the code accepts: a transfer of a non-zero amount made by
  \<open>new_unsigned\<close> and signed with a key whose signatures the sender's public key verifies is valid.
\<close>

theorem l2_sign_valid:
  assumes "\<And>m. pk_verify C from m (private_sign m)" and "amount \<noteq> 0"
  shows "l2_is_valid C (l2_sign private_sign (l2_new_unsigned C v from to amount fee nonce dna ts salt))"
  using assms by (rule l2_signed_is_valid)

theorem l2_sign_valid_witness:
  "l2_is_valid sample_crypto (l2_sign (\<lambda>m. m) (l2_new_unsigned sample_crypto 1 7 8 5 1 0 (0, 0, 0, 0) 100 0))"
  by (rule l2_sign_valid) (simp_all add: sample_crypto_def)

section \<open>Exact fees\<close>

lemma unat_u128_ucast: "unat (ucast (a :: u64) :: u128) = unat a"
  using unat_lt_pow [of a] by (simp add: unsigned_ucast_eq take_bit_nat_eq_self)

lemma unat_u64_of_u128: "unat (w :: u128) < 2 ^ 64 \<Longrightarrow> unat (ucast w :: u64) = unat w"
  by (simp add: unsigned_ucast_eq take_bit_nat_eq_self)

lemma unat_calculate_fee: "unat (calculate_fee amount) = (unat amount + 9999) div 10000"
proof -
  have a: "unat amount < 2 ^ 64" using unat_lt_pow [of amount] by simp
  let ?s = "sat_add (sat_mul (ucast amount :: u128) 1) 9999"
  have s: "unat ?s = unat amount + 9999"
    using a by (simp add: rust_arith unat_u128_ucast)
  then have "unat (?s div 10000) = (unat amount + 9999) div 10000"
    by (simp add: rust_arith)
  moreover have "(unat amount + 9999) div 10000 < 2 ^ 64" using a by linarith
  ultimately show ?thesis by (simp add: calculate_fee_def unat_u64_of_u128)
qed

lemma unat_founder_cut: "unat (founder_cut fee) = unat fee div 10"
proof -
  have a: "unat fee < 2 ^ 64" using unat_lt_pow [of fee] by simp
  let ?s = "sat_mul (ucast fee :: u128) (ucast FOUNDER_SHARE_BPS)"
  have "unat ?s = unat fee * 1000"
    using a by (simp add: rust_arith unat_u128_ucast FOUNDER_SHARE_BPS_def)
  then have "unat (?s div 10000) = unat fee div 10" by (simp add: rust_arith)
  moreover have "unat fee div 10 < 2 ^ 64" using a by linarith
  ultimately show ?thesis by (simp add: founder_cut_def unat_u64_of_u128)
qed

lemma unat_community_cut: "unat (community_cut fee) = unat fee - unat fee div 10"
  by (simp add: community_cut_def rust_arith unat_founder_cut)

lemma cuts_add_up: "unat (founder_cut fee) + unat (community_cut fee) = unat fee"
  by (simp add: unat_founder_cut unat_community_cut)

text \<open>
  Fee arithmetic never truncates or saturates, for any 64-bit amount: the fee is the amount over
  ten thousand rounded up, the founder's share is a tenth of the fee rounded down, and the two
  shares add up to the fee exactly.
\<close>

theorem l2_fee_exact:
  "unat (calculate_fee amount) = (unat amount + 9999) div 10000
   \<and> unat (founder_cut fee) = unat fee div 10
   \<and> unat (founder_cut fee) + unat (community_cut fee) = unat fee"
  using cuts_add_up [of fee] by (simp add: unat_calculate_fee unat_founder_cut)

section \<open>Taint inheritance\<close>

lemma fold_dna_distance:
  "fst (fold dna_step us (d, r)) = fold (\<lambda>u m. max m (l2u_taint_distance u)) us d"
proof (induction us arbitrary: d r)
  case (Cons u us)
  obtain r' where "dna_step u (d, r) = (max d (l2u_taint_distance u), r')"
    by (cases r; cases "d \<le> l2u_taint_distance u") (auto simp: dna_step_def max_def)
  with Cons.IH show ?case by simp
qed simp

lemma fold_max_ge: "d \<le> fold (\<lambda>u m. max m (f u)) us d" for d :: "'a::linorder"
proof (induction us arbitrary: d)
  case (Cons u us)
  have "d \<le> max d (f u)" by simp
  also have "\<dots> \<le> fold (\<lambda>u m. max m (f u)) us (max d (f u))" by (rule Cons.IH)
  finally show ?case by simp
qed simp

lemma fold_max_eq_Max:
  "fold (\<lambda>u m. max m (f u)) us d = Max (insert d (f ` set us))" for d :: "'a::linorder"
proof (induction us arbitrary: d)
  case (Cons u us)
  have "Max (insert (max d (f u)) (f ` set us)) = Max (insert d (f ` set (u # us)))"
    by (cases "set us = {}") (auto simp: max.assoc)
  with Cons.IH show ?case by simp
qed simp

lemma fold_dna_bounds:
  assumes "fold dna_step us (d, org, ts, r) = (d', org', ts', r')"
  shows "ts' \<le> ts \<and> r \<le> r'"
  using assms
proof (induction us arbitrary: d org ts r)
  case (Cons u us)
  show ?case
  proof (cases "d \<le> l2u_taint_distance u")
    case True
    with Cons.prems have "ts' \<le> min ts (l2u_taint_timestamp u) \<and> max r (l2u_restriction_level u) \<le> r'"
      by (intro Cons.IH) (simp add: dna_step_def)
    then show ?thesis by simp
  next
    case False
    with Cons.prems show ?thesis by (intro Cons.IH) (simp add: dna_step_def)
  qed
qed simp

text \<open>
  The inherited taint distance is one more than the largest distance of the inputs (saturating),
  whatever their order, so an output is never closer to its origin than any input.
\<close>

theorem inherit_distance_max:
  assumes "us \<noteq> []"
  shows "unat (fst (inherit_dna us)) = min (Max ((\<lambda>u. unat (l2u_taint_distance u)) ` set us) + 1) 65535"
proof -
  let ?S = "l2u_taint_distance ` set us"
  obtain m org ts r where f: "fold dna_step us (0, 0, - 1, 0) = (m, org, ts, r)"
    by (metis prod_cases4)
  then have "m = fst (fold dna_step us (0, 0, - 1, 0))" by simp
  also have "\<dots> = Max (insert 0 ?S)" by (simp add: fold_dna_distance fold_max_eq_Max)
  also have "\<dots> = Max ?S" using assms by simp
  finally have "unat m = Max (unat ` ?S)"
    using assms by (simp add: mono_Max_commute mono_def word_le_nat_alt)
  with f assms show ?thesis by (simp add: inherit_dna_def rust_arith image_image)
qed

definition sample_l2_utxo :: "u16 \<Rightarrow> u64 \<Rightarrow> u8 l2_utxo" where
  "sample_l2_utxo distance restriction = l2_utxo_new 1 10 zero_hash 0 (distance, 3, 50, restriction)"

theorem inherit_distance_max_witness:
  "unat (fst (inherit_dna [sample_l2_utxo 5 1, sample_l2_utxo 2 9])) = 6"
  using inherit_distance_max [of "[sample_l2_utxo 5 1, sample_l2_utxo 2 9]"]
  by (simp add: sample_l2_utxo_def l2_utxo_new_def)

text \<open>
  The rest of the record is not order independent: a stricter input that comes after one of larger
  distance is skipped whole, so its restriction level is lost.
\<close>

lemma inherit_dna_order_dependent:
  "inherit_dna [sample_l2_utxo 5 1, sample_l2_utxo 2 9] = (6, 3, 50, 1)"
  "inherit_dna [sample_l2_utxo 2 9, sample_l2_utxo 5 1] = (6, 3, 50, 9)"
  by (simp_all add: inherit_dna_def dna_step_def sample_l2_utxo_def l2_utxo_new_def sat_add_def)

end
