(* ===== verification/L2_State.thy ===== *)
theory L2_State
  imports L2_Transaction
begin

text \<open>
  \<open>crates/aevum-l2/src/l2_state.rs\<close>: the layer-2 account machine. \<open>build_context\<close> checks a transfer
  against the state without changing it; \<open>process_transaction\<close> then moves the amount, pays the two
  fee shares, advances the sender's nonce and records the output. A state change and the returned
  result are a pair, so that what an error leaves behind is visible.

  The lemmas: the check accepts exactly the transfers that are valid, fresh, in order and funded; an
  error changes nothing; the money in all accounts together is conserved by every accepted transfer;
  a transfer that was accepted is refused ever after; the accepted transfers of an account carry
  the nonces 0, 1, 2 and so on.
\<close>

section \<open>State\<close>

datatype l2_state_error =
    InvalidSignature
  | ReplayDetected
  | InvalidNonce u64 u64
  | InsufficientBalance u64 u64
  | AmountZero

record execution_context =
  ec_tx_hash :: hash
  ec_from :: bytes
  ec_to :: bytes
  ec_required_balance :: u64
  ec_expected_nonce :: u64
  ec_amount :: u64
  ec_fee :: u64
  ec_taint_distance :: u16
  ec_taint_origin :: u64
  ec_taint_timestamp :: u64
  ec_restriction_level :: u64

record 'pk l2_state =
  l2_balances :: "(bytes \<times> u64) list"
  l2_nonces :: "(bytes \<times> u64) list"
  l2_processed :: "hash set"
  l2_founder :: bytes
  l2_community_fund :: bytes
  l2_utxos :: "'pk l2_utxo list"
  l2_tx_count :: u64
  l2_total_fees :: u64

record l2_stats =
  st_accounts :: nat
  st_transactions :: u64
  st_total_fees :: u64
  st_utxos :: nat

definition l2_new :: "bytes \<Rightarrow> bytes \<Rightarrow> 'pk l2_state" where
  "l2_new founder community_fund =
     \<lparr>l2_balances = [], l2_nonces = [], l2_processed = {}, l2_founder = founder,
      l2_community_fund = community_fund, l2_utxos = [], l2_tx_count = 0, l2_total_fees = 0\<rparr>"

text \<open>\<open>get(k).copied().unwrap_or(0)\<close>, which is also the value that \<open>entry(k).or_insert(0)\<close> yields.\<close>

definition bt_get0 :: "(bytes \<times> u64) list \<Rightarrow> bytes \<Rightarrow> u64" where
  "bt_get0 m k = (case map_of m k of None \<Rightarrow> 0 | Some v \<Rightarrow> v)"

definition l2_credit :: "bytes \<Rightarrow> u64 \<Rightarrow> 'pk l2_state \<Rightarrow> 'pk l2_state" where
  "l2_credit user amount s =
     s\<lparr>l2_balances := bt_insert user (sat_add (bt_get0 (l2_balances s) user) amount) (l2_balances s)\<rparr>"

definition l2_balance :: "'pk l2_state \<Rightarrow> bytes \<Rightarrow> u64" where
  "l2_balance s user = bt_get0 (l2_balances s) user"

definition l2_nonce :: "'pk l2_state \<Rightarrow> bytes \<Rightarrow> u64" where
  "l2_nonce s user = bt_get0 (l2_nonces s) user"

section \<open>Operations\<close>

definition build_context ::
  "'pk crypto_api \<Rightarrow> 'pk l2_state \<Rightarrow> 'pk l2_transaction \<Rightarrow> (execution_context, l2_state_error) result" where
  "build_context C s tx =
     (if \<not> l2_is_valid C tx then Err InvalidSignature
      else if l2t_amount tx = 0 then Err AmountZero
      else if l2t_tx_hash tx \<in> l2_processed s then Err ReplayDetected
      else let from = pk_bytes C (l2t_from tx); expected_nonce = l2_nonce s from in
        if l2t_nonce tx \<noteq> expected_nonce then Err (InvalidNonce expected_nonce (l2t_nonce tx))
        else let available = l2_balance s from; required = sat_add (l2t_amount tx) (l2t_fee tx) in
          if available < required then Err (InsufficientBalance required available)
          else Ok \<lparr>ec_tx_hash = l2t_tx_hash tx, ec_from = from, ec_to = pk_bytes C (l2t_to tx),
                   ec_required_balance = required, ec_expected_nonce = expected_nonce,
                   ec_amount = l2t_amount tx, ec_fee = l2t_fee tx,
                   ec_taint_distance = l2t_taint_distance tx, ec_taint_origin = l2t_taint_origin tx,
                   ec_taint_timestamp = l2t_taint_timestamp tx,
                   ec_restriction_level = l2t_restriction_level tx\<rparr>)"

text \<open>The block that moves the amount, then the two lines that pay the fee shares.\<close>

definition apply_balances :: "execution_context \<Rightarrow> (bytes \<times> u64) list \<Rightarrow> (bytes \<times> u64) list" where
  "apply_balances ctx b0 =
     (let b1 = bt_insert (ec_from ctx) (sat_sub (bt_get0 b0 (ec_from ctx)) (ec_required_balance ctx)) b0
      in bt_insert (ec_to ctx) (sat_add (bt_get0 b1 (ec_to ctx)) (ec_amount ctx)) b1)"

definition distribute_fee :: "bytes \<Rightarrow> bytes \<Rightarrow> u64 \<Rightarrow> (bytes \<times> u64) list \<Rightarrow> (bytes \<times> u64) list" where
  "distribute_fee founder community fee b0 =
     (let b1 = bt_insert founder (sat_add (bt_get0 b0 founder) (founder_cut fee)) b0
      in bt_insert community (sat_add (bt_get0 b1 community) (community_cut fee)) b1)"

definition process_transaction ::
  "'pk crypto_api \<Rightarrow> 'pk l2_transaction \<Rightarrow> 'pk l2_state
     \<Rightarrow> 'pk l2_state \<times> ('pk l2_utxo list, l2_state_error) result" where
  "process_transaction C tx s =
     (case build_context C s tx of
        Err e \<Rightarrow> (s, Err e)
      | Panic \<Rightarrow> (s, Panic)
      | Ok ctx \<Rightarrow>
          let balances = distribute_fee (l2_founder s) (l2_community_fund s) (ec_fee ctx)
                (apply_balances ctx (l2_balances s));
              utxo = l2_utxo_new (l2t_to tx) (ec_amount ctx) (ec_tx_hash ctx) 0
                (ec_taint_distance ctx, ec_taint_origin ctx, ec_taint_timestamp ctx, ec_restriction_level ctx)
          in (s\<lparr>l2_processed := insert (ec_tx_hash ctx) (l2_processed s),
               l2_balances := balances,
               l2_total_fees := sat_add (l2_total_fees s) (ec_fee ctx),
               l2_nonces := bt_insert (ec_from ctx) (sat_add (ec_expected_nonce ctx) 1) (l2_nonces s),
               l2_utxos := l2_utxos s @ [utxo],
               l2_tx_count := sat_add (l2_tx_count s) 1\<rparr>, Ok [utxo]))"

definition l2_get_stats :: "'pk l2_state \<Rightarrow> l2_stats" where
  "l2_get_stats s =
     \<lparr>st_accounts = length (l2_balances s), st_transactions = l2_tx_count s,
      st_total_fees = l2_total_fees s, st_utxos = length (l2_utxos s)\<rparr>"

section \<open>Money\<close>

definition bt_total :: "(bytes \<times> u64) list \<Rightarrow> nat" where
  "bt_total m = sum_list (map (\<lambda>(k, v). unat v) m)"

definition l2_total :: "'pk l2_state \<Rightarrow> nat" where
  "l2_total s = bt_total (l2_balances s)"

definition l2_wf :: "'pk l2_state \<Rightarrow> bool" where
  "l2_wf s \<longleftrightarrow> bt_wf (l2_balances s)"

lemma bt_total_Cons [simp]: "bt_total ((k, v) # m) = unat v + bt_total m" "bt_total [] = 0"
  by (simp_all add: bt_total_def)

lemma bt_get0_insert: "bt_get0 (bt_insert k v m) k' = (if k' = k then v else bt_get0 m k')"
  by (simp add: bt_get0_def)

lemma bt_get0_insert_same [simp]: "bt_get0 (bt_insert k v m) k = v"
  by (simp add: bt_get0_insert)

lemma bt_get0_below:
  "bt_wf ((k', v') # m) \<Longrightarrow> k < k' \<Longrightarrow> bt_get0 ((k', v') # m) k = 0"
proof -
  assume w: "bt_wf ((k', v') # m)" and k: "k < k'"
  have "k \<notin> fst ` set ((k', v') # m)"
    using w k by (auto simp: bt_wf_def)
  then have "map_of ((k', v') # m) k = None" by (rule iffD2 [OF map_of_eq_None_iff])
  then show ?thesis by (simp only: bt_get0_def option.case)
qed

lemma bt_total_insert:
  "bt_wf m \<Longrightarrow> bt_total (bt_insert k v m) + unat (bt_get0 m k) = bt_total m + unat v"
proof (induction k v m rule: bt_insert.induct)
  case (1 k v)
  then show ?case by (simp add: bt_get0_def)
next
  case (2 k v k' v' m)
  have m: "bt_wf m" using "2.prems" by (simp add: bt_wf_def)
  consider "k < k'" | "k = k'" | "k' < k" by fastforce
  then show ?case
  proof cases
    case 1
    then show ?thesis using bt_get0_below [OF "2.prems"] by simp
  next
    case 2
    then show ?thesis by (simp add: bt_get0_def)
  next
    case 3
    then have "\<not> k < k'" and "k \<noteq> k'" by auto
    then have "bt_total (bt_insert k v m) + unat (bt_get0 m k) = bt_total m + unat v"
      using "2.IH" m by blast
    moreover have "bt_get0 ((k', v') # m) k = bt_get0 m k"
      using \<open>k \<noteq> k'\<close> by (simp add: bt_get0_def)
    ultimately show ?thesis using \<open>\<not> k < k'\<close> \<open>k \<noteq> k'\<close> by simp
  qed
qed

lemma bt_get0_le_total: "unat (bt_get0 m k) \<le> bt_total m"
  by (induction m) (auto simp: bt_get0_def)

lemma bt_total_credit:
  assumes "bt_wf m" and "bt_total m + unat a < 2 ^ 64"
  shows "bt_total (bt_insert k (sat_add (bt_get0 m k) a) m) = bt_total m + unat a"
proof -
  have "unat (bt_get0 m k) \<le> bt_total m" by (rule bt_get0_le_total)
  with assms(2) have "unat (sat_add (bt_get0 m k) a) = unat (bt_get0 m k) + unat a"
    by (simp add: rust_arith)
  with bt_total_insert [OF assms(1), of k "sat_add (bt_get0 m k) a"] show ?thesis by simp
qed

lemma bt_total_debit:
  assumes "bt_wf m" and "a \<le> bt_get0 m k"
  shows "bt_total (bt_insert k (sat_sub (bt_get0 m k) a) m) + unat a = bt_total m"
proof -
  have "unat a \<le> unat (bt_get0 m k)" using assms(2) by (simp add: word_le_nat_alt)
  with bt_total_insert [OF assms(1), of k "sat_sub (bt_get0 m k) a"] show ?thesis
    by (simp add: rust_arith)
qed

section \<open>What is accepted\<close>

definition l2_acceptable :: "'pk crypto_api \<Rightarrow> 'pk l2_state \<Rightarrow> 'pk l2_transaction \<Rightarrow> bool" where
  "l2_acceptable C s tx \<longleftrightarrow>
     l2_is_valid C tx \<and> l2t_tx_hash tx \<notin> l2_processed s
     \<and> l2t_nonce tx = l2_nonce s (pk_bytes C (l2t_from tx))
     \<and> sat_add (l2t_amount tx) (l2t_fee tx) \<le> l2_balance s (pk_bytes C (l2t_from tx))"

definition l2_step :: "'pk crypto_api \<Rightarrow> 'pk l2_transaction \<Rightarrow> 'pk l2_state \<Rightarrow> 'pk l2_state" where
  "l2_step C tx s = fst (process_transaction C tx s)"

definition l2_ok :: "'pk crypto_api \<Rightarrow> 'pk l2_state \<Rightarrow> 'pk l2_transaction \<Rightarrow> bool" where
  "l2_ok C s tx = is_ok (snd (process_transaction C tx s))"

lemma l2_valid_amount: "l2_is_valid C tx \<Longrightarrow> l2t_amount tx \<noteq> 0"
  by (simp add: l2_is_valid_iff)

lemma build_context_Ok_iff: "is_ok (build_context C s tx) \<longleftrightarrow> l2_acceptable C s tx"
  using l2_valid_amount [of C tx]
  by (auto simp: build_context_def l2_acceptable_def Let_def not_less)

lemma build_context_no_panic: "build_context C s tx \<noteq> Panic"
  by (simp add: build_context_def Let_def)

lemma l2_ok_iff: "l2_ok C s tx \<longleftrightarrow> l2_acceptable C s tx"
  unfolding build_context_Ok_iff [symmetric]
  by (simp add: l2_ok_def process_transaction_def Let_def split: result.split)

lemma l2_step_rejected: "\<not> l2_acceptable C s tx \<Longrightarrow> l2_step C tx s = s"
  unfolding build_context_Ok_iff [symmetric]
  by (cases "build_context C s tx") (simp_all add: l2_step_def process_transaction_def)

lemma l2_step_accepted:
  fixes tx :: "'pk l2_transaction"
  assumes "l2_acceptable C s tx"
    and f: "f = pk_bytes C (l2t_from tx)"
  shows "l2_processed (l2_step C tx s) = insert (l2t_tx_hash tx) (l2_processed s)"
    and "l2_nonces (l2_step C tx s) = bt_insert f (sat_add (l2_nonce s f) 1) (l2_nonces s)"
    and "l2_balances (l2_step C tx s) =
      (let b1 = bt_insert f (sat_sub (bt_get0 (l2_balances s) f) (sat_add (l2t_amount tx) (l2t_fee tx))) (l2_balances s);
           b2 = bt_insert (pk_bytes C (l2t_to tx)) (sat_add (bt_get0 b1 (pk_bytes C (l2t_to tx))) (l2t_amount tx)) b1
       in distribute_fee (l2_founder s) (l2_community_fund s) (l2t_fee tx) b2)"
proof -
  obtain ctx where ctx: "build_context C s tx = Ok ctx"
    using assms(1) by (metis build_context_Ok_iff is_ok.elims(2))
  have e: "ec_tx_hash ctx = l2t_tx_hash tx" "ec_from ctx = f" "ec_to ctx = pk_bytes C (l2t_to tx)"
    "ec_required_balance ctx = sat_add (l2t_amount tx) (l2t_fee tx)" "ec_expected_nonce ctx = l2_nonce s f"
    "ec_amount ctx = l2t_amount tx" "ec_fee ctx = l2t_fee tx"
    using ctx by (auto simp: f build_context_def Let_def split: if_splits)
  show "l2_processed (l2_step C tx s) = insert (l2t_tx_hash tx) (l2_processed s)"
    and "l2_nonces (l2_step C tx s) = bt_insert f (sat_add (l2_nonce s f) 1) (l2_nonces s)"
    and "l2_balances (l2_step C tx s) =
      (let b1 = bt_insert f (sat_sub (bt_get0 (l2_balances s) f) (sat_add (l2t_amount tx) (l2t_fee tx))) (l2_balances s);
           b2 = bt_insert (pk_bytes C (l2t_to tx)) (sat_add (bt_get0 b1 (pk_bytes C (l2t_to tx))) (l2t_amount tx)) b1
       in distribute_fee (l2_founder s) (l2_community_fund s) (l2t_fee tx) b2)"
    by (simp_all add: l2_step_def process_transaction_def ctx Let_def apply_balances_def e)
qed

lemma distribute_fee_total:
  assumes "bt_wf m" and "bt_total m + unat fee < 2 ^ 64"
  shows "bt_wf (distribute_fee fo co fee m)"
    and "bt_total (distribute_fee fo co fee m) = bt_total m + unat fee"
proof -
  let ?b = "bt_insert fo (sat_add (bt_get0 m fo) (founder_cut fee)) m"
  have b: "bt_total ?b = bt_total m + unat (founder_cut fee)"
    using assms cuts_add_up [of fee] by (intro bt_total_credit) auto
  then have "bt_total (bt_insert co (sat_add (bt_get0 ?b co) (community_cut fee)) ?b)
      = bt_total ?b + unat (community_cut fee)"
    using assms cuts_add_up [of fee] by (intro bt_total_credit) auto
  with b cuts_add_up [of fee] show "bt_total (distribute_fee fo co fee m) = bt_total m + unat fee"
    by (simp add: distribute_fee_def Let_def)
  show "bt_wf (distribute_fee fo co fee m)"
    using assms(1) by (simp add: distribute_fee_def Let_def)
qed

lemma l2_balances_stages:
  assumes w: "l2_wf s" and t: "l2_total s < 2 ^ 64 - 1" and a: "l2_acceptable C s tx"
    and f: "f = pk_bytes C (l2t_from tx)"
    and b1: "b1 = bt_insert f (sat_sub (bt_get0 (l2_balances s) f) (sat_add (l2t_amount tx) (l2t_fee tx))) (l2_balances s)"
  shows "bt_wf b1" and "bt_total b1 + (unat (l2t_amount tx) + unat (l2t_fee tx)) = l2_total s"
    and "unat (bt_get0 b1 f) = unat (l2_balance s f) - (unat (l2t_amount tx) + unat (l2t_fee tx))"
proof -
  let ?r = "sat_add (l2t_amount tx) (l2t_fee tx)"
  have le: "?r \<le> bt_get0 (l2_balances s) f"
    using a f by (simp add: l2_acceptable_def l2_balance_def)
  have "unat ?r < 2 ^ 64 - 1"
    using le bt_get0_le_total [of "l2_balances s" f] t by (simp add: word_le_nat_alt l2_total_def)
  then have r: "unat ?r = unat (l2t_amount tx) + unat (l2t_fee tx)"
    by (simp add: rust_arith min_def split: if_splits)
  have w0: "bt_wf (l2_balances s)" using w by (simp add: l2_wf_def)
  then show "bt_wf b1" by (simp add: b1)
  show "bt_total b1 + (unat (l2t_amount tx) + unat (l2t_fee tx)) = l2_total s"
    using bt_total_debit [OF w0 le] by (simp add: r b1 l2_total_def)
  show "unat (bt_get0 b1 f) = unat (l2_balance s f) - (unat (l2t_amount tx) + unat (l2t_fee tx))"
    unfolding r [symmetric] by (simp add: b1 unat_sat_sub l2_balance_def)
qed

lemma l2_step_conserves:
  assumes w: "l2_wf s" and t: "l2_total s < 2 ^ 64 - 1"
  shows "l2_wf (l2_step C tx s) \<and> l2_total (l2_step C tx s) = l2_total s"
proof (cases "l2_acceptable C s tx")
  case False
  then show ?thesis using w by (simp add: l2_step_rejected)
next
  case True
  let ?f = "pk_bytes C (l2t_from tx)" and ?t = "pk_bytes C (l2t_to tx)"
  obtain b1 where b1: "b1 = bt_insert ?f (sat_sub (bt_get0 (l2_balances s) ?f)
      (sat_add (l2t_amount tx) (l2t_fee tx))) (l2_balances s)" by simp
  note st = l2_balances_stages [OF w t True refl b1]
  let ?b2 = "bt_insert ?t (sat_add (bt_get0 b1 ?t) (l2t_amount tx)) b1"
  have b2: "bt_total ?b2 = bt_total b1 + unat (l2t_amount tx)"
    using st(1,2) t by (intro bt_total_credit) auto
  have d: "bt_wf (distribute_fee (l2_founder s) (l2_community_fund s) (l2t_fee tx) ?b2)"
    "bt_total (distribute_fee (l2_founder s) (l2_community_fund s) (l2t_fee tx) ?b2)
       = bt_total ?b2 + unat (l2t_fee tx)"
    using st(1,2) b2 t by (intro distribute_fee_total; simp)+
  show ?thesis
    using d st(2) b2 by (simp add: l2_wf_def l2_total_def l2_step_accepted [OF True refl] Let_def flip: b1)
qed

text \<open>A funded sender and a transfer from it, for the witnesses.\<close>

definition sample_l2_state :: "u8 l2_state" where
  "sample_l2_state = l2_credit (pk_bytes sample_crypto 7) 10000 (l2_new [1] [2])"

lemma sample_l2_sel [simp]:
  "l2t_from (sample_l2_tx nonce amount fee) = 7" "l2t_to (sample_l2_tx nonce amount fee) = 8"
  "l2t_amount (sample_l2_tx nonce amount fee) = amount" "l2t_fee (sample_l2_tx nonce amount fee) = fee"
  "l2t_nonce (sample_l2_tx nonce amount fee) = nonce"
  by (simp_all add: sample_l2_tx_def l2_sign_def l2_new_unsigned_def Let_def)

lemma sample_l2_valid: "amount \<noteq> 0 \<Longrightarrow> l2_is_valid sample_crypto (sample_l2_tx nonce amount fee)"
  unfolding sample_l2_tx_def by (rule l2_signed_is_valid) (simp_all add: sample_crypto_def)

lemma sample_l2_acceptable: "l2_acceptable sample_crypto sample_l2_state (sample_l2_tx 0 1000 100)"
  by (simp add: l2_acceptable_def sample_l2_valid l2_nonce_def l2_balance_def sample_l2_state_def
      l2_credit_def l2_new_def bt_get0_def sat_add_def)

section \<open>Sequences of operations\<close>

datatype 'pk l2_op = CreditOp bytes u64 | TransferOp "'pk l2_transaction"

fun l2_run_op :: "'pk crypto_api \<Rightarrow> 'pk l2_op \<Rightarrow> 'pk l2_state \<Rightarrow> 'pk l2_state" where
  "l2_run_op C (CreditOp user amount) s = l2_credit user amount s"
| "l2_run_op C (TransferOp tx) s = l2_step C tx s"

fun op_credit :: "'pk l2_op \<Rightarrow> nat" where
  "op_credit (CreditOp user amount) = unat amount"
| "op_credit (TransferOp tx) = 0"

lemma l2_run_op_total:
  assumes "l2_wf s" and "l2_total s + op_credit x < 2 ^ 64 - 1"
  shows "l2_wf (l2_run_op C x s) \<and> l2_total (l2_run_op C x s) = l2_total s + op_credit x"
proof (cases x)
  case (CreditOp user amount)
  then show ?thesis
    using assms by (simp add: l2_credit_def l2_wf_def l2_total_def bt_total_credit)
next
  case (TransferOp tx)
  then show ?thesis using assms l2_step_conserves [of s C tx] by simp
qed

lemma l2_run_total:
  assumes "l2_wf s" and "l2_total s + sum_list (map op_credit xs) < 2 ^ 64 - 1"
  shows "l2_wf (fold (l2_run_op C) xs s)
    \<and> l2_total (fold (l2_run_op C) xs s) = l2_total s + sum_list (map op_credit xs)"
  using assms
proof (induction xs arbitrary: s)
  case (Cons x xs)
  have "l2_wf (l2_run_op C x s) \<and> l2_total (l2_run_op C x s) = l2_total s + op_credit x"
    using Cons.prems by (intro l2_run_op_total) simp_all
  with Cons show ?case by (simp add: add.assoc)
qed simp

text \<open>
  C2. Money is conserved. After any sequence of credits and transfers from the empty state, accepted
  or refused, with senders, recipients, founder and community fund equal or not, the balances of all
  accounts add up to exactly what was credited, as long as that stays below the largest 64-bit value.
\<close>

theorem l2_conservation:
  assumes "sum_list (map op_credit xs) < 2 ^ 64 - 1"
  shows "l2_total (fold (l2_run_op C) xs (l2_new founder community)) = sum_list (map op_credit xs)"
  using l2_run_total [of "l2_new founder community" xs C] assms
  by (simp add: l2_new_def l2_wf_def l2_total_def)

theorem l2_conservation_witness:
  "l2_total (fold (l2_run_op sample_crypto)
     [CreditOp (pk_bytes sample_crypto 7) 10000, TransferOp (sample_l2_tx 0 1000 100),
      TransferOp (sample_l2_tx 1 20000 5)] (l2_new [1] [2])) = 10000"
  using l2_conservation [of "[CreditOp (pk_bytes sample_crypto 7) 10000,
      TransferOp (sample_l2_tx 0 1000 100), TransferOp (sample_l2_tx 1 20000 5)]" sample_crypto "[1]" "[2]"]
  by simp

text \<open>
  The bound is sharp: with a balance of the largest 64-bit value, \<open>amount + fee\<close> saturates in the check
  and the transfer credits one unit more than it debits.
\<close>

lemma l2_saturation_mints:
  fixes s :: "u8 l2_state"
  assumes "s = l2_credit (pk_bytes sample_crypto 7) (- 1) (l2_new [1] [2])"
  shows "l2_total s = 2 ^ 64 - 1 \<and> l2_total (l2_step sample_crypto (sample_l2_tx 0 (- 1) 1) s) = 2 ^ 64"
proof -
  let ?f = "7 # replicate 31 0 :: bytes" and ?t = "8 # replicate 31 0 :: bytes"
  have bal: "l2_balances s = [(?f, - 1)]"
    by (simp add: assms l2_credit_def l2_new_def bt_get0_def sat_add_def sample_crypto_def)
  have f: "pk_bytes sample_crypto 7 = ?f" "pk_bytes sample_crypto 8 = ?t"
    by (simp_all add: sample_crypto_def)
  have sat: "sat_add (- 1) 1 = (- 1 :: u64)" by (simp add: sat_add_def unat_max_word)
  have ok: "l2_acceptable sample_crypto s (sample_l2_tx 0 (- 1) 1)"
    unfolding l2_acceptable_def sample_l2_sel f sat l2_balance_def bal
    by (simp add: sample_l2_valid l2_nonce_def bt_get0_def assms l2_credit_def l2_new_def)
  have cut: "founder_cut 1 = 0" "community_cut 1 = 1"
    by (simp_all add: word_unat_eq_iff unat_founder_cut unat_community_cut)
  have fo: "l2_founder s = [1]" "l2_community_fund s = [2]"
    by (simp_all add: assms l2_credit_def l2_new_def)
  have "l2_balances (l2_step sample_crypto (sample_l2_tx 0 (- 1) 1) s)
      = [([1], 0), ([2], 1), (?f, 0), (?t, - 1)]"
    unfolding l2_step_accepted [OF ok refl] sample_l2_sel f bal fo
    by (simp add: Let_def distribute_fee_def cut bt_get0_def sat_add_def sat_sub_def unat_max_word)
  then show ?thesis by (simp add: l2_total_def bal unat_max_word)
qed

section \<open>An abstract ledger\<close>

text \<open>Balances as a function to the natural numbers, and a transfer on it: nothing saturates.\<close>

definition ledger_add :: "bytes \<Rightarrow> nat \<Rightarrow> (bytes \<Rightarrow> nat) \<Rightarrow> bytes \<Rightarrow> nat" where
  "ledger_add u n b = b(u := b u + n)"

definition ledger_transfer ::
  "bytes \<Rightarrow> bytes \<Rightarrow> bytes \<Rightarrow> bytes \<Rightarrow> nat \<Rightarrow> nat \<Rightarrow> (bytes \<Rightarrow> nat) \<Rightarrow> bytes \<Rightarrow> nat" where
  "ledger_transfer founder community from to amount fee b =
     ledger_add community (fee - fee div 10) (ledger_add founder (fee div 10)
       (ledger_add to amount (b(from := b from - (amount + fee)))))"

definition bt_abs :: "(bytes \<times> u64) list \<Rightarrow> bytes \<Rightarrow> nat" where
  "bt_abs m u = unat (bt_get0 m u)"

definition l2_abs :: "'pk l2_state \<Rightarrow> bytes \<Rightarrow> nat" where
  "l2_abs s = bt_abs (l2_balances s)"

lemma bt_abs_insert: "bt_abs (bt_insert k v m) = (bt_abs m)(k := unat v)"
  by (auto simp: bt_abs_def bt_get0_insert fun_eq_iff)

lemma bt_abs_credit:
  "bt_total m + unat a < 2 ^ 64 \<Longrightarrow>
     bt_abs (bt_insert k (sat_add (bt_get0 m k) a) m) = ledger_add k (unat a) (bt_abs m)"
  using bt_get0_le_total [of m k]
  by (simp add: bt_abs_insert ledger_add_def rust_arith bt_abs_def)

lemma distribute_fee_abs:
  assumes "bt_wf m" and "bt_total m + unat fee < 2 ^ 64"
  shows "bt_abs (distribute_fee fo co fee m)
    = ledger_add co (unat fee - unat fee div 10) (ledger_add fo (unat fee div 10) (bt_abs m))"
proof -
  let ?b = "bt_insert fo (sat_add (bt_get0 m fo) (founder_cut fee)) m"
  note cuts = cuts_add_up [of fee]
  have "bt_total ?b = bt_total m + unat (founder_cut fee)"
    using assms cuts by (intro bt_total_credit) auto
  then have "bt_abs (bt_insert co (sat_add (bt_get0 ?b co) (community_cut fee)) ?b)
      = ledger_add co (unat (community_cut fee)) (bt_abs ?b)"
    using assms cuts by (intro bt_abs_credit) auto
  moreover have "bt_abs ?b = ledger_add fo (unat (founder_cut fee)) (bt_abs m)"
    using assms cuts by (intro bt_abs_credit) auto
  ultimately show ?thesis
    by (simp add: distribute_fee_def Let_def unat_founder_cut unat_community_cut)
qed

text \<open>
  C14. The state machine refines the abstract ledger: as long as less than the largest 64-bit value is
  in circulation, one call of \<open>process_transaction\<close> changes the balances exactly as the unbounded
  transfer does (debit of amount plus fee, credit of the amount, a tenth of the fee to the founder,
  the rest to the community fund) when the transfer is valid, fresh, has the sender's next nonce and
  is funded, and otherwise not at all.
\<close>

theorem l2_refines_ledger:
  assumes w: "l2_wf s" and t: "l2_total s < 2 ^ 64 - 1"
  shows "l2_abs (l2_step C tx s) =
    (if l2_acceptable C s tx
     then ledger_transfer (l2_founder s) (l2_community_fund s) (pk_bytes C (l2t_from tx))
       (pk_bytes C (l2t_to tx)) (unat (l2t_amount tx)) (unat (l2t_fee tx)) (l2_abs s)
     else l2_abs s)"
proof (cases "l2_acceptable C s tx")
  case False
  then show ?thesis by (simp add: l2_step_rejected)
next
  case True
  let ?f = "pk_bytes C (l2t_from tx)" and ?t = "pk_bytes C (l2t_to tx)"
  obtain b1 where b1: "b1 = bt_insert ?f (sat_sub (bt_get0 (l2_balances s) ?f)
      (sat_add (l2t_amount tx) (l2t_fee tx))) (l2_balances s)" by simp
  note st = l2_balances_stages [OF w t True refl b1]
  let ?b2 = "bt_insert ?t (sat_add (bt_get0 b1 ?t) (l2t_amount tx)) b1"
  have a1: "bt_abs b1 = (l2_abs s)(?f := l2_abs s ?f - (unat (l2t_amount tx) + unat (l2t_fee tx)))"
    using st(3) by (simp add: b1 bt_abs_insert l2_abs_def bt_abs_def l2_balance_def)
  have a2: "bt_abs ?b2 = ledger_add ?t (unat (l2t_amount tx)) (bt_abs b1)"
    using st(1,2) t by (intro bt_abs_credit) auto
  have "bt_total ?b2 = bt_total b1 + unat (l2t_amount tx)"
    using st(1,2) t by (intro bt_total_credit) auto
  then have "bt_abs (distribute_fee (l2_founder s) (l2_community_fund s) (l2t_fee tx) ?b2)
    = ledger_add (l2_community_fund s) (unat (l2t_fee tx) - unat (l2t_fee tx) div 10)
       (ledger_add (l2_founder s) (unat (l2t_fee tx) div 10) (bt_abs ?b2))"
    using st(1,2) t by (intro distribute_fee_abs) auto
  then have "l2_abs (l2_step C tx s) = ledger_transfer (l2_founder s) (l2_community_fund s) ?f ?t
      (unat (l2t_amount tx)) (unat (l2t_fee tx)) (l2_abs s)"
    unfolding ledger_transfer_def a1 [symmetric] a2 [symmetric]
    by (simp add: l2_abs_def l2_step_accepted [OF True refl] Let_def flip: b1)
  with True show ?thesis by simp
qed

theorem l2_refines_ledger_witness:
  "l2_abs (l2_step sample_crypto (sample_l2_tx 0 1000 100) sample_l2_state) (pk_bytes sample_crypto 8) = 1000"
proof -
  have "l2_wf sample_l2_state" and "l2_total sample_l2_state < 2 ^ 64 - 1"
    by (simp_all add: sample_l2_state_def l2_wf_def bt_wf_def l2_total_def l2_credit_def l2_new_def
        bt_get0_def sat_add_def)
  note r = l2_refines_ledger [OF this, of sample_crypto "sample_l2_tx 0 1000 100"]
  show ?thesis
    unfolding r if_P [OF sample_l2_acceptable] sample_l2_sel
    by (simp add: ledger_transfer_def ledger_add_def sample_l2_state_def l2_credit_def l2_new_def
        l2_abs_def bt_abs_def bt_get0_def sample_crypto_def)
qed

section \<open>Replay and order\<close>

lemma l2_processed_mono: "l2_processed s \<subseteq> l2_processed (l2_run_op C x s)"
proof (cases x)
  case (CreditOp user amount)
  then show ?thesis by (simp add: l2_credit_def)
next
  case (TransferOp tx)
  then show ?thesis
    by (cases "l2_acceptable C s tx") (auto simp: l2_step_accepted [OF _ refl] l2_step_rejected)
qed

lemma l2_processed_run: "h \<in> l2_processed s \<Longrightarrow> h \<in> l2_processed (fold (l2_run_op C) xs s)"
  by (induction xs arbitrary: s) (use l2_processed_mono in fastforce)+

text \<open>
  C35. No transfer executes twice. Once \<open>process_transaction\<close> has accepted a transfer, it answers
  \<open>ReplayDetected\<close> to the same transfer after any later sequence of credits and transfers, and leaves
  the state as it is.
\<close>

theorem l2_no_replay:
  assumes "l2_ok C s tx"
  shows "process_transaction C tx (fold (l2_run_op C) xs (l2_step C tx s))
    = (fold (l2_run_op C) xs (l2_step C tx s), Err ReplayDetected)"
proof -
  have a: "l2_acceptable C s tx" using assms by (simp add: l2_ok_iff)
  then have "l2t_tx_hash tx \<in> l2_processed (fold (l2_run_op C) xs (l2_step C tx s))"
    by (intro l2_processed_run) (simp add: l2_step_accepted [OF _ refl])
  moreover have "l2_is_valid C tx" using a by (simp add: l2_acceptable_def)
  ultimately show ?thesis
    using l2_valid_amount [of C tx] by (simp add: process_transaction_def build_context_def)
qed

theorem l2_no_replay_witness:
  "process_transaction sample_crypto (sample_l2_tx 0 1000 100)
     (fold (l2_run_op sample_crypto) [CreditOp [3] 5]
        (l2_step sample_crypto (sample_l2_tx 0 1000 100) sample_l2_state))
   = (fold (l2_run_op sample_crypto) [CreditOp [3] 5]
        (l2_step sample_crypto (sample_l2_tx 0 1000 100) sample_l2_state), Err ReplayDetected)"
  by (rule l2_no_replay) (simp add: l2_ok_iff sample_l2_acceptable)

text \<open>The transfers that a run of the machine accepts, in order.\<close>

fun l2_accepted :: "'pk crypto_api \<Rightarrow> 'pk l2_op list \<Rightarrow> 'pk l2_state \<Rightarrow> 'pk l2_transaction list" where
  "l2_accepted C [] s = []"
| "l2_accepted C (CreditOp user amount # xs) s = l2_accepted C xs (l2_credit user amount s)"
| "l2_accepted C (TransferOp tx # xs) s =
     (if l2_ok C s tx then tx # l2_accepted C xs (l2_step C tx s) else l2_accepted C xs (l2_step C tx s))"

definition account_nonces :: "'pk crypto_api \<Rightarrow> bytes \<Rightarrow> 'pk l2_transaction list \<Rightarrow> nat list" where
  "account_nonces C f txs = map (\<lambda>tx. unat (l2t_nonce tx)) (filter (\<lambda>tx. pk_bytes C (l2t_from tx) = f) txs)"

lemma l2_nonce_accepted:
  assumes "l2_acceptable C s tx"
  shows "l2_nonce (l2_step C tx s) f = (if f = pk_bytes C (l2t_from tx) then sat_add (l2_nonce s f) 1 else l2_nonce s f)"
  by (simp add: l2_nonce_def l2_step_accepted [OF assms refl] bt_get0_insert)

lemma account_nonces_run:
  assumes "unat (l2_nonce s f) + length (account_nonces C f (l2_accepted C xs s)) < 2 ^ 64"
  shows "account_nonces C f (l2_accepted C xs s)
    = [unat (l2_nonce s f) ..< unat (l2_nonce s f) + length (account_nonces C f (l2_accepted C xs s))]
   \<and> unat (l2_nonce (fold (l2_run_op C) xs s) f)
    = unat (l2_nonce s f) + length (account_nonces C f (l2_accepted C xs s))"
  using assms
proof (induction C xs s rule: l2_accepted.induct)
  case (2 C user amount xs s)
  have "l2_nonce (l2_credit user amount s) f = l2_nonce s f" by (simp add: l2_nonce_def l2_credit_def)
  with 2 show ?case by simp
next
  case (3 C tx xs s)
  show ?case
  proof (cases "l2_ok C s tx")
    case False
    then have "l2_step C tx s = s" by (simp add: l2_ok_iff l2_step_rejected)
    with 3 False show ?thesis by simp
  next
    case True
    then have a: "l2_acceptable C s tx" by (simp add: l2_ok_iff)
    show ?thesis
    proof (cases "pk_bytes C (l2t_from tx) = f")
      case False
      with 3 True show ?thesis by (simp add: account_nonces_def l2_nonce_accepted [OF a])
    next
      case f: True
      let ?rest = "account_nonces C f (l2_accepted C xs (l2_step C tx s))"
      have all: "account_nonces C f (l2_accepted C (TransferOp tx # xs) s) = unat (l2_nonce s f) # ?rest"
        using True f a by (auto simp: account_nonces_def l2_acceptable_def)
      have "unat (l2_nonce s f) + 1 < 2 ^ 64" using "3.prems" all by simp
      then have n: "unat (l2_nonce (l2_step C tx s) f) = unat (l2_nonce s f) + 1"
        using f by (simp add: l2_nonce_accepted [OF a] rust_arith)
      then have "?rest = [unat (l2_nonce s f) + 1 ..< unat (l2_nonce s f) + 1 + length ?rest]"
        and "unat (l2_nonce (fold (l2_run_op C) xs (l2_step C tx s)) f) = unat (l2_nonce s f) + 1 + length ?rest"
        using "3.IH"(1) [OF True] "3.prems" all by simp_all
      moreover have "unat (l2_nonce s f) # [unat (l2_nonce s f) + 1 ..< unat (l2_nonce s f) + 1 + length ?rest]
          = [unat (l2_nonce s f) ..< unat (l2_nonce s f) + length (unat (l2_nonce s f) # ?rest)]"
        by (subst (2) upt_conv_Cons) simp_all
      ultimately show ?thesis unfolding all by simp
    qed
  qed
qed (simp add: account_nonces_def)

text \<open>C21. Transfers of an account execute in its own order: over any sequence of fewer than 2 to the power of
  64 credits and transfers from the empty state, the transfers accepted from one sender carry the nonces 0, 1, 2, ...
  without gap or repeat, and the nonce stored for the sender at the end is their number.\<close>

theorem l2_nonces_sequential:
  fixes C :: "'pk crypto_api"
  assumes "length xs < 2 ^ 64"
    and "nonces = account_nonces C f (l2_accepted C xs (l2_new founder community))"
  shows "nonces = [0 ..< length nonces]
    \<and> unat (l2_nonce (fold (l2_run_op C) xs (l2_new founder community)) f) = length nonces"
proof -
  have "length (l2_accepted C xs s) \<le> length xs" for s
    by (induction C xs s rule: l2_accepted.induct) (auto simp: le_SucI)
  then have "length nonces \<le> length xs"
    unfolding assms(2) account_nonces_def length_map by (meson le_trans length_filter_le)
  moreover have "l2_nonce (l2_new founder community :: 'pk l2_state) f = 0"
    by (simp add: l2_nonce_def l2_new_def bt_get0_def)
  ultimately show ?thesis
    using account_nonces_run [of "l2_new founder community" f C xs] assms by simp
qed

text \<open>A credit, a transfer, and the same transfer once more: one is accepted, and the stored nonce is 1.\<close>

theorem l2_nonces_sequential_witness:
  "unat (l2_nonce (fold (l2_run_op sample_crypto) [CreditOp (pk_bytes sample_crypto 7) 10000,
      TransferOp (sample_l2_tx 0 1000 100), TransferOp (sample_l2_tx 0 1000 100)] (l2_new [1] [2]))
      (pk_bytes sample_crypto 7)) = 1"
proof -
  let ?t = "sample_l2_tx 0 1000 100" and ?s = "l2_step sample_crypto (sample_l2_tx 0 1000 100) sample_l2_state"
  let ?xs = "[CreditOp (pk_bytes sample_crypto 7) 10000, TransferOp ?t, TransferOp ?t]"
  have ok: "l2_ok sample_crypto sample_l2_state ?t" by (simp add: l2_ok_iff sample_l2_acceptable)
  have "l2_nonce ?s (pk_bytes sample_crypto 7) = 1"
    unfolding l2_nonce_accepted [OF sample_l2_acceptable] sample_l2_sel
    by (simp add: l2_nonce_def sample_l2_state_def l2_credit_def l2_new_def bt_get0_def sat_add_def)
  then have "\<not> l2_ok sample_crypto ?s ?t" by (simp add: l2_ok_iff l2_acceptable_def)
  with ok have "l2_accepted sample_crypto ?xs (l2_new [1] [2]) = [?t]"
    by (simp flip: sample_l2_state_def)
  then have "account_nonces sample_crypto (pk_bytes sample_crypto 7) (l2_accepted sample_crypto ?xs (l2_new [1] [2])) = [0]"
    by (simp add: account_nonces_def)
  with l2_nonces_sequential [of ?xs "[0]" sample_crypto "pk_bytes sample_crypto 7" "[1]" "[2]"] show ?thesis
    by simp
qed

end
