(* ===== verification/Node_Config.thy ===== *)
theory Node_Config
  imports Block
begin

text \<open>
  \<open>crates/aevum-node/src/config.rs\<close>: the configuration of a node, its defaults, its check and its
  fingerprint. A \<open>usize\<close> is a natural number written as eight bytes where it is hashed. The socket
  addresses of the standard library are modelled with their comparison and their text form, because the
  check compares them and the fingerprint hashes the text. The two environment variables that are read
  are arguments.

  The lemmas: the check accepts exactly the configurations that satisfy its bounds and whose bootstrap
  peers are distinct, specified and not the node itself; the fingerprint determines all the values that
  are hashed.
\<close>

section \<open>Socket addresses\<close>

datatype ip_addr = IpV4 u8 u8 u8 u8 | IpV6 "u16 list"

text \<open>An IPv6 socket address also carries a flow label and a scope.\<close>

datatype socket_addr =
    SockV4 u8 u8 u8 u8 u16
  | SockV6 "u16 list" u16 u32 u32

fun sock_ip :: "socket_addr \<Rightarrow> ip_addr" where
  "sock_ip (SockV4 a b c d port) = IpV4 a b c d"
| "sock_ip (SockV6 segs port flow scope) = IpV6 segs"

fun sock_new :: "ip_addr \<Rightarrow> u16 \<Rightarrow> socket_addr" where
  "sock_new (IpV4 a b c d) port = SockV4 a b c d port"
| "sock_new (IpV6 segs) port = SockV6 segs port 0 0"

fun is_unspecified :: "ip_addr \<Rightarrow> bool" where
  "is_unspecified (IpV4 a b c d) \<longleftrightarrow> a = 0 \<and> b = 0 \<and> c = 0 \<and> d = 0"
| "is_unspecified (IpV6 segs) \<longleftrightarrow> list_all (\<lambda>s. s = 0) segs"

subsection \<open>Text form\<close>

definition show_byte :: "u8 \<Rightarrow> string" where
  "show_byte b = show_nat (unat b)"

definition hex_digit :: "nat \<Rightarrow> char" where
  "hex_digit d = (if d < 10 then char_of (48 + d) else char_of (87 + d))"

fun show_hex :: "nat \<Rightarrow> string" where
  "show_hex n = (if n < 16 then [hex_digit n] else show_hex (n div 16) @ [hex_digit (n mod 16)])"

declare show_hex.simps [simp del]

text \<open>The first longest run of zero segments, as its start and length.\<close>

fun zero_run :: "nat \<Rightarrow> nat \<times> nat \<Rightarrow> nat \<times> nat \<Rightarrow> u16 list \<Rightarrow> nat \<times> nat" where
  "zero_run i longest current [] = longest"
| "zero_run i longest current (s # ss) =
     (if s = 0 then
        let current' = (if snd current = 0 then (i, 1) else (fst current, Suc (snd current)))
        in zero_run (Suc i) (if snd longest < snd current' then current' else longest) current' ss
      else zero_run (Suc i) longest (0, 0) ss)"

definition show_segments :: "u16 list \<Rightarrow> string" where
  "show_segments segs = join_with '':'' (map (\<lambda>s. show_hex (unat s)) segs)"

definition show_ipv6 :: "u16 list \<Rightarrow> string" where
  "show_ipv6 segs =
     (if take 6 segs = [0, 0, 0, 0, 0, 0xFFFF] then
        ''::ffff:'' @ join_with ''.''
          (concat (map (\<lambda>s. [show_nat (unat s div 256), show_nat (unat s mod 256)]) (drop 6 segs)))
      else let (start, len) = zero_run 0 (0, 0) (0, 0) segs in
        if len > 1 then show_segments (take start segs) @ ''::'' @ show_segments (drop (start + len) segs)
        else show_segments segs)"

fun sock_to_string :: "socket_addr \<Rightarrow> string" where
  "sock_to_string (SockV4 a b c d port) =
     join_with ''.'' [show_byte a, show_byte b, show_byte c, show_byte d] @ '':'' @ show_nat (unat port)"
| "sock_to_string (SockV6 segs port flow scope) =
     (if scope = 0 then ''['' @ show_ipv6 segs @ '']:'' @ show_nat (unat port)
      else ''['' @ show_ipv6 segs @ ''%'' @ show_nat (unat scope) @ '']:'' @ show_nat (unat port))"

section \<open>Errors\<close>

datatype config_error =
    InvalidListenAddr
  | InvalidHttpPort
  | InvalidGenesisAmount
  | InvalidTickConfig
  | InvalidMempoolConfig
  | InvalidSyncConfig
  | InvalidNetworkConfig
  | ConstraintViolation string

fun config_error_display :: "config_error \<Rightarrow> string" where
  "config_error_display InvalidListenAddr = ''invalid listen address''"
| "config_error_display InvalidHttpPort = ''invalid http port''"
| "config_error_display InvalidGenesisAmount = ''invalid genesis amount''"
| "config_error_display InvalidTickConfig = ''invalid tick config''"
| "config_error_display InvalidMempoolConfig = ''invalid mempool config''"
| "config_error_display InvalidSyncConfig = ''invalid sync config''"
| "config_error_display InvalidNetworkConfig = ''invalid network config''"
| "config_error_display (ConstraintViolation s) = ''constraint violation: '' @ s"

section \<open>The configuration\<close>

record node_config =
  nc_listen_addr :: socket_addr
  nc_bootstrap_peers :: "socket_addr list"
  nc_http_port :: u16
  nc_cors_origin :: "string option"
  nc_min_peers :: nat
  nc_peer_discovery_interval_secs :: u64
  nc_max_message_size :: nat
  nc_bootstrap_attempts :: nat
  nc_min_diverse_subnets :: nat
  nc_max_per_subnet :: nat
  nc_min_asn_diversity :: nat
  nc_db_path :: string
  nc_key_vault_path :: string
  nc_fresh_start :: bool
  nc_bootstrap_mode :: bool
  nc_ticks_per_block :: u64
  nc_block_interval_secs :: u64
  nc_max_block_tx :: nat
  nc_max_block_bytes :: nat
  nc_mempool_max_tx :: nat
  nc_mempool_max_bytes :: nat
  nc_mempool_ttl_secs :: u64
  nc_mempool_min_fee :: u64
  nc_sync_batch_size :: nat
  nc_max_reorg_depth :: u64
  nc_miner_key_hex :: "string option"
  nc_genesis_amount :: u64
  nc_api_key :: "string option"
  nc_testnet :: bool

text \<open>\<open>home\<close> is the variable \<open>HOME\<close>, absent when it cannot be read.\<close>

definition default_node_config :: "string option \<Rightarrow> node_config" where
  "default_node_config home =
     \<lparr>nc_listen_addr = SockV4 0 0 0 0 9733,
      nc_bootstrap_peers = [],
      nc_http_port = 19734,
      nc_cors_origin = None,
      nc_min_peers = 3,
      nc_peer_discovery_interval_secs = 15,
      nc_max_message_size = 16 * 1024 * 1024,
      nc_bootstrap_attempts = 3,
      nc_min_diverse_subnets = 2,
      nc_max_per_subnet = 3,
      nc_min_asn_diversity = 2,
      nc_db_path = ''./aevum.db'',
      nc_key_vault_path = (case home of Some h \<Rightarrow> h @ ''/.aevum/key.vault'' | None \<Rightarrow> ''./key.vault''),
      nc_fresh_start = False,
      nc_bootstrap_mode = False,
      nc_ticks_per_block = 30,
      nc_block_interval_secs = 30,
      nc_max_block_tx = 50000,
      nc_max_block_bytes = 16 * 1024 * 1024,
      nc_mempool_max_tx = 50000,
      nc_mempool_max_bytes = 128 * 1024 * 1024,
      nc_mempool_ttl_secs = 3600,
      nc_mempool_min_fee = 1,
      nc_sync_batch_size = 100,
      nc_max_reorg_depth = 64,
      nc_miner_key_hex = None,
      nc_genesis_amount = 21000000 * 100000000,
      nc_api_key = None,
      nc_testnet = False\<rparr>"

section \<open>The check\<close>

fun check_peers :: "socket_addr \<Rightarrow> socket_addr set \<Rightarrow> socket_addr list \<Rightarrow> (unit, config_error) result" where
  "check_peers listen seen [] = Ok ()"
| "check_peers listen seen (peer # peers) =
     (if is_unspecified (sock_ip peer)
      then Err (ConstraintViolation (''bootstrap peer '' @ sock_to_string peer @ '' has unspecified IP''))
      else if peer = listen
      then Err (ConstraintViolation ''bootstrap peer cannot be our own listen address'')
      else if peer \<in> seen
      then Err (ConstraintViolation (''duplicate bootstrap peer '' @ sock_to_string peer))
      else check_peers listen (insert peer seen) peers)"

definition node_validate :: "node_config \<Rightarrow> (unit, config_error) result" where
  "node_validate c =
     (if nc_http_port c = 0 then Err InvalidHttpPort
      else if nc_ticks_per_block c = 0 \<or> nc_block_interval_secs c = 0 then Err InvalidTickConfig
      else if nc_genesis_amount c = 0 then Err InvalidGenesisAmount
      else if nc_sync_batch_size c = 0 \<or> nc_max_reorg_depth c = 0 then Err InvalidSyncConfig
      else if nc_mempool_max_tx c = 0 \<or> nc_mempool_max_bytes c = 0 then Err InvalidMempoolConfig
      else if nc_min_peers c = 0 then Err InvalidNetworkConfig
      else if nc_max_block_tx c > nc_mempool_max_tx c
      then Err (ConstraintViolation ''block tx limit exceeds mempool limit'')
      else if nc_max_block_bytes c > nc_mempool_max_bytes c
      then Err (ConstraintViolation ''block size exceeds mempool limit'')
      else check_peers (nc_listen_addr c) {} (nc_bootstrap_peers c))"

section \<open>Derived values\<close>

definition listen_socket_addr :: "node_config \<Rightarrow> socket_addr" where
  "listen_socket_addr c = nc_listen_addr c"

definition http_socket_addr :: "node_config \<Rightarrow> socket_addr" where
  "http_socket_addr c = sock_new (sock_ip (nc_listen_addr c)) (nc_http_port c)"

definition bootstrap_addrs :: "node_config \<Rightarrow> socket_addr list" where
  "bootstrap_addrs c = nc_bootstrap_peers c"

definition usize_le :: "nat \<Rightarrow> bytes" where
  "usize_le n = le64 (of_nat n)"

definition fingerprint_preimage :: "node_config \<Rightarrow> bytes" where
  "fingerprint_preimage c =
     ascii ''AEVUM_CONFIG_FINGERPRINT_V7_2'' @ ascii (sock_to_string (nc_listen_addr c))
     @ le16 (nc_http_port c) @ le64 (nc_ticks_per_block c) @ le64 (nc_block_interval_secs c)
     @ usize_le (nc_max_block_tx c) @ usize_le (nc_max_block_bytes c) @ le64 (nc_genesis_amount c)
     @ usize_le (nc_min_peers c) @ le64 (nc_max_reorg_depth c) @ le64 (nc_mempool_min_fee c)
     @ usize_le (nc_min_diverse_subnets c) @ usize_le (nc_max_per_subnet c)
     @ usize_le (nc_min_asn_diversity c)
     @ [bool_byte (nc_bootstrap_mode c)] @ [bool_byte (nc_testnet c)]"

definition config_fingerprint :: "'pk crypto_api \<Rightarrow> node_config \<Rightarrow> hash" where
  "config_fingerprint C c = blake3 C (fingerprint_preimage c)"

definition cors_header_value :: "string option \<Rightarrow> node_config \<Rightarrow> string option" where
  "cors_header_value env c = (case env of Some v \<Rightarrow> Some v | None \<Rightarrow> nc_cors_origin c)"

definition node_ip :: "node_config \<Rightarrow> ip_addr option" where
  "node_ip c = Some (sock_ip (nc_listen_addr c))"

section \<open>What the check accepts\<close>

lemma check_peers_Ok_iff:
  "check_peers listen seen ps = Ok () \<longleftrightarrow>
     distinct ps \<and> set ps \<inter> seen = {} \<and> listen \<notin> set ps \<and> list_all (\<lambda>p. \<not> is_unspecified (sock_ip p)) ps"
  by (induction listen seen ps rule: check_peers.induct) auto

lemma check_peers_not_Panic: "check_peers listen seen ps \<noteq> Panic"
  by (induction listen seen ps rule: check_peers.induct) auto

lemma default_node_config_valid: "node_validate (default_node_config home) = Ok ()"
  by (simp add: node_validate_def default_node_config_def)

definition node_limits_ok :: "node_config \<Rightarrow> bool" where
  "node_limits_ok c \<longleftrightarrow>
     0 < nc_http_port c \<and> 0 < nc_ticks_per_block c \<and> 0 < nc_block_interval_secs c \<and> 0 < nc_genesis_amount c
     \<and> 0 < nc_sync_batch_size c \<and> 0 < nc_max_reorg_depth c \<and> 0 < nc_mempool_max_tx c
     \<and> 0 < nc_mempool_max_bytes c \<and> 0 < nc_min_peers c
     \<and> nc_max_block_tx c \<le> nc_mempool_max_tx c \<and> nc_max_block_bytes c \<le> nc_mempool_max_bytes c"

lemma node_validate_cases:
  "node_limits_ok c \<Longrightarrow> node_validate c = check_peers (nc_listen_addr c) {} (nc_bootstrap_peers c)"
  "\<not> node_limits_ok c \<Longrightarrow> \<exists>e. node_validate c = Err e"
  by (auto simp: node_validate_def node_limits_ok_def word_neq_0_conv)

text \<open>The check of the node configuration always returns, and accepts exactly the configurations whose
  limits are positive and ordered (a block never holds more than the pool) and whose bootstrap peers are
  pairwise different, have a specified address and are not the listening address. The HTTP
  endpoint has the IP address of the listening one.\<close>

theorem node_validate_accepts:
  "node_validate c \<noteq> Panic \<and>
   (node_validate c = Ok () \<longleftrightarrow>
      node_limits_ok c \<and> distinct (bootstrap_addrs c) \<and> listen_socket_addr c \<notin> set (bootstrap_addrs c)
      \<and> list_all (\<lambda>p. \<not> is_unspecified (sock_ip p)) (bootstrap_addrs c)) \<and>
   sock_ip (http_socket_addr c) = sock_ip (listen_socket_addr c)"
proof -
  have "sock_ip (sock_new ip port) = ip" for ip port by (cases ip) auto
  then show ?thesis
    using node_validate_cases [of c]
    by (cases "node_limits_ok c")
       (auto simp: check_peers_not_Panic check_peers_Ok_iff bootstrap_addrs_def listen_socket_addr_def
         http_socket_addr_def)
qed

section \<open>The fingerprint\<close>

definition config_core :: "node_config \<Rightarrow> _" where
  "config_core c =
     (sock_to_string (nc_listen_addr c), nc_http_port c, nc_ticks_per_block c, nc_block_interval_secs c,
      nc_max_block_tx c, nc_max_block_bytes c, nc_genesis_amount c, nc_min_peers c, nc_max_reorg_depth c,
      nc_mempool_min_fee c, nc_min_diverse_subnets c, nc_max_per_subnet c, nc_min_asn_diversity c,
      nc_bootstrap_mode c, nc_testnet c)"

text \<open>Sizes are machine words, and the text of the address is ASCII.\<close>

definition config_wf :: "node_config \<Rightarrow> bool" where
  "config_wf c \<longleftrightarrow>
     list_all (\<lambda>n. n \<le> USIZE_MAX)
       [nc_max_block_tx c, nc_max_block_bytes c, nc_min_peers c, nc_min_diverse_subnets c,
        nc_max_per_subnet c, nc_min_asn_diversity c]"

lemma of_char_u8_inj: "(of_char a :: u8) = of_char b \<longleftrightarrow> a = b"
proof
  assume eq: "(of_char a :: u8) = of_char b"
  have "unat (of_char c :: u8) = of_char c" for c :: char
  proof -
    have "(of_char c :: u8) = of_nat (of_char c)" by (rule of_nat_of_char [symmetric])
    then show ?thesis by (simp add: unsigned_of_nat take_bit_eq_mod)
  qed
  with eq have "(of_char a :: nat) = of_char b" by metis
  then show "a = b" by simp
qed simp

lemma ascii_inj: "ascii s = ascii t \<longleftrightarrow> s = t"
  unfolding ascii_def by (rule inj_map_eq_map) (simp add: inj_def of_char_u8_inj)

lemma usize_le_inj: "m \<le> USIZE_MAX \<Longrightarrow> n \<le> USIZE_MAX \<Longrightarrow> usize_le m = usize_le n \<longleftrightarrow> m = n"
  by (auto simp: usize_le_def USIZE_MAX_def of_nat_inverse dest!: arg_cong [of "of_nat m" "of_nat n" unat])

lemma length_usize_le [simp]: "length (usize_le n) = 8"
  by (simp add: usize_le_def)

lemma fingerprint_binds:
  assumes "config_wf a" and "config_wf b" and "fingerprint_preimage a = fingerprint_preimage b"
  shows "config_core a = config_core b"
proof -
  have "length (fingerprint_preimage a) = length (fingerprint_preimage b)"
    using assms(3) by simp
  then have "length (sock_to_string (nc_listen_addr a)) = length (sock_to_string (nc_listen_addr b))"
    by (simp add: fingerprint_preimage_def)
  then show ?thesis
    using assms
    by (simp add: fingerprint_preimage_def config_core_def config_wf_def ascii_inj usize_le_inj)
qed

interpretation config_binding: binding fingerprint_preimage config_wf config_core
  by unfold_locales (rule fingerprint_binds)

text \<open>Two node configurations with the same fingerprint print the same listening address and agree on
  every consensus and network value that is hashed, as long as the two hashed byte strings are not a
  collision of the hash function.\<close>

theorem fingerprint_commits:
  assumes "config_wf a" and "config_wf b"
    and "no_collision C (fingerprint_preimage a) (fingerprint_preimage b)"
    and "config_fingerprint C a = config_fingerprint C b"
  shows "config_core a = config_core b"
  using config_binding.hash_binds [OF assms(1,2,3)] assms(4) by (simp add: config_fingerprint_def)

theorem fingerprint_commits_witness:
  "config_core (default_node_config None) = config_core (default_node_config (Some ''/root''))"
proof (rule fingerprint_commits)
  show "config_wf (default_node_config None)" "config_wf (default_node_config (Some ''/root''))"
    by (simp_all add: config_wf_def default_node_config_def USIZE_MAX_def)
  show "no_collision sample_crypto (fingerprint_preimage (default_node_config None))
      (fingerprint_preimage (default_node_config (Some ''/root'')))"
    by simp
  show "config_fingerprint sample_crypto (default_node_config None) =
      config_fingerprint sample_crypto (default_node_config (Some ''/root''))"
    by (simp add: config_fingerprint_def fingerprint_preimage_def default_node_config_def)
qed

text \<open>
  The fingerprint leaves out the pool limits, the message size and the synchronisation batch: two nodes
  that differ there have the same fingerprint.
\<close>

lemma fingerprint_ignores:
  "config_fingerprint C (c\<lparr>nc_mempool_max_tx := a, nc_mempool_max_bytes := b, nc_max_message_size := m,
     nc_sync_batch_size := n, nc_bootstrap_peers := ps\<rparr>) = config_fingerprint C c"
  by (simp add: config_fingerprint_def fingerprint_preimage_def)

end
