(* ===== verification/Http_Server.thy ===== *)
theory Http_Server
  imports Mempool Node_Config
begin

text \<open>
  \<open>crates/aevum-node/src/http_server.rs\<close>: the HTTP gateway of a node. A handler is a function from the
  application state and the request to the reply and the new state; the write lock of the pool makes the
  call of \<open>insert\<close> atomic. \<open>ChainOrchestrator\<close> and \<open>NodeLifecycle\<close> are not in the repository, \<open>hex\<close> and
  \<open>bincode\<close> are third-party crates: what the handlers call of them is the record \<open>http_api\<close>. A JSON object
  is the list of its fields. The clocks (\<open>SystemTime\<close> in seconds, \<open>Instant\<close> in nanoseconds) are arguments.

  The lemmas: every transaction that reached the pool through the gateway has the hash it claims and has
  inputs unless it is a coinbase or a heartbeat; the gauge of the pool size is exact; a refusal leaves the
  pool and the chain alone; the reply \<open>mempool_full\<close> cannot be produced under the default limits.
\<close>

section \<open>Replies\<close>

datatype json =
    JBool bool
  | JNum nat
  | JString string
  | JArray "json list"
  | JObject "(string \<times> json) list"
  | JNull

datatype http_status = HttpOk | HttpBadRequest | HttpNotFound | HttpTooManyRequests

type_synonym http_response = "http_status \<times> json"

definition json_error :: "string \<Rightarrow> json" where
  "json_error e = JObject [(''error'', JString e)]"

fun json_get :: "string \<Rightarrow> json \<Rightarrow> json option" where
  "json_get k (JObject fs) = map_of fs k"
| "json_get k _ = None"

fun json_as_str :: "json \<Rightarrow> string option" where
  "json_as_str (JString s) = Some s"
| "json_as_str _ = None"

section \<open>Metrics and application state\<close>

record node_metrics =
  nm_height :: u64
  nm_supply :: u64
  nm_network_height :: u64
  nm_peers :: u64
  nm_mempool_size :: u64
  nm_uptime :: nat
  nm_synced :: bool

definition metrics_new :: "nat \<Rightarrow> node_metrics" where
  "metrics_new now =
     \<lparr>nm_height = 0, nm_supply = 0, nm_network_height = 0, nm_peers = 0, nm_mempool_size = 0,
      nm_uptime = now, nm_synced = False\<rparr>"

definition update_chain :: "u64 \<Rightarrow> u64 \<Rightarrow> u64 \<Rightarrow> node_metrics \<Rightarrow> node_metrics" where
  "update_chain height supply network_height m =
     m\<lparr>nm_height := height, nm_supply := supply, nm_network_height := network_height\<rparr>"

record ('pk, 'zk, 'dna, 'ch, 'lc) app_state =
  as_metrics :: node_metrics
  as_chain :: 'ch
  as_mempool :: "('pk, 'zk, 'dna) mempool"
  as_config :: node_config
  as_shutdown :: bool
  as_lifecycle :: 'lc

record ('pk, 'zk, 'dna, 'ch, 'lc) http_api =
  canonical_tip :: "'ch \<Rightarrow> ('pk, 'zk, 'dna) block option"
  get_block :: "'ch \<Rightarrow> u64 \<Rightarrow> ('pk, 'zk, 'dna) block option"
  get_block_by_hash :: "'ch \<Rightarrow> hash \<Rightarrow> ('pk, 'zk, 'dna) block option"
  lc_as_str :: "'lc \<Rightarrow> string"
  lc_is_ready_for_clients :: "'lc \<Rightarrow> bool"
  lc_can_mine :: "'lc \<Rightarrow> bool"
  hex_decode :: "string \<Rightarrow> bytes option"
  hex_encode :: "bytes \<Rightarrow> string"
  tx_deserialize :: "bytes \<Rightarrow> ('pk, 'zk, 'dna) transaction option"

section \<open>Handlers\<close>

definition decode_hash :: "('pk, 'zk, 'dna, 'ch, 'lc) http_api \<Rightarrow> string \<Rightarrow> hash option" where
  "decode_hash A hex_str =
     (case hex_decode A hex_str of None \<Rightarrow> None
      | Some bs \<Rightarrow> if length bs \<noteq> 32 then None else Some bs)"

definition serialize_block ::
  "('pk, 'zk, 'dna, 'ch, 'lc) http_api \<Rightarrow> ('pk, 'zk, 'dna) block \<Rightarrow> json" where
  "serialize_block A b =
     JObject [(''height'', JNum (unat (blk_height b))),
       (''hash'', JString (hex_encode A (blk_block_hash b))),
       (''prev_hash'', JString (hex_encode A (blk_prev_hash b))),
       (''tx_count'', JNum (length (blk_transactions b))),
       (''total_supply'', JNum (unat (blk_total_supply b))),
       (''poh_tick_start'', JNum (unat (blk_poh_tick_start b))),
       (''poh_tick_end'', JNum (unat (blk_poh_tick_end b))),
       (''is_presence_block'', JBool (blk_is_presence_block b))]"

definition http_health ::
  "('pk, 'zk, 'dna, 'ch, 'lc) http_api \<Rightarrow> nat \<Rightarrow> ('pk, 'zk, 'dna, 'ch, 'lc) app_state \<Rightarrow> http_response" where
  "http_health A now s =
     (let m = as_metrics s; state = as_lifecycle s in
      (HttpOk, JObject [(''state'', JString (lc_as_str A state)),
         (''ready_for_clients'', JBool (lc_is_ready_for_clients A state)),
         (''can_mine'', JBool (lc_can_mine A state)),
         (''synced'', JBool (nm_synced m)),
         (''height'', JNum (unat (nm_height m))),
         (''supply'', JNum (unat (nm_supply m))),
         (''network_height'', JNum (unat (nm_network_height m))),
         (''peers'', JNum (unat (nm_peers m))),
         (''mempool'', JNum (unat (nm_mempool_size m))),
         (''uptime_secs'', JNum ((now - nm_uptime m) div 1000000000))]))"

definition http_get_tip ::
  "('pk, 'zk, 'dna, 'ch, 'lc) http_api \<Rightarrow> ('pk, 'zk, 'dna, 'ch, 'lc) app_state \<Rightarrow> http_response" where
  "http_get_tip A s =
     (case canonical_tip A (as_chain s) of
        Some b \<Rightarrow> (HttpOk, serialize_block A b)
      | None \<Rightarrow> (HttpNotFound, json_error ''no_tip''))"

definition http_block_by_height ::
  "('pk, 'zk, 'dna, 'ch, 'lc) http_api \<Rightarrow> u64 \<Rightarrow> ('pk, 'zk, 'dna, 'ch, 'lc) app_state \<Rightarrow> http_response" where
  "http_block_by_height A height s =
     (case get_block A (as_chain s) height of
        Some b \<Rightarrow> (HttpOk, serialize_block A b)
      | None \<Rightarrow> (HttpNotFound, json_error ''not_found''))"

definition http_block_by_hash ::
  "('pk, 'zk, 'dna, 'ch, 'lc) http_api \<Rightarrow> string \<Rightarrow> ('pk, 'zk, 'dna, 'ch, 'lc) app_state \<Rightarrow> http_response" where
  "http_block_by_hash A path s =
     (case decode_hash A path of
        None \<Rightarrow> (HttpBadRequest, json_error ''invalid_hash'')
      | Some h \<Rightarrow>
          (case get_block_by_hash A (as_chain s) h of
             Some b \<Rightarrow> (HttpOk, serialize_block A b)
           | None \<Rightarrow> (HttpNotFound, json_error ''not_found'')))"

text \<open>
  \<open>wall\<close> is the time since the epoch, absent for a clock before it. The seconds go to the parameter of
  \<open>insert\<close> that the pool calls \<open>poh_tick\<close>; the pool reads its own \<open>Instant\<close> (\<open>now\<close>).
\<close>

text \<open>\<open>submit_tx\<close> up to the guard on the length of the pool: the reply of a refusal, or the transaction.\<close>

definition submit_check ::
  "'pk crypto_api \<Rightarrow> ('pk, 'zk, 'dna, 'ch, 'lc) http_api \<Rightarrow> json
   \<Rightarrow> ('pk, 'zk, 'dna, 'ch, 'lc) app_state \<Rightarrow> http_response + ('pk, 'zk, 'dna) transaction" where
  "submit_check C A body s =
     (case Option.bind (json_get ''tx'' body) json_as_str of
        None \<Rightarrow> Inl (HttpBadRequest, json_error ''missing_tx'')
      | Some tx_hex \<Rightarrow>
     (case hex_decode A tx_hex of
        None \<Rightarrow> Inl (HttpBadRequest, json_error ''invalid_hex'')
      | Some tx_bytes \<Rightarrow>
     (case tx_deserialize A tx_bytes of
        None \<Rightarrow> Inl (HttpBadRequest, json_error ''invalid_tx'')
      | Some tx \<Rightarrow>
          if recompute_hash C tx \<noteq> tx_hash tx
          then Inl (HttpBadRequest, json_error ''hash_mismatch'')
          else if \<not> is_coinbase tx \<and> \<not> is_heartbeat tx \<and> tx_inputs tx = []
          then Inl (HttpBadRequest, json_error ''no_inputs'')
          else if pool_len (as_mempool s) > nc_mempool_max_tx (as_config s)
          then Inl (HttpTooManyRequests, json_error ''mempool_full'')
          else Inr tx)))"

definition submit_reply ::
  "('pk, 'zk, 'dna, 'ch, 'lc) http_api \<Rightarrow> ('pk, 'zk, 'dna) transaction \<Rightarrow> bool \<Rightarrow> http_response" where
  "submit_reply A tx accepted =
     (let tx_hash_hex = hex_encode A (tx_hash tx) in
      if accepted
      then (HttpOk, JObject [(''status'', JString ''accepted''), (''tx_hash'', JString tx_hash_hex)])
      else (HttpBadRequest, JObject [(''status'', JString ''rejected''), (''tx_hash'', JString tx_hash_hex)]))"

definition http_submit_tx ::
  "'pk crypto_api \<Rightarrow> ('pk, 'zk, 'dna, 'ch, 'lc) http_api \<Rightarrow> nat \<Rightarrow> u64 option \<Rightarrow> json
   \<Rightarrow> ('pk, 'zk, 'dna, 'ch, 'lc) app_state \<Rightarrow> http_response \<times> ('pk, 'zk, 'dna, 'ch, 'lc) app_state" where
  "http_submit_tx C A now wall body s =
     (case submit_check C A body s of
        Inl reply \<Rightarrow> (reply, s)
      | Inr tx \<Rightarrow>
          let secs = (case wall of Some t \<Rightarrow> t | None \<Rightarrow> 0);
              (pool, accepted) = mempool_insert now tx secs (as_mempool s)
          in (submit_reply A tx accepted,
              s\<lparr>as_mempool := pool,
                as_metrics := (as_metrics s)\<lparr>nm_mempool_size := of_nat (pool_len pool)\<rparr>\<rparr>))"

definition http_mempool_stats :: "('pk, 'zk, 'dna, 'ch, 'lc) app_state \<Rightarrow> http_response" where
  "http_mempool_stats s =
     (HttpOk, JObject [(''count'', JNum (pool_len (as_mempool s))),
                       (''total_bytes'', JNum (mp_total_bytes (as_mempool s)))])"

lemma http_submit_tx_unfold:
  "http_submit_tx C A now wall body s =
     (case Option.bind (json_get ''tx'' body) json_as_str of
        None \<Rightarrow> ((HttpBadRequest, json_error ''missing_tx''), s)
      | Some tx_hex \<Rightarrow>
     (case hex_decode A tx_hex of
        None \<Rightarrow> ((HttpBadRequest, json_error ''invalid_hex''), s)
      | Some tx_bytes \<Rightarrow>
     (case tx_deserialize A tx_bytes of
        None \<Rightarrow> ((HttpBadRequest, json_error ''invalid_tx''), s)
      | Some tx \<Rightarrow>
          if recompute_hash C tx \<noteq> tx_hash tx
          then ((HttpBadRequest, json_error ''hash_mismatch''), s)
          else if \<not> is_coinbase tx \<and> \<not> is_heartbeat tx \<and> tx_inputs tx = []
          then ((HttpBadRequest, json_error ''no_inputs''), s)
          else if pool_len (as_mempool s) > nc_mempool_max_tx (as_config s)
          then ((HttpTooManyRequests, json_error ''mempool_full''), s)
          else
            let secs = (case wall of Some t \<Rightarrow> t | None \<Rightarrow> 0);
                tx_hash_hex = hex_encode A (tx_hash tx);
                (pool, accepted) = mempool_insert now tx secs (as_mempool s);
                s' = s\<lparr>as_mempool := pool,
                       as_metrics := (as_metrics s)\<lparr>nm_mempool_size := of_nat (pool_len pool)\<rparr>\<rparr>
            in (if accepted
                then (HttpOk, JObject [(''status'', JString ''accepted''), (''tx_hash'', JString tx_hash_hex)])
                else (HttpBadRequest,
                      JObject [(''status'', JString ''rejected''), (''tx_hash'', JString tx_hash_hex)]), s'))))"
  by (simp add: http_submit_tx_def submit_check_def submit_reply_def Let_def split: option.splits prod.splits)

text \<open>The routes of \<open>run_server\<close>; a request carries the parameters its handler extracts.\<close>

datatype http_request =
    GetHealth
  | GetTip
  | GetBlock u64
  | GetBlockHash string
  | PostTx json
  | GetMempool

fun http_dispatch ::
  "'pk crypto_api \<Rightarrow> ('pk, 'zk, 'dna, 'ch, 'lc) http_api \<Rightarrow> nat \<times> u64 option \<times> http_request
   \<Rightarrow> ('pk, 'zk, 'dna, 'ch, 'lc) app_state \<Rightarrow> http_response \<times> ('pk, 'zk, 'dna, 'ch, 'lc) app_state" where
  "http_dispatch C A (now, wall, GetHealth) s = (http_health A now s, s)"
| "http_dispatch C A (now, wall, GetTip) s = (http_get_tip A s, s)"
| "http_dispatch C A (now, wall, GetBlock h) s = (http_block_by_height A h s, s)"
| "http_dispatch C A (now, wall, GetBlockHash h) s = (http_block_by_hash A h s, s)"
| "http_dispatch C A (now, wall, PostTx body) s = http_submit_tx C A now wall body s"
| "http_dispatch C A (now, wall, GetMempool) s = (http_mempool_stats s, s)"

definition run_server ::
  "node_metrics \<Rightarrow> 'ch \<Rightarrow> ('pk, 'zk, 'dna) mempool \<Rightarrow> node_config \<Rightarrow> bool \<Rightarrow> 'lc
   \<Rightarrow> socket_addr \<times> ('pk, 'zk, 'dna, 'ch, 'lc) app_state" where
  "run_server metrics chain mempool config shutdown lifecycle =
     (http_socket_addr config,
      \<lparr>as_metrics = metrics, as_chain = chain, as_mempool = mempool, as_config = config,
       as_shutdown = shutdown, as_lifecycle = lifecycle\<rparr>)"

section \<open>The interface between the gateway and the pool\<close>

text \<open>
  What the gateway relies on: an accepted transaction is stored under its hash and nothing else changes in
  the store, a refused one leaves the store alone, no other call adds to it, and a consistent pool is
  never longer than its capacity.
\<close>

locale tx_pool =
  fixes ins :: "nat \<Rightarrow> 'tx \<Rightarrow> u64 \<Rightarrow> 'p \<Rightarrow> 'p \<times> bool" and work :: "'w \<Rightarrow> 'p \<Rightarrow> 'p"
    and key :: "'tx \<Rightarrow> hash" and store :: "'p \<Rightarrow> hash \<Rightarrow> 'tx option"
    and len :: "'p \<Rightarrow> nat" and ok :: "'p \<Rightarrow> bool" and cap :: nat
  assumes ins_ok: "ok p \<Longrightarrow> ok (fst (ins now tx tick p))"
    and ins_accepted: "snd (ins now tx tick p) \<Longrightarrow> store (fst (ins now tx tick p)) = (store p)(key tx \<mapsto> tx)"
    and ins_refused: "\<not> snd (ins now tx tick p) \<Longrightarrow> store (fst (ins now tx tick p)) = store p"
    and work_ok: "ok p \<Longrightarrow> ok (work w p)"
    and work_shrinks: "store (work w p) \<subseteq>\<^sub>m store p"
    and len_cap: "ok p \<Longrightarrow> len p \<le> cap"
begin

lemma ins_keeps:
  assumes "\<forall>h t. store p h = Some t \<longrightarrow> good h t" and "good (key tx) tx"
    and "store (fst (ins now tx tick p)) h = Some t"
  shows "good h t"
  using assms ins_accepted [of now tx tick p] ins_refused [of now tx tick p]
  by (cases "snd (ins now tx tick p)") (auto split: if_splits)

lemma work_keeps:
  assumes "\<forall>h t. store p h = Some t \<longrightarrow> good h t" and "store (work w p) h = Some t"
  shows "good h t"
  using assms work_shrinks [of w p] by (auto simp: map_le_def dom_def)

lemma guard_dead: "ok p \<Longrightarrow> cap \<le> limit \<Longrightarrow> \<not> limit < len p"
  using len_cap [of p] by simp

end

subsection \<open>The pool provides it\<close>

lemma remove_stored_shrinks:
  "mp_tx_store s = mp_tx_store s0 \<Longrightarrow> map_of (mp_tx_store (remove_stored h s)) \<subseteq>\<^sub>m map_of (mp_tx_store s0)"
  by (auto simp: remove_stored_def map_le_def AList.delete_conv' split: option.splits if_splits)

lemma remove_one_shrinks: "map_of (mp_tx_store (remove_one h s)) \<subseteq>\<^sub>m map_of (mp_tx_store s)"
  by (auto simp: remove_one_def intro!: remove_stored_shrinks split: option.splits)

lemma evict_one_shrinks: "map_of (mp_tx_store (evict_one h s)) \<subseteq>\<^sub>m map_of (mp_tx_store s)"
  by (auto simp: evict_one_def intro!: remove_stored_shrinks split: option.splits)

lemma fold_shrinks:
  fixes s s0 :: "('pk, 'zk, 'dna) mempool"
  assumes "\<And>h s. map_of (mp_tx_store (f h s)) \<subseteq>\<^sub>m map_of (mp_tx_store s)"
    and "mp_tx_store s = mp_tx_store s0"
  shows "map_of (mp_tx_store (fold f hs s)) \<subseteq>\<^sub>m map_of (mp_tx_store s0)"
  using assms(2)
proof (induction hs arbitrary: s s0)
  case (Cons h hs)
  from Cons.IH [of "f h s" "f h s"] assms(1) [of h s] Cons.prems show ?case by (auto intro: map_le_trans)
qed simp

lemma take_tx_shrinks:
  "take_tx r (s, bytes, out) = (s', bytes', out') \<Longrightarrow> map_of (mp_tx_store s') \<subseteq>\<^sub>m map_of (mp_tx_store s)"
  by (auto simp: take_tx_def map_le_def AList.delete_conv' split: option.splits if_splits)

lemma bucket_loop_shrinks:
  assumes "bucket_loop mt mb b st = Some res"
  shows "map_of (mp_tx_store (fst (snd res))) \<subseteq>\<^sub>m map_of (mp_tx_store (fst st))"
proof (rule bucket_loop.raw_induct [where P = "\<lambda>mt mb b st res.
      map_of (mp_tx_store (fst (snd res))) \<subseteq>\<^sub>m map_of (mp_tx_store (fst st))", OF _ assms], goal_cases)
  case (1 loop mt mb b st res)
  obtain s bytes out where st: "st = (s, bytes, out)" by (cases st)
  show ?case
  proof (cases "mp_buckets s ! b")
    case (Cons r rest)
    obtain s' bytes' out' where t: "take_tx r (s\<lparr>mp_buckets := (mp_buckets s)[b := rest]\<rparr>, bytes, out) = (s', bytes', out')"
      by (metis prod_cases3)
    then have "map_of (mp_tx_store s') \<subseteq>\<^sub>m map_of (mp_tx_store s)"
      using take_tx_shrinks [OF t] by simp
    with "1"(2) st Cons t show ?thesis
      by (auto split: if_splits dest!: "1"(1) intro: map_le_trans)
  qed (use "1"(2) st in auto)
qed

lemma buckets_loop_shrinks:
  "buckets_loop mt mb bs st = Some st' \<Longrightarrow> map_of (mp_tx_store (fst st')) \<subseteq>\<^sub>m map_of (mp_tx_store (fst st))"
proof (induction mt mb bs st rule: buckets_loop.induct)
  case (2 mt mb b bs st)
  from "2.prems" obtain fl st1 where l: "bucket_loop mt mb b st = Some (fl, st1)"
    by (auto split: option.splits)
  note first = bucket_loop_shrinks [OF l, simplified]
  show ?case
  proof (cases fl)
    case True
    with l first "2.prems" show ?thesis by simp
  next
    case False
    then have "map_of (mp_tx_store (fst st')) \<subseteq>\<^sub>m map_of (mp_tx_store (fst st1))"
      using "2.IH" [OF l] l "2.prems" by (cases st1) simp
    with first show ?thesis by (blast intro: map_le_trans)
  qed
qed simp

text \<open>The calls of the node on its pool other than insertion.\<close>

fun node_work :: "('pk, 'zk, 'dna) pool_op \<Rightarrow> ('pk, 'zk, 'dna) mempool \<Rightarrow> ('pk, 'zk, 'dna) mempool" where
  "node_work (PoolInsert now tx tick) s = s"
| "node_work op s = pool_step op s"

lemma node_work_shrinks: "map_of (mp_tx_store (node_work op s)) \<subseteq>\<^sub>m map_of (mp_tx_store s)"
proof (cases op)
  case (PoolBuild mt mb)
  then show ?thesis
    using buckets_loop_shrinks [of mt mb "rev [0..<FEE_BUCKETS]" "(s, 0, [])"]
    by (auto simp: build_block_def refresh_stats_def split: option.splits)
next
  case (PoolRemove hs)
  then show ?thesis
    by (simp add: remove_transactions_def refresh_stats_def fold_shrinks remove_one_shrinks)
next
  case (PoolEvict now)
  then show ?thesis
    by (simp add: evict_stale_def refresh_stats_def Let_def fold_shrinks evict_one_shrinks)
next
  case (PoolFloor c)
  then show ?thesis by (simp add: adjust_fee_floor_def Let_def)
qed simp

interpretation gateway: tx_pool mempool_insert node_work tx_hash "\<lambda>s. map_of (mp_tx_store s)"
  pool_len pool_inv MAX_MEMPOOL_TX
proof unfold_locales
  fix s :: "('a, 'b, 'c) mempool" and now tx tick op
  show "pool_inv s \<Longrightarrow> pool_inv (fst (mempool_insert now tx tick s))" by (rule insert_inv)
  show "pool_inv s \<Longrightarrow> pool_inv (node_work op s)"
    using pool.step_inv [of s op] by (cases op) simp_all
  show "snd (mempool_insert now tx tick s) \<Longrightarrow>
      map_of (mp_tx_store (fst (mempool_insert now tx tick s))) = (map_of (mp_tx_store s))(tx_hash tx \<mapsto> tx)"
    by (auto simp: mempool_insert_def refresh_stats_def Let_def update_conv' split: if_splits)
  show "\<not> snd (mempool_insert now tx tick s) \<Longrightarrow>
      map_of (mp_tx_store (fst (mempool_insert now tx tick s))) = map_of (mp_tx_store s)"
    by (auto simp: mempool_insert_def Let_def split: if_splits)
  show "map_of (mp_tx_store (node_work op s)) \<subseteq>\<^sub>m map_of (mp_tx_store s)" by (rule node_work_shrinks)
  show "pool_inv s \<Longrightarrow> pool_len s \<le> MAX_MEMPOOL_TX" by (simp add: pool_inv_def pool_len_def)
qed

section \<open>The node behind the gateway\<close>

text \<open>Requests and the node's own work on the pool, interleaved in any order.\<close>

datatype ('pk, 'zk, 'dna) app_op =
    AppRequest "nat \<times> u64 option \<times> http_request"
  | AppWork "('pk, 'zk, 'dna) pool_op"

fun app_step ::
  "'pk crypto_api \<Rightarrow> ('pk, 'zk, 'dna, 'ch, 'lc) http_api \<Rightarrow> ('pk, 'zk, 'dna) app_op
   \<Rightarrow> ('pk, 'zk, 'dna, 'ch, 'lc) app_state \<Rightarrow> ('pk, 'zk, 'dna, 'ch, 'lc) app_state" where
  "app_step C A (AppRequest req) s = snd (http_dispatch C A req s)"
| "app_step C A (AppWork op) s = s\<lparr>as_mempool := node_work op (as_mempool s)\<rparr>"

definition tx_checked :: "'pk crypto_api \<Rightarrow> ('pk, 'zk, 'dna) transaction \<Rightarrow> bool" where
  "tx_checked C tx \<longleftrightarrow> recompute_hash C tx = tx_hash tx
     \<and> (is_coinbase tx \<or> is_heartbeat tx \<or> tx_inputs tx \<noteq> [])"

definition app_inv :: "'pk crypto_api \<Rightarrow> node_config \<Rightarrow> ('pk, 'zk, 'dna, 'ch, 'lc) app_state \<Rightarrow> bool" where
  "app_inv C cfg s \<longleftrightarrow> pool_inv (as_mempool s) \<and> as_config s = cfg
     \<and> (\<forall>h tx. map_of (mp_tx_store (as_mempool s)) h = Some tx \<longrightarrow> tx_hash tx = h \<and> tx_checked C tx)"

text \<open>The transaction a body asks to submit, and the time handed to the pool.\<close>

definition submitted_tx :: "('pk, 'zk, 'dna, 'ch, 'lc) http_api \<Rightarrow> json \<Rightarrow> ('pk, 'zk, 'dna) transaction option" where
  "submitted_tx A body =
     Option.bind (Option.bind (Option.bind (json_get ''tx'' body) json_as_str) (hex_decode A)) (tx_deserialize A)"

definition wall_secs :: "u64 option \<Rightarrow> u64" where
  "wall_secs wall = (case wall of Some t \<Rightarrow> t | None \<Rightarrow> 0)"

lemma json_error_eq [simp]: "json_error a = json_error b \<longleftrightarrow> a = b"
  by (simp add: json_error_def)

lemma submit_unparsed:
  assumes "submitted_tx A body = None"
  shows "\<exists>e. http_submit_tx C A now wall body s = ((HttpBadRequest, json_error e), s)"
proof (cases "Option.bind (json_get ''tx'' body) json_as_str")
  case (Some hx)
  show ?thesis
  proof (cases "hex_decode A hx")
    case (Some bs)
    with assms \<open>Option.bind _ _ = Some hx\<close> have "tx_deserialize A bs = None"
      by (simp add: submitted_tx_def)
    with Some \<open>Option.bind _ _ = Some hx\<close> show ?thesis by (simp add: http_submit_tx_unfold)
  qed (simp add: http_submit_tx_unfold Some)
qed (simp add: http_submit_tx_unfold)

definition submit_parsed ::
  "'pk crypto_api \<Rightarrow> ('pk, 'zk, 'dna, 'ch, 'lc) app_state \<Rightarrow> ('pk, 'zk, 'dna) transaction \<Rightarrow> http_status option" where
  "submit_parsed C s tx =
     (if \<not> tx_checked C tx then Some HttpBadRequest
      else if nc_mempool_max_tx (as_config s) < pool_len (as_mempool s) then Some HttpTooManyRequests
      else None)"

lemma submit_refused:
  assumes "submitted_tx A body = Some tx" and "submit_parsed C s tx = Some st"
  shows "\<exists>e. http_submit_tx C A now wall body s = ((st, json_error e), s)"
  using assms
  by (auto simp: submitted_tx_def bind_eq_Some_conv http_submit_tx_unfold submit_parsed_def tx_checked_def
      split: if_splits)

lemma submit_tried:
  assumes "submitted_tx A body = Some tx" and "submit_parsed C s tx = None"
    and "mempool_insert now tx (wall_secs wall) (as_mempool s) = (pool, accepted)"
  shows "\<exists>j. http_submit_tx C A now wall body s =
    ((if accepted then HttpOk else HttpBadRequest, j),
     s\<lparr>as_mempool := pool, as_metrics := (as_metrics s)\<lparr>nm_mempool_size := of_nat (pool_len pool)\<rparr>\<rparr>)"
  using assms
  by (auto simp: submitted_tx_def bind_eq_Some_conv http_submit_tx_unfold submit_parsed_def tx_checked_def
      wall_secs_def Let_def split: if_splits)

lemma submit_cases:
  fixes s :: "('pk, 'zk, 'dna, 'ch, 'lc) app_state"
  obtains (unparsed) e where "submitted_tx A body = None"
      and "http_submit_tx C A now wall body s = ((HttpBadRequest, json_error e), s)"
  | (refused) tx st e where "submitted_tx A body = Some tx" and "submit_parsed C s tx = Some st"
      and "http_submit_tx C A now wall body s = ((st, json_error e), s)"
  | (tried) tx pool accepted j where "submitted_tx A body = Some tx" and "submit_parsed C s tx = None"
      and "mempool_insert now tx (wall_secs wall) (as_mempool s) = (pool, accepted)"
      and "http_submit_tx C A now wall body s =
             ((if accepted then HttpOk else HttpBadRequest, j),
              s\<lparr>as_mempool := pool, as_metrics := (as_metrics s)\<lparr>nm_mempool_size := of_nat (pool_len pool)\<rparr>\<rparr>)"
proof (cases "submitted_tx A body")
  case None
  with submit_unparsed unparsed show thesis by blast
next
  case (Some tx)
  show thesis
  proof (cases "submit_parsed C s tx")
    case None
    obtain pool accepted where "mempool_insert now tx (wall_secs wall) (as_mempool s) = (pool, accepted)"
      by (metis surj_pair)
    with submit_tried [OF Some None] tried [OF Some None] show thesis by blast
  next
    case (Some st)
    with submit_refused [OF \<open>submitted_tx A body = Some tx\<close>] refused [OF \<open>submitted_tx A body = Some tx\<close>]
    show thesis by blast
  qed
qed

lemma app_inv_insert:
  assumes "app_inv C cfg s" and "tx_checked C tx"
    and "mempool_insert now tx tick (as_mempool s) = (pool, accepted)"
  shows "app_inv C cfg (s\<lparr>as_mempool := pool\<rparr>)"
proof -
  have good: "\<forall>h t. map_of (mp_tx_store (as_mempool s)) h = Some t \<longrightarrow> tx_hash t = h \<and> tx_checked C t"
    using assms(1) by (simp add: app_inv_def)
  have "pool_inv pool"
    using gateway.ins_ok [of "as_mempool s" now tx tick] assms by (simp add: app_inv_def)
  moreover have "tx_hash t = h \<and> tx_checked C t" if "map_of (mp_tx_store pool) h = Some t" for h t
    using gateway.ins_keeps [of "as_mempool s" "\<lambda>h t. tx_hash t = h \<and> tx_checked C t" tx now tick h t]
      good assms(2,3) that by simp
  ultimately show ?thesis using assms(1) by (simp add: app_inv_def)
qed

lemma app_inv_metrics [simp]: "app_inv C cfg (s\<lparr>as_metrics := m\<rparr>) = app_inv C cfg s"
  by (simp add: app_inv_def)

lemma app_inv_submit:
  fixes s :: "('pk, 'zk, 'dna, 'ch, 'lc) app_state"
  assumes "app_inv C cfg s"
  shows "app_inv C cfg (snd (http_submit_tx C A now wall body s))"
proof (cases rule: submit_cases [of A body C now wall s])
  case (tried tx pool accepted j)
  have "tx_checked C tx" using tried(2) by (auto simp: submit_parsed_def split: if_splits)
  from app_inv_insert [OF assms this tried(3)] tried(4) show ?thesis by simp
qed (use assms in simp_all)

lemma app_inv_work:
  assumes "app_inv C cfg s"
  shows "app_inv C cfg (s\<lparr>as_mempool := node_work op (as_mempool s)\<rparr>)"
proof -
  from assms have inv: "pool_inv (as_mempool s)" and cfg: "as_config s = cfg"
    and good: "\<forall>h t. map_of (mp_tx_store (as_mempool s)) h = Some t \<longrightarrow> tx_hash t = h \<and> tx_checked C t"
    by (auto simp: app_inv_def)
  from inv have "pool_inv (node_work op (as_mempool s))" by (rule gateway.work_ok)
  moreover have "tx_hash t = h \<and> tx_checked C t" if "map_of (mp_tx_store (node_work op (as_mempool s))) h = Some t" for h t
    using good that by (rule gateway.work_keeps)
  ultimately show ?thesis using cfg by (simp add: app_inv_def)
qed

lemma app_inv_step: "app_inv C cfg s \<Longrightarrow> app_inv C cfg (app_step C A x s)"
proof (cases x)
  case (AppRequest req)
  obtain now wall r where "req = (now, wall, r)" by (cases req)
  with AppRequest show "app_inv C cfg s \<Longrightarrow> ?thesis" by (cases r) (simp_all add: app_inv_submit)
qed (simp add: app_inv_work)

lemma app_inv_run_server: "app_inv C cfg (snd (run_server m ch mempool_new cfg sd lc))"
  by (simp add: app_inv_def run_server_def pool_inv_new) (simp add: mempool_new_def)

interpretation app: step_system "snd (run_server m ch mempool_new cfg sd lc)" "app_step C A" "app_inv C cfg"
  for m ch cfg sd lc C A
  by unfold_locales (simp_all add: app_inv_run_server app_inv_step)

section \<open>Properties\<close>

text \<open>From a new pool, after any interleaving of requests with the node's own block builds, removals,
  evictions and fee-floor changes: every pooled transaction has the hash it is stored under, recomputed
  from its content, and has inputs unless it is a coinbase or a heartbeat; no two spend the same
  nullifier; and with a configured limit of at least 50000 (the default) a submission never gets the reply
  429, because the pool refuses the transaction itself before the guard can hold.\<close>

theorem http_pool_sound:
  assumes "s = fold (app_step C A) ops (snd (run_server m ch mempool_new cfg sd lc))"
  shows "(map_of (mp_tx_store (as_mempool s)) h = Some tx \<longrightarrow>
            recompute_hash C tx = h \<and> (is_coinbase tx \<or> is_heartbeat tx \<or> tx_inputs tx \<noteq> []))
    \<and> (map_of (mp_tx_store (as_mempool s)) h = Some tx \<and> map_of (mp_tx_store (as_mempool s)) h' = Some tx'
        \<and> n \<in> set (tx_nullifiers tx) \<and> n \<in> set (tx_nullifiers tx') \<longrightarrow> h = h')
    \<and> (50000 \<le> nc_mempool_max_tx cfg \<longrightarrow>
        fst (fst (http_submit_tx C A now wall body s)) \<noteq> HttpTooManyRequests)"
proof (intro conjI impI)
  have inv: "app_inv C cfg s" unfolding assms by (rule app.run_init_inv)
  then have pool: "pool_inv (as_mempool s)" by (simp add: app_inv_def)
  show "recompute_hash C tx = h" "is_coinbase tx \<or> is_heartbeat tx \<or> tx_inputs tx \<noteq> []"
    if "map_of (mp_tx_store (as_mempool s)) h = Some tx"
    using inv that by (auto simp: app_inv_def tx_checked_def)
  show "h = h'" if "map_of (mp_tx_store (as_mempool s)) h = Some tx \<and> map_of (mp_tx_store (as_mempool s)) h' = Some tx'
        \<and> n \<in> set (tx_nullifiers tx) \<and> n \<in> set (tx_nullifiers tx')"
  proof -
    from pool have nulls: "map_of (mp_nullifiers (as_mempool s)) n = Some g \<longleftrightarrow>
        (\<exists>t. map_of (mp_tx_store (as_mempool s)) g = Some t \<and> n \<in> set (tx_nullifiers t))" for g
      by (simp add: pool_inv_def pool_links_def)
    from nulls [of h] nulls [of h'] that show ?thesis by auto
  qed
  show "fst (fst (http_submit_tx C A now wall body s)) \<noteq> HttpTooManyRequests" if "50000 \<le> nc_mempool_max_tx cfg"
  proof (cases rule: submit_cases [of A body C now wall s])
    case (refused tx st e)
    have "\<not> nc_mempool_max_tx (as_config s) < pool_len (as_mempool s)"
      by (rule gateway.guard_dead [OF pool]) (use inv that in \<open>simp add: app_inv_def MAX_MEMPOOL_TX_def\<close>)
    with refused(2,3) show ?thesis by (auto simp: submit_parsed_def split: if_splits)
  qed auto
qed

text \<open>A submission is answered with success exactly when the body carries a transaction that parses,
  whose hash is right, that has inputs where it needs them, that finds the pool within the configured
  limit and that the pool accepts; then it is stored under its hash. In every other case the stored
  transactions stay as they were, and the chain and the configuration stay in all cases. Once the pool
  was tried, the gauge shows its size.\<close>

theorem http_submit_outcome:
  assumes "http_submit_tx C A now wall body s = (r, s')"
  shows "(fst r = HttpOk \<longleftrightarrow>
      (\<exists>tx. submitted_tx A body = Some tx \<and> tx_checked C tx
        \<and> pool_len (as_mempool s) \<le> nc_mempool_max_tx (as_config s)
        \<and> snd (mempool_insert now tx (wall_secs wall) (as_mempool s))
        \<and> map_of (mp_tx_store (as_mempool s')) = (map_of (mp_tx_store (as_mempool s)))(tx_hash tx \<mapsto> tx)
        \<and> nm_mempool_size (as_metrics s') = of_nat (pool_len (as_mempool s'))))
    \<and> (fst r \<noteq> HttpOk \<longrightarrow> map_of (mp_tx_store (as_mempool s')) = map_of (mp_tx_store (as_mempool s)))
    \<and> as_chain s' = as_chain s \<and> as_config s' = as_config s"
proof (cases rule: submit_cases [of A body C now wall s])
  case (unparsed e)
  then show ?thesis using assms by auto
next
  case (refused tx st e)
  then show ?thesis using assms by (auto simp: submit_parsed_def split: if_splits)
next
  case (tried tx pool accepted j)
  have "accepted \<Longrightarrow> map_of (mp_tx_store pool) = (map_of (mp_tx_store (as_mempool s)))(tx_hash tx \<mapsto> tx)"
    "\<not> accepted \<Longrightarrow> map_of (mp_tx_store pool) = map_of (mp_tx_store (as_mempool s))"
    using gateway.ins_accepted [of now tx "wall_secs wall" "as_mempool s"]
      gateway.ins_refused [of now tx "wall_secs wall" "as_mempool s"] tried(3) by simp_all
  with tried assms show ?thesis by (auto simp: submit_parsed_def not_less split: if_splits)
qed

text \<open>The gateway lets heartbeats and coinbases pass without inputs, but the transactions that the
  constructors of the core build have no fee, and the fee floor of the pool is at least one: no state of
  the node accepts one of them.\<close>

theorem http_refuses_heartbeats:
  assumes "s = fold (app_step C A) ops (snd (run_server m ch mempool_new cfg sd lc))"
    and "submitted_tx A body = Some (new_heartbeat C ws cid) \<or> submitted_tx A body = Some (tx_new_coinbase C outs poh cid)"
  shows "fst (fst (http_submit_tx C A now wall body s)) \<noteq> HttpOk"
proof (cases rule: submit_cases [of A body C now wall s])
  case (tried tx pool accepted j)
  have "app_inv C cfg s" unfolding assms(1) by (rule app.run_init_inv)
  then have "1 \<le> mp_min_fee_watermark (as_mempool s)"
    by (simp add: app_inv_def pool_inv_def MIN_FEE_def)
  moreover have "tx_fee tx = 0"
    using tried(1) assms(2) by (auto simp: new_heartbeat_def tx_new_coinbase_def tx_compute_hash_def)
  ultimately have "\<not> accepted"
    using insert_True(1) [of now tx "wall_secs wall" "as_mempool s"] tried(3) by (auto simp: word_le_nat_alt)
  with tried(4) show ?thesis by simp
qed (auto simp: submit_parsed_def split: if_splits)

section \<open>A sample node\<close>

definition sample_http_tx :: "(u8, unit, unit) transaction" where
  "sample_http_tx = tx_compute_hash sample_crypto sample_pool_tx"

definition sample_api :: "(u8, unit, unit, unit, unit) http_api" where
  "sample_api =
     \<lparr>canonical_tip = \<lambda>_. None, get_block = \<lambda>_ _. None, get_block_by_hash = \<lambda>_ _. None,
      lc_as_str = \<lambda>_. ''ready'', lc_is_ready_for_clients = \<lambda>_. True, lc_can_mine = \<lambda>_. True,
      hex_decode = \<lambda>h. if h = [] then None else Some (ascii h), hex_encode = \<lambda>_. ''hash'',
      tx_deserialize = \<lambda>bs. Some (if length bs = 1 then sample_http_tx else new_heartbeat sample_crypto [] 2)\<rparr>"

definition sample_node :: "(u8, unit, unit, unit, unit) app_state" where
  "sample_node = snd (run_server (metrics_new 0) () mempool_new (default_node_config None) False ())"

abbreviation sample_body :: "string \<Rightarrow> json" where
  "sample_body h \<equiv> JObject [(''tx'', JString h)]"

abbreviation sample_submit :: "string \<Rightarrow> (u8, unit, unit) app_op" where
  "sample_submit h \<equiv> AppRequest (0, Some 5, PostTx (sample_body h))"

lemma sample_http_tx_fields:
  "tx_fee sample_http_tx = 5" "tx_checked sample_crypto sample_http_tx"
  "tx_nullifiers sample_http_tx = [[7]]" "estimated_size sample_http_tx = 267"
  by (simp_all add: sample_http_tx_def tx_compute_hash_def sample_pool_tx_def tx_new_raw_def tx_checked_def
      recompute_hash_def tx_preimage_def tx_nullifiers_def estimated_size_def usize_sat_mul_def
      usize_sat_add_def USIZE_MAX_def)

lemma sample_submitted:
  "submitted_tx sample_api (sample_body ''a'') = Some sample_http_tx"
  "submitted_tx sample_api (sample_body ''hb'') = Some (new_heartbeat sample_crypto [] 2)"
  by (simp_all add: submitted_tx_def sample_api_def)

lemma sample_insert_accepted: "snd (mempool_insert 0 sample_http_tx 5 (mempool_new :: (u8, unit, unit) mempool))"
  by (simp add: mempool_insert_def mempool_new_def sample_http_tx_fields MIN_FEE_def MAX_MEMPOOL_TX_def
      MAX_MEMPOOL_BYTES_def Let_def)

lemma sample_submit_accepted:
  "fst (fst (http_submit_tx sample_crypto sample_api 0 (Some 5) (sample_body ''a'') sample_node)) = HttpOk"
  "map_of (mp_tx_store (as_mempool (app_step sample_crypto sample_api (sample_submit ''a'') sample_node)))
     (tx_hash sample_http_tx) = Some sample_http_tx"
proof -
  have start: "as_mempool sample_node = mempool_new" by (simp add: sample_node_def run_server_def)
  obtain pool acc where "mempool_insert 0 sample_http_tx 5 (as_mempool sample_node) = (pool, acc)"
    by (metis surj_pair)
  with sample_insert_accepted start
  have ins: "mempool_insert 0 sample_http_tx (wall_secs (Some 5)) (as_mempool sample_node) = (pool, True)"
    by (simp add: wall_secs_def)
  have "submit_parsed sample_crypto sample_node sample_http_tx = None"
    by (simp add: submit_parsed_def sample_http_tx_fields sample_node_def run_server_def pool_len_def mempool_new_def)
  from submit_tried [OF sample_submitted(1) this ins] obtain j
    where sub: "http_submit_tx sample_crypto sample_api 0 (Some 5) (sample_body ''a'') sample_node =
      ((HttpOk, j), sample_node\<lparr>as_mempool := pool,
         as_metrics := (as_metrics sample_node)\<lparr>nm_mempool_size := of_nat (pool_len pool)\<rparr>\<rparr>)"
    by auto
  then show "fst (fst (http_submit_tx sample_crypto sample_api 0 (Some 5) (sample_body ''a'') sample_node)) = HttpOk"
    by simp
  have "map_of (mp_tx_store pool) (tx_hash sample_http_tx) = Some sample_http_tx"
    using gateway.ins_accepted [of 0 sample_http_tx "wall_secs (Some 5)" "as_mempool sample_node"] ins by simp
  with sub show "map_of (mp_tx_store (as_mempool (app_step sample_crypto sample_api (sample_submit ''a'') sample_node)))
     (tx_hash sample_http_tx) = Some sample_http_tx"
    by simp
qed

theorem http_pool_sound_witness:
  "recompute_hash sample_crypto sample_http_tx = tx_hash sample_http_tx \<and>
   fst (fst (http_submit_tx sample_crypto sample_api 1 None (sample_body ''a'')
     (app_step sample_crypto sample_api (sample_submit ''a'') sample_node))) \<noteq> HttpTooManyRequests"
proof -
  have "app_step sample_crypto sample_api (sample_submit ''a'') sample_node =
      fold (app_step sample_crypto sample_api) [sample_submit ''a'']
        (snd (run_server (metrics_new 0) () mempool_new (default_node_config None) False ()))"
    by (simp add: sample_node_def)
  moreover have "50000 \<le> nc_mempool_max_tx (default_node_config None)"
    by (simp add: default_node_config_def)
  ultimately show ?thesis
    using http_pool_sound [of "app_step sample_crypto sample_api (sample_submit ''a'') sample_node"
        sample_crypto sample_api "[sample_submit ''a'']" "metrics_new 0" "()" "default_node_config None" False "()"
        "tx_hash sample_http_tx" sample_http_tx] sample_submit_accepted(2)
    by blast
qed

theorem http_submit_outcome_witness:
  "map_of (mp_tx_store (as_mempool (snd (http_submit_tx sample_crypto sample_api 0 (Some 5) (sample_body ''a'') sample_node)))) =
     (map_of (mp_tx_store (as_mempool sample_node)))(tx_hash sample_http_tx \<mapsto> sample_http_tx)"
proof -
  let ?o = "http_submit_tx sample_crypto sample_api 0 (Some 5) (sample_body ''a'') sample_node"
  have "?o = (fst ?o, snd ?o)" by simp
  from http_submit_outcome [OF this] sample_submit_accepted(1) show ?thesis by (auto simp: sample_submitted)
qed

theorem http_refuses_heartbeats_witness:
  "fst (fst (http_submit_tx sample_crypto sample_api 0 (Some 5) (sample_body ''hb'') sample_node)) \<noteq> HttpOk"
  by (rule http_refuses_heartbeats [where ops = "[]" and m = "metrics_new 0" and ch = "()" and sd = False
        and lc = "()" and cfg = "default_node_config None" and ws = "[]" and cid = 2])
    (simp_all add: sample_node_def sample_submitted)

end
