(* ===== verification/Block_Production.thy ===== *)
theory Block_Production
  imports Http_Server Economics
begin

text \<open>
  How a block is produced: the node takes transactions from the pool (\<open>mempool.rs\<close>, \<open>build_block\<close>), puts
  a heartbeat and a coinbase in front, builds the block from the candidate (\<open>block.rs\<close>,
  \<open>from_candidate\<close>), and \<open>validate_internal\<close> is the check of such a block. Nothing in the repository calls
  \<open>validate_internal\<close>: decoding (\<open>wire.rs\<close>) and application (\<open>chain_state.rs\<close>) do not. No new code is
  modelled here; the lemmas compose the components.

  The lemmas: whatever a call of \<open>build_block\<close> returns, its transactions are pooled ones, none twice, and
  no two of them spend the same nullifier. So the check accepts the block exactly when each transaction is
  valid on its own. It never accepts a block with the coinbase of \<open>economics.rs\<close>, because that coinbase is not
  of the coinbase type.
\<close>

section \<open>What \<open>build_block\<close> returns\<close>

text \<open>The state of the loop, whether or not it ends: the transactions taken so far left the pool.\<close>

definition built :: "('pk, 'zk, 'dna) mempool \<Rightarrow> ('pk, 'zk, 'dna) build_state \<Rightarrow> bool" where
  "built s0 st \<longleftrightarrow> (case st of (s, bytes, out) \<Rightarrow>
     pool_inv s \<and> distinct (map tx_hash out)
     \<and> (\<forall>tx \<in> set out. map_of (mp_tx_store s0) (tx_hash tx) = Some tx)
     \<and> (\<forall>h. map_of (mp_tx_store s) h = (if h \<in> tx_hash ` set out then None else map_of (mp_tx_store s0) h)))"

lemma built_take:
  assumes bld: "built s0 (s, bytes, out)" and b: "b < FEE_BUCKETS" and front: "mp_buckets s ! b = r # rest"
    and idx: "map_of (mp_index s) (ref_hash r) \<noteq> None"
  shows "built s0 (take_tx r (s\<lparr>mp_buckets := (mp_buckets s)[b := rest]\<rparr>, bytes, out))"
proof -
  have inv: "pool_inv s" using bld by (simp add: built_def)
  obtain tx where tx: "map_of (mp_tx_store s) (ref_hash r) = Some tx"
    and eq: "take_tx r (s\<lparr>mp_buckets := (mp_buckets s)[b := rest]\<rparr>, bytes, out) =
      (s\<lparr>mp_buckets := (mp_buckets s)[b := rest], mp_tx_store := AList.delete (ref_hash r) (mp_tx_store s),
          mp_index := AList.delete (ref_hash r) (mp_index s),
          mp_nullifiers := forget_nullifiers tx (mp_nullifiers s),
          mp_total_bytes := mp_total_bytes s - unat (ref_size r),
          mp_stats := (mp_stats s)\<lparr>ms_txs_included := ms_txs_included (mp_stats s) + 1\<rparr>\<rparr>,
       bytes + unat (ref_size r), out @ [tx])"
    by (rule pop_take_eq [OF inv idx])
  have h: "tx_hash tx = ref_hash r" using inv tx by (simp add: pool_inv_def pool_links_def)
  have fresh: "ref_hash r \<notin> tx_hash ` set out" and old: "map_of (mp_tx_store s0) (ref_hash r) = Some tx"
    using bld tx by (auto simp: built_def split: if_splits)
  have "pool_inv (fst (take_tx r (s\<lparr>mp_buckets := (mp_buckets s)[b := rest]\<rparr>, bytes, out)))"
    by (rule pop_take_inv [OF inv b front idx])
  with bld h fresh old show ?thesis
    unfolding built_def eq by (auto simp: AList.delete_conv')
qed

lemma bucket_loop_built:
  assumes "bucket_loop mt mb b st = Some res"
  shows "b < FEE_BUCKETS \<longrightarrow> built s0 st \<longrightarrow> built s0 (snd res)"
proof (rule bucket_loop.raw_induct [where P = "\<lambda>mt mb b st res. b < FEE_BUCKETS \<longrightarrow> built s0 st \<longrightarrow> built s0 (snd res)",
      OF _ assms], goal_cases)
  case (1 loop mt mb b st res)
  show ?case
  proof (intro impI)
    assume b: "b < FEE_BUCKETS" and bld: "built s0 st"
    obtain s bytes out where st: "st = (s, bytes, out)" by (cases st)
    have IH: "loop mt mb b st' = Some res \<Longrightarrow> built s0 st' \<Longrightarrow> built s0 (snd res)" for st'
      using "1"(1) b by blast
    show "built s0 (snd res)"
    proof (cases "mp_buckets s ! b")
      case Nil
      with "1"(2) st bld show ?thesis by auto
    next
      case (Cons r rest)
      show ?thesis
      proof (cases "map_of (mp_index s) (ref_hash r) = None")
        case True
        with "1"(2) Cons st have l: "loop mt mb b (s\<lparr>mp_buckets := (mp_buckets s)[b := rest]\<rparr>, bytes, out) = Some res"
          by simp
        have "pool_inv (s\<lparr>mp_buckets := (mp_buckets s)[b := rest]\<rparr>)"
          by (rule pop_ghost_inv [OF _ b Cons True]) (use bld st in \<open>simp add: built_def\<close>)
        with bld st have "built s0 (s\<lparr>mp_buckets := (mp_buckets s)[b := rest]\<rparr>, bytes, out)"
          by (simp add: built_def)
        with IH [OF l] show ?thesis by blast
      next
        case False
        obtain s' bytes' out' where t: "take_tx r (s\<lparr>mp_buckets := (mp_buckets s)[b := rest]\<rparr>, bytes, out) = (s', bytes', out')"
          by (metis prod_cases3)
        have "built s0 (s', bytes', out')" using built_take [OF _ b Cons False, of s0 bytes out] bld st t by simp
        moreover have "s\<lparr>mp_buckets := (mp_buckets s)[b := r # rest]\<rparr> = s"
          unfolding Cons [symmetric] by simp
        ultimately show ?thesis
          using "1"(2) Cons st False t bld by (auto split: if_splits dest!: IH)
      qed
    qed
  qed
qed

lemma buckets_loop_built:
  "buckets_loop mt mb bs st = Some st' \<Longrightarrow> \<forall>b \<in> set bs. b < FEE_BUCKETS \<Longrightarrow> built s0 st \<Longrightarrow> built s0 st'"
proof (induction mt mb bs st rule: buckets_loop.induct)
  case (2 mt mb b bs st)
  from "2.prems"(1) obtain fl st1 where l: "bucket_loop mt mb b st = Some (fl, st1)"
    by (auto split: option.splits)
  have "built s0 st1" using bucket_loop_built [OF l] "2.prems" by simp
  with l 2 show ?case by (cases fl) auto
qed simp

lemma build_block_built:
  assumes "pool_inv s" and "build_block mt mb s = Some (s', out)"
  shows "distinct (map tx_hash out)"
    and "tx \<in> set out \<Longrightarrow> map_of (mp_tx_store s) (tx_hash tx) = Some tx"
    and "map_of (mp_tx_store s') h = (if h \<in> tx_hash ` set out then None else map_of (mp_tx_store s) h)"
proof -
  from assms(2) obtain s1 bytes where l: "buckets_loop mt mb (rev [0..<FEE_BUCKETS]) (s, 0, []) = Some (s1, bytes, out)"
    and s': "mp_tx_store s' = mp_tx_store s1"
    by (auto simp: build_block_def refresh_stats_def split: option.splits)
  have "built s (s1, bytes, out)"
    by (rule buckets_loop_built [OF l]) (use assms(1) in \<open>auto simp: built_def\<close>)
  then show "distinct (map tx_hash out)"
    and "tx \<in> set out \<Longrightarrow> map_of (mp_tx_store s) (tx_hash tx) = Some tx"
    and "map_of (mp_tx_store s') h = (if h \<in> tx_hash ` set out then None else map_of (mp_tx_store s) h)"
    by (simp_all add: built_def s')
qed

section \<open>Nullifiers of a built block\<close>

lemma distinct_concat_map_iff:
  assumes "distinct (map k xs)"
    and "\<And>x y n. x \<in> set xs \<Longrightarrow> y \<in> set xs \<Longrightarrow> n \<in> set (f x) \<Longrightarrow> n \<in> set (f y) \<Longrightarrow> k x = k y"
  shows "distinct (concat (map f xs)) \<longleftrightarrow> list_all (\<lambda>x. distinct (f x)) xs"
  using assms
proof (induction xs)
  case (Cons x xs)
  have IH: "distinct (concat (map f xs)) \<longleftrightarrow> list_all (\<lambda>x. distinct (f x)) xs"
    by (rule Cons.IH) (use Cons.prems in auto)
  have "set (f x) \<inter> set (concat (map f xs)) = {}"
  proof (rule equals0I)
    fix n assume "n \<in> set (f x) \<inter> set (concat (map f xs))"
    then obtain y where y: "y \<in> set xs" "n \<in> set (f y)" "n \<in> set (f x)" by auto
    then have "k x = k y" using Cons.prems(2) [of x y n] by simp
    with y(1) Cons.prems(1) show False by auto
  qed
  with IH show ?case by simp
qed simp

text \<open>A transaction that is valid alone: an ordinary one that passes the checks of the block, with nullifiers
  that differ from each other and from zero.\<close>

definition valid_alone :: "('pk, 'zk, 'dna) block \<Rightarrow> ('pk, 'zk, 'dna) transaction \<Rightarrow> bool" where
  "valid_alone b tx \<longleftrightarrow> is_ordinary tx \<and> ordinary_ok b tx
     \<and> distinct (tx_nullifiers tx) \<and> zero_hash \<notin> set (tx_nullifiers tx)"

lemma produced_nullifiers:
  assumes "pool_inv s" and "build_block mt mb s = Some (s', out)" and "list_all is_ordinary out"
  shows "distinct (spent_nullifiers out) \<longleftrightarrow> list_all (\<lambda>tx. distinct (tx_nullifiers tx)) out"
proof -
  have "spent_nullifiers out = concat (map tx_nullifiers out)"
    using assms(3) by (simp add: spent_nullifiers_def tx_nullifiers_def list_all_iff cong: map_cong)
  moreover have "distinct (concat (map tx_nullifiers out)) \<longleftrightarrow> list_all (\<lambda>tx. distinct (tx_nullifiers tx)) out"
    by (rule distinct_concat_map_iff [where k = tx_hash])
       (use build_block_built [OF assms(1,2)] pooled_nullifiers_disjoint [OF assms(1)] in blast)+
  ultimately show ?thesis by simp
qed

text \<open>C5. A block is assembled from a heartbeat, a coinbase and whatever \<open>build_block\<close> took from a pool that was
  filled and drained by any sequence of calls. Then \<open>validate_internal\<close> accepts it exactly when it is not the
  genesis block, its ticks are ordered, it has at most 32767 transactions, and each transaction taken from
  the pool is valid alone: it is neither a heartbeat nor a coinbase, lies inside the ticks of the block, is
  past its locktime, has a fee or outputs, outputs that add up to less than 2 to the power of 64, and
  nullifiers that are different from each other and from zero. No condition between two transactions of the
  pool is left. The built transactions are no longer in the pool.\<close>

theorem pool_block_valid:
  assumes "s = fold pool_step ops mempool_new" and "build_block max_tx max_bytes s = Some (s', out)"
    and "from_candidate C cand pv = Ok b" and "cand_transactions cand = hb # cb # out"
    and "is_heartbeat hb" and "is_coinbase cb"
  shows "(validate_internal C b = Ok () \<longleftrightarrow>
      \<not> block_is_genesis b \<and> cand_poh_tick_start cand \<le> cand_poh_tick_end cand
      \<and> length out + 2 \<le> 32767 \<and> list_all (valid_alone b) out)
    \<and> list_all (\<lambda>tx. \<not> pool_contains (tx_hash tx) s') out"
proof
  have inv: "pool_inv s" unfolding assms(1) by (rule pool.run_init_inv)
  have inv': "pool_inv s'" by (rule build_block_inv [OF inv assms(2)])
  have txs: "blk_transactions b = hb # cb # out" using from_candidate_Ok(2) [OF assms(3)] assms(4) by simp
  have kinds: "\<not> is_coinbase hb" "\<not> is_heartbeat cb" "\<not> is_ordinary hb" "\<not> is_ordinary cb"
    using assms(5,6) by (auto simp: is_heartbeat_def is_coinbase_def is_ordinary_def)
  have spent: "spent_nullifiers (hb # cb # out) = spent_nullifiers out"
    by (simp add: kinds spent_nullifiers_def)
  have none: "length (filter is_coinbase out) = 0 \<longleftrightarrow> (\<forall>tx \<in> set out. \<not> is_coinbase tx)"
    by (simp add: filter_empty_conv)
  have body: "block_body_ok b \<longleftrightarrow> list_all (valid_alone b) out \<and> \<not> block_is_genesis b"
  proof (cases "list_all is_ordinary out")
    case True
    have "set (spent_nullifiers out) = (\<Union>tx \<in> set out. set (tx_nullifiers tx))"
      using True by (auto simp: spent_nullifiers_def tx_nullifiers_def list_all_iff)
    then show ?thesis
      unfolding block_body_ok_def txs spent produced_nullifiers [OF inv assms(2) True]
      using True kinds assms(5,6) none
      by (auto simp: list_all_iff valid_alone_def is_ordinary_def)
  next
    case False
    then have "\<exists>tx \<in> set out. is_heartbeat tx \<or> is_coinbase tx" by (auto simp: list_all_iff is_ordinary_def)
    with False show ?thesis
      unfolding block_body_ok_def txs using none assms(5,6) kinds
      by (auto simp: list_all_iff valid_alone_def)
  qed
  show "validate_internal C b = Ok () \<longleftrightarrow>
      \<not> block_is_genesis b \<and> cand_poh_tick_start cand \<le> cand_poh_tick_end cand
      \<and> length out + 2 \<le> 32767 \<and> list_all (valid_alone b) out"
    using from_candidate_Ok [OF assms(3)] estimated_block_size_bound [of "hb # cb # out"] assms(4) body
    by (auto simp: validate_internal_iff MAX_TRANSACTIONS_def)
  have "map_of (mp_tx_store s') (tx_hash tx) = None" if "tx \<in> set out" for tx
    using build_block_built(3) [OF inv assms(2), of "tx_hash tx"] that by simp
  then show "list_all (\<lambda>tx. \<not> pool_contains (tx_hash tx) s') out"
    using inv' pool_links_absent [of "mp_index s'" "mp_tx_store s'" "mp_nullifiers s'"]
    by (simp add: list_all_iff pool_contains_def pool_inv_def)
qed

text \<open>C40. \<open>validate_internal\<close> does not accept a block whose second transaction is the coinbase that \<open>create_coinbase\<close>
  built, after a heartbeat and before transactions of other types than coinbase: it counts transactions of
  the coinbase type, and the economic module builds its coinbase with the standard type.\<close>

theorem economics_coinbase_rejected:
  assumes "create_coinbase C J miner height fees dev supply epoch = Ok cb"
    and "from_candidate C cand pv = Ok b" and "cand_transactions cand = hb # cb # out"
    and "is_heartbeat hb" and "list_all (\<lambda>tx. \<not> is_coinbase tx) out"
  shows "validate_internal C b \<noteq> Ok ()"
proof -
  have "\<not> is_coinbase cb"
    using assms(1) by (auto simp: create_coinbase_def is_coinbase_def tx_compute_hash_def tx_new_raw_def Let_def
        split: if_splits prod.splits)
  moreover have "\<not> is_coinbase hb" using assms(4) by (simp add: is_heartbeat_def is_coinbase_def)
  moreover have "blk_transactions b = hb # cb # out" using from_candidate_Ok(2) [OF assms(2)] assms(3) by simp
  ultimately have "filter is_coinbase (blk_transactions b) = []"
    using assms(5) by (simp add: filter_empty_conv list_all_iff)
  then show ?thesis by (simp add: validate_internal_iff block_body_ok_def)
qed

section \<open>A sample block\<close>

definition production_candidate ::
  "(u8, unit, unit) transaction \<Rightarrow> (u8, unit, unit) transaction list \<Rightarrow> (u8, unit, unit) block_candidate" where
  "production_candidate cb out =
     \<lparr>cand_prev_hash = zero_hash, cand_height = 1, cand_poh_tick_start = 0, cand_poh_tick_end = 9,
      cand_transactions = new_heartbeat sample_crypto [] 2 # cb # out, cand_is_presence_block = True,
      cand_settlement_checkpoint = None\<rparr>"

definition production_preview :: state_preview where
  "production_preview = \<lparr>pv_state_root = StateRoot [1], pv_new_total_supply = 5\<rparr>"

lemma short_not_zero_hash: "length h \<noteq> 32 \<Longrightarrow> h \<noteq> zero_hash \<and> zero_hash \<noteq> h"
  by auto

lemma production_block:
  obtains b where "from_candidate sample_crypto (production_candidate cb out) production_preview = Ok b"
    and "blk_height b = 1" and "blk_poh_tick_start b = 0" and "blk_poh_tick_end b = 9"
  by (simp add: from_candidate_def production_candidate_def production_preview_def short_not_zero_hash Let_def)

text \<open>A pool that got one transaction of the smallest size and gives it back.\<close>

lemma single_pool_fields:
  fixes tx :: "('pk, 'zk, 'dna) transaction"
  assumes "tx_fee tx = 5" and "estimated_size tx = 267"
    and "s = fold pool_step [PoolInsert 0 tx tick] mempool_new"
    and "r = \<lparr>ref_hash = tx_hash tx, ref_fee = 5, ref_size = 267, ref_poh_tick = tick, ref_inserted_at = 0\<rparr>"
  shows "mp_buckets s = (replicate 64 [])[2 := [r]]" "mp_tx_store s = [(tx_hash tx, tx)]"
    "mp_index s = [(tx_hash tx, r)]"
  by (simp_all add: assms mempool_insert_def mempool_new_def sample_pool_bucket MIN_FEE_def MAX_MEMPOOL_TX_def
      MAX_MEMPOOL_BYTES_def refresh_stats_def FEE_BUCKETS_def Let_def list_ex_iff)

lemma single_pool_built:
  fixes tx :: "('pk, 'zk, 'dna) transaction"
  assumes "tx_fee tx = 5" and "estimated_size tx = 267"
  obtains s' where "build_block 10 1000 (fold pool_step [PoolInsert 0 tx tick] mempool_new) = Some (s', [tx])"
proof -
  let ?s = "fold pool_step [PoolInsert 0 tx tick] mempool_new"
  note f = single_pool_fields [OF assms refl refl, of tick]
  have c: "concat (mp_buckets ?s) =
      [\<lparr>ref_hash = tx_hash tx, ref_fee = 5, ref_size = 267, ref_poh_tick = tick, ref_inserted_at = 0\<rparr>]"
    unfolding f(1) by (simp add: numeral_eq_Suc)
  have "faithful ?s" unfolding faithful_def c f(2) by (simp add: assms(1))
  moreover have "refs_size (concat (mp_buckets ?s)) \<le> 1000" unfolding c by (simp add: refs_size_def)
  ultimately obtain s' out where bb: "build_block 10 1000 ?s = Some (s', out)" "length out = 1"
      "list_all (\<lambda>t. map_of (mp_tx_store ?s) (tx_hash t) = Some t) out"
    using build_block_fits [OF refl, of "[PoolInsert 0 tx tick]" 1000 10] unfolding pool_len_def f by auto
  then obtain t where "out = [t]" by (auto simp: length_Suc_conv)
  with bb(3) have "out = [tx]" unfolding f by (simp split: if_splits)
  with bb(1) that show thesis by simp
qed

lemma sample_pool_built:
  obtains s' where "build_block 10 1000 sample_pool = Some (s', [sample_pool_tx])"
  using single_pool_built [OF _ sample_pool_size, of 0] unfolding sample_pool_def
  by (auto simp: sample_pool_tx_def tx_new_raw_def)

theorem pool_block_valid_witness:
  "\<exists>b. from_candidate sample_crypto
        (production_candidate (tx_new_coinbase sample_crypto [] 0 2) [sample_pool_tx]) production_preview = Ok b
     \<and> validate_internal sample_crypto b = Ok ()"
proof -
  let ?cand = "production_candidate (tx_new_coinbase sample_crypto [] 0 2) [sample_pool_tx]"
  obtain s' where bb: "build_block 10 1000 sample_pool = Some (s', [sample_pool_tx])" by (rule sample_pool_built)
  obtain b where b: "from_candidate sample_crypto ?cand production_preview = Ok b"
    and f: "blk_height b = 1" "blk_poh_tick_start b = 0" "blk_poh_tick_end b = 9" by (rule production_block)
  have txs: "cand_transactions ?cand =
      new_heartbeat sample_crypto [] 2 # tx_new_coinbase sample_crypto [] 0 2 # [sample_pool_tx]"
    by (simp add: production_candidate_def)
  have kinds: "is_heartbeat (new_heartbeat sample_crypto [] 2)" "is_coinbase (tx_new_coinbase sample_crypto [] 0 2)"
    by (simp_all add: new_heartbeat_def tx_new_coinbase_def tx_compute_hash_def is_heartbeat_def is_coinbase_def)
  have "valid_alone b sample_pool_tx"
    by (simp add: valid_alone_def is_ordinary_def ordinary_ok_def f tx_nullifiers_def sample_pool_tx_def tx_new_raw_def
        is_heartbeat_def is_coinbase_def short_not_zero_hash)
  with pool_block_valid [OF sample_pool_def bb b txs kinds] b f show ?thesis
    by (simp add: block_is_genesis_def production_candidate_def)
qed

theorem economics_coinbase_rejected_witness:
  "\<exists>cb b. create_coinbase sample_crypto sample_jt 1 1 0 2 5 0 = Ok cb
     \<and> from_candidate sample_crypto (production_candidate cb []) production_preview = Ok b
     \<and> validate_internal sample_crypto b \<noteq> Ok ()"
proof -
  obtain cb where cb: "create_coinbase sample_crypto sample_jt 1 1 0 2 5 0 = Ok cb"
    by (simp add: create_coinbase_def Let_def fee_def block_reward_def sat_mul_def sat_sub_def sat_add_def econ_consts)
  obtain b where b: "from_candidate sample_crypto (production_candidate cb []) production_preview = Ok b"
    by (rule production_block)
  have "validate_internal sample_crypto b \<noteq> Ok ()"
    by (rule economics_coinbase_rejected [OF cb b, of "new_heartbeat sample_crypto [] 2" "[]"])
       (simp_all add: production_candidate_def new_heartbeat_def tx_compute_hash_def is_heartbeat_def)
  with cb b show ?thesis by blast
qed

text \<open>The pool does not look for a nullifier that one transaction spends twice: it accepts such a transaction,
  and no block with it is valid.\<close>

definition self_conflict_tx :: "(u8, unit, unit) transaction" where
  "self_conflict_tx = sample_pool_tx\<lparr>tx_inputs := tx_inputs sample_pool_tx @ tx_inputs sample_pool_tx\<rparr>"

lemma pool_accepts_self_conflict:
  "snd (mempool_insert 0 self_conflict_tx 0 mempool_new) \<and> \<not> valid_alone b self_conflict_tx"
  by (simp add: mempool_insert_def mempool_new_def self_conflict_tx_def sample_pool_tx_def tx_new_raw_def
      valid_alone_def tx_nullifiers_def estimated_size_def usize_sat_mul_def usize_sat_add_def USIZE_MAX_def
      MIN_FEE_def MAX_MEMPOOL_TX_def MAX_MEMPOOL_BYTES_def Let_def)

end
