(* ===== verification/Peers.thy ===== *)
theory Peers
  imports Prelude "HOL-Library.AList"
begin

text \<open>
  \<open>crates/aevum-p2p/src/peers.rs\<close>: the registry of connected peers with its four maps and three
  counters. Each method is one step on the whole state: the calls are taken one after the other. A
  \<open>DashMap\<close> is an association list with distinct keys; an atomic counter is a 64-bit word with the
  wrapping \<open>fetch_add\<close> and \<open>fetch_sub\<close>. Times are in milliseconds. Parameters: the message channel of
  a peer (\<open>tokio\<close>), the peer storage and the shuffle of \<open>random_peers\<close>, all of other crates; floating
  point reputations are the integers they are converted from.

  The lemmas: after any calls the counters are the numbers they stand for, the table of
  addresses names only live peers at their current address, and, when every registration is
  guarded by \<open>can_accept\<close>, the limits on peers, peers per address and pending connections hold.
\<close>

section \<open>State\<close>

type_synonym ip_addr = bytes
type_synonym sock_addr = "ip_addr \<times> u16"
type_synonym node_id = bytes

definition MAX_PEERS :: nat where "MAX_PEERS = 1000"
definition MAX_OUTBOUND :: nat where "MAX_OUTBOUND = 32"
definition MAX_CONNECTING :: nat where "MAX_CONNECTING = 8"
definition MAX_PER_IP :: nat where "MAX_PER_IP = 4"
definition RATE_LIMIT_PER_SEC :: u32 where "RATE_LIMIT_PER_SEC = 100"
definition CONNECT_RETRY :: nat where "CONNECT_RETRY = 30000"
definition ATTEMPT_TTL :: nat where "ATTEMPT_TTL = 600000"

datatype connection_state = Connecting | Connected

record 'tx peer_state =
  ps_tx :: 'tx
  ps_addr :: sock_addr
  ps_peer_height :: u64
  ps_msg_count :: u32
  ps_last_reset :: nat
  ps_connected_at :: nat
  ps_is_outbound :: bool
  ps_state :: connection_state

record ('tx, 'st) peers_manager =
  pm_peers :: "(node_id \<times> 'tx peer_state) list"
  pm_addr_to_peer :: "(sock_addr \<times> node_id) list"
  pm_ip_connections :: "(ip_addr \<times> nat) list"
  pm_last_connect_attempt :: "(sock_addr \<times> nat) list"
  pm_peer_storage :: 'st
  pm_connected_count :: u64
  pm_outbound_count :: u64
  pm_connecting_count :: u64

record ('tx, 'st) net_api =
  try_send :: "'tx \<Rightarrow> bytes \<Rightarrow> bool"
  is_closed :: "'tx \<Rightarrow> bool"
  save_peer_address :: "sock_addr \<Rightarrow> u64 \<Rightarrow> 'st \<Rightarrow> 'st"
  update_reputation :: "node_id \<Rightarrow> int \<Rightarrow> u64 \<Rightarrow> 'st \<Rightarrow> 'st"
  load_reputation :: "node_id \<Rightarrow> u64 \<Rightarrow> 'st \<Rightarrow> int option"
  load_all_addresses :: "'st \<Rightarrow> (sock_addr \<times> u64) list option"

definition peers_new :: "'st \<Rightarrow> ('tx, 'st) peers_manager" where
  "peers_new peer_storage =
     \<lparr>pm_peers = [], pm_addr_to_peer = [], pm_ip_connections = [], pm_last_connect_attempt = [],
      pm_peer_storage = peer_storage, pm_connected_count = 0, pm_outbound_count = 0,
      pm_connecting_count = 0\<rparr>"

section \<open>Registration\<close>

definition can_accept :: "('tx, 'st) peers_manager \<Rightarrow> sock_addr \<Rightarrow> bool" where
  "can_accept m addr =
     (if MAX_PEERS \<le> unat (pm_connected_count m) then False
      else case map_of (pm_ip_connections m) (fst addr) of None \<Rightarrow> True | Some v \<Rightarrow> v < MAX_PER_IP)"

definition decrement_ip :: "ip_addr \<Rightarrow> ('tx, 'st) peers_manager \<Rightarrow> ('tx, 'st) peers_manager" where
  "decrement_ip ip m =
     (case map_of (pm_ip_connections m) ip of
        None \<Rightarrow> m
      | Some v \<Rightarrow>
          let v' = v - 1; c = AList.update ip v' (pm_ip_connections m)
          in m\<lparr>pm_ip_connections := (if v' = 0 then AList.delete ip c else c)\<rparr>)"

definition drop_connecting :: "('tx, 'st) peers_manager \<Rightarrow> ('tx, 'st) peers_manager" where
  "drop_connecting m = m\<lparr>pm_connecting_count := sat_sub (pm_connecting_count m) 1\<rparr>"

text \<open>What \<open>register_peer\<close> and \<open>remove_peer\<close> both do for the peer state that goes away.\<close>

definition forget_state :: "'tx peer_state \<Rightarrow> ('tx, 'st) peers_manager \<Rightarrow> ('tx, 'st) peers_manager" where
  "forget_state old m =
     (let m1 = decrement_ip (fst (ps_addr old)) (m\<lparr>pm_addr_to_peer := AList.delete (ps_addr old) (pm_addr_to_peer m)\<rparr>)
      in if ps_is_outbound old then m1\<lparr>pm_outbound_count := pm_outbound_count m1 - 1\<rparr> else m1)"

definition register_peer ::
  "('tx, 'st) net_api \<Rightarrow> node_id \<Rightarrow> sock_addr \<Rightarrow> 'tx \<Rightarrow> bool \<Rightarrow> nat \<Rightarrow> u64
     \<Rightarrow> ('tx, 'st) peers_manager \<Rightarrow> ('tx, 'st) peers_manager" where
  "register_peer N node_id addr tx is_outbound now now_secs m =
     (let state = \<lparr>ps_tx = tx, ps_addr = addr, ps_peer_height = 0, ps_msg_count = 0, ps_last_reset = now,
                   ps_connected_at = now, ps_is_outbound = is_outbound, ps_state = Connected\<rparr>;
          m1 = m\<lparr>pm_peers := AList.update node_id state (pm_peers m)\<rparr>;
          m2 = (case map_of (pm_peers m) node_id of
                  Some old \<Rightarrow> forget_state old m1
                | None \<Rightarrow> m1\<lparr>pm_connected_count := pm_connected_count m1 + 1\<rparr>);
          m3 = m2\<lparr>pm_addr_to_peer := AList.update addr node_id (pm_addr_to_peer m2)\<rparr>;
          n = (case map_of (pm_ip_connections m3) (fst addr) of None \<Rightarrow> 0 | Some v \<Rightarrow> v);
          m4 = m3\<lparr>pm_ip_connections := AList.update (fst addr) (n + 1) (pm_ip_connections m3)\<rparr>;
          m5 = (if is_outbound then m4\<lparr>pm_outbound_count := pm_outbound_count m4 + 1\<rparr> else m4);
          m6 = drop_connecting m5
      in m6\<lparr>pm_peer_storage := save_peer_address N addr now_secs (pm_peer_storage m6)\<rparr>)"

definition remove_peer :: "node_id \<Rightarrow> ('tx, 'st) peers_manager \<Rightarrow> ('tx, 'st) peers_manager" where
  "remove_peer node_id m =
     (case map_of (pm_peers m) node_id of
        None \<Rightarrow> m
      | Some state \<Rightarrow>
          let m1 = forget_state state (m\<lparr>pm_peers := AList.delete node_id (pm_peers m)\<rparr>)
          in m1\<lparr>pm_connected_count := pm_connected_count m1 - 1\<rparr>)"

section \<open>Messages and queries\<close>

definition get_node_id :: "('tx, 'st) peers_manager \<Rightarrow> sock_addr \<Rightarrow> node_id option" where
  "get_node_id m addr = map_of (pm_addr_to_peer m) addr"

definition get_addr_by_node_id :: "('tx, 'st) peers_manager \<Rightarrow> node_id \<Rightarrow> sock_addr option" where
  "get_addr_by_node_id m node_id = map_option ps_addr (map_of (pm_peers m) node_id)"

definition send_to ::
  "('tx, 'st) net_api \<Rightarrow> node_id \<Rightarrow> bytes \<Rightarrow> nat \<Rightarrow> ('tx, 'st) peers_manager \<Rightarrow> ('tx, 'st) peers_manager \<times> bool" where
  "send_to N node_id msg now m =
     (case map_of (pm_peers m) node_id of
        None \<Rightarrow> (m, False)
      | Some peer \<Rightarrow>
          let p1 = (if 1000 \<le> now - ps_last_reset peer then peer\<lparr>ps_msg_count := 0, ps_last_reset := now\<rparr> else peer) in
          if RATE_LIMIT_PER_SEC \<le> ps_msg_count p1
          then (m\<lparr>pm_peers := AList.update node_id p1 (pm_peers m)\<rparr>, False)
          else (m\<lparr>pm_peers := AList.update node_id (p1\<lparr>ps_msg_count := ps_msg_count p1 + 1\<rparr>) (pm_peers m)\<rparr>,
                try_send N (ps_tx peer) msg))"

definition broadcast :: "('tx, 'st) net_api \<Rightarrow> ('tx, 'st) peers_manager \<Rightarrow> ('tx, 'st) peers_manager" where
  "broadcast N m =
     fold remove_peer (map fst (filter (\<lambda>(k, p). is_closed N (ps_tx p)) (pm_peers m))) m"

definition update_peer_height :: "node_id \<Rightarrow> u64 \<Rightarrow> ('tx, 'st) peers_manager \<Rightarrow> ('tx, 'st) peers_manager" where
  "update_peer_height node_id height m =
     (case map_of (pm_peers m) node_id of
        None \<Rightarrow> m
      | Some p \<Rightarrow>
          m\<lparr>pm_peers := AList.update node_id (p\<lparr>ps_peer_height := max (ps_peer_height p) height\<rparr>) (pm_peers m)\<rparr>)"

definition get_peer_height :: "('tx, 'st) peers_manager \<Rightarrow> node_id \<Rightarrow> u64" where
  "get_peer_height m node_id = (case map_of (pm_peers m) node_id of None \<Rightarrow> 0 | Some p \<Rightarrow> ps_peer_height p)"

definition mark_connected ::
  "('tx, 'st) net_api \<Rightarrow> node_id \<Rightarrow> u64 \<Rightarrow> ('tx, 'st) peers_manager \<Rightarrow> ('tx, 'st) peers_manager" where
  "mark_connected N node_id now_secs m =
     m\<lparr>pm_peer_storage := update_reputation N node_id 10 now_secs (pm_peer_storage m)\<rparr>"

definition mark_connect_failed :: "sock_addr \<Rightarrow> nat \<Rightarrow> ('tx, 'st) peers_manager \<Rightarrow> ('tx, 'st) peers_manager" where
  "mark_connect_failed addr now m =
     drop_connecting (m\<lparr>pm_last_connect_attempt := AList.update addr now (pm_last_connect_attempt m)\<rparr>)"

definition try_reserve_outbound_slot ::
  "sock_addr \<Rightarrow> nat \<Rightarrow> ('tx, 'st) peers_manager \<Rightarrow> ('tx, 'st) peers_manager \<times> bool" where
  "try_reserve_outbound_slot addr now m =
     (if MAX_OUTBOUND \<le> unat (pm_outbound_count m) then (m, False)
      else if MAX_CONNECTING \<le> unat (pm_connecting_count m) then (m, False)
      else let m1 = m\<lparr>pm_last_connect_attempt :=
               filter (\<lambda>(k, t). now - t < ATTEMPT_TTL) (pm_last_connect_attempt m)\<rparr> in
        if (case map_of (pm_last_connect_attempt m1) addr of None \<Rightarrow> False | Some t \<Rightarrow> now - t < CONNECT_RETRY)
        then (m1, False)
        else (m1\<lparr>pm_last_connect_attempt := AList.update addr now (pm_last_connect_attempt m1),
                pm_connecting_count := pm_connecting_count m1 + 1\<rparr>, True))"

definition peer_count :: "('tx, 'st) peers_manager \<Rightarrow> u64" where
  "peer_count m = pm_connected_count m"

definition connected_addr_set :: "('tx, 'st) peers_manager \<Rightarrow> sock_addr set" where
  "connected_addr_set m = fst ` set (pm_addr_to_peer m)"

definition connected_peer_ids :: "('tx, 'st) peers_manager \<Rightarrow> node_id list" where
  "connected_peer_ids m = map fst (pm_peers m)"

definition known_addresses_iter :: "('tx, 'st) net_api \<Rightarrow> ('tx, 'st) peers_manager \<Rightarrow> sock_addr list" where
  "known_addresses_iter N m =
     map fst (case load_all_addresses N (pm_peer_storage m) of None \<Rightarrow> [] | Some xs \<Rightarrow> xs)"

definition known_addresses_with_ids :: "('tx, 'st) peers_manager \<Rightarrow> (sock_addr \<times> node_id) list" where
  "known_addresses_with_ids m = pm_addr_to_peer m"

definition add_known_address ::
  "('tx, 'st) net_api \<Rightarrow> sock_addr \<Rightarrow> u64 \<Rightarrow> ('tx, 'st) peers_manager \<Rightarrow> ('tx, 'st) peers_manager" where
  "add_known_address N addr now_secs m =
     m\<lparr>pm_peer_storage := save_peer_address N addr now_secs (pm_peer_storage m)\<rparr>"

definition random_peers ::
  "(node_id list \<Rightarrow> node_id list) \<Rightarrow> ('tx, 'st) peers_manager \<Rightarrow> nat \<Rightarrow> node_id list" where
  "random_peers shuffle m k =
     (let ids = shuffle (map fst (pm_peers m)) in take (min k (length ids)) ids)"

definition get_connected_pubkeys ::
  "('tx, 'st) net_api \<Rightarrow> u64 \<Rightarrow> ('tx, 'st) peers_manager \<Rightarrow> (node_id \<times> int) list" where
  "get_connected_pubkeys N now_secs m =
     (let ids = map fst (pm_peers m);
          reps = map (\<lambda>k. (k, case load_reputation N k now_secs (pm_peer_storage m) of
                                 None \<Rightarrow> 5000 | Some r \<Rightarrow> r)) ids
      in map (\<lambda>k. (k, case map_of reps k of None \<Rightarrow> 5000 | Some r \<Rightarrow> r)) ids)"

section \<open>Consistency\<close>

text \<open>How a count of entries changes when one of them is replaced or removed.\<close>

definition opt_hit :: "('v \<Rightarrow> bool) \<Rightarrow> 'v option \<Rightarrow> nat" where
  "opt_hit P x = (case x of None \<Rightarrow> 0 | Some v \<Rightarrow> if P v then 1 else 0)"

definition hits :: "('v \<Rightarrow> bool) \<Rightarrow> ('k \<times> 'v) list \<Rightarrow> nat" where
  "hits P ps = length (filter (\<lambda>(k, v). P v) ps)"

lemma hits_simps [simp]:
  "hits P [] = 0" "hits P ((k, v) # ps) = (if P v then 1 else 0) + hits P ps"
  "opt_hit P None = 0" "opt_hit P (Some v) = (if P v then 1 else 0)"
  by (simp_all add: hits_def opt_hit_def)

lemma hits_update:
  assumes "distinct (map fst ps)"
  shows "hits P (AList.update k v ps) + opt_hit P (map_of ps k) = hits P ps + opt_hit P (Some v)"
  using assms by (induction ps) auto

lemma hits_delete:
  assumes "distinct (map fst ps)"
  shows "hits P (AList.delete k ps) + opt_hit P (map_of ps k) = hits P ps"
  using assms by (induction ps) auto

lemma hits_pos: "map_of ps k = Some v \<Longrightarrow> P v \<Longrightarrow> 0 < hits P ps"
  by (induction ps) (auto split: if_splits)

lemma hits_all: "length ps = hits (\<lambda>_. True) ps"
  by (simp add: hits_def)

text \<open>The numbers that the counters and the table of addresses stand for.\<close>

abbreviation outbound_peers :: "(node_id \<times> 'tx peer_state) list \<Rightarrow> nat" where
  "outbound_peers ps \<equiv> hits ps_is_outbound ps"

abbreviation peers_at :: "(node_id \<times> 'tx peer_state) list \<Rightarrow> ip_addr \<Rightarrow> nat" where
  "peers_at ps ip \<equiv> hits (\<lambda>p. fst (ps_addr p) = ip) ps"

definition ip_count :: "(ip_addr \<times> nat) list \<Rightarrow> ip_addr \<Rightarrow> nat" where
  "ip_count c ip = (case map_of c ip of None \<Rightarrow> 0 | Some v \<Rightarrow> v)"

definition peers_inv :: "('tx, 'st) peers_manager \<Rightarrow> bool" where
  "peers_inv m \<longleftrightarrow>
     distinct (map fst (pm_peers m))
     \<and> pm_connected_count m = of_nat (length (pm_peers m))
     \<and> pm_outbound_count m = of_nat (outbound_peers (pm_peers m))
     \<and> (\<forall>ip. ip_count (pm_ip_connections m) ip = peers_at (pm_peers m) ip)
     \<and> (\<forall>a k. map_of (pm_addr_to_peer m) a = Some k \<longrightarrow>
          (\<exists>p. map_of (pm_peers m) k = Some p \<and> ps_addr p = a))
     \<and> pm_connecting_count m \<le> 8"

lemma ip_count_decrement:
  "ip_count (pm_ip_connections (decrement_ip ip m)) = (ip_count (pm_ip_connections m))(ip := ip_count (pm_ip_connections m) ip - 1)"
  by (cases "map_of (pm_ip_connections m) ip")
    (auto simp: decrement_ip_def ip_count_def Let_def fun_eq_iff update_conv' delete_conv')

lemma decrement_ip_frame [simp]:
  "pm_peers (decrement_ip ip m) = pm_peers m" "pm_addr_to_peer (decrement_ip ip m) = pm_addr_to_peer m"
  "pm_connected_count (decrement_ip ip m) = pm_connected_count m"
  "pm_outbound_count (decrement_ip ip m) = pm_outbound_count m"
  "pm_connecting_count (decrement_ip ip m) = pm_connecting_count m"
  by (simp_all add: decrement_ip_def Let_def split: option.split)

lemma forget_state_frame [simp]:
  "pm_peers (forget_state old m) = pm_peers m"
  "pm_connected_count (forget_state old m) = pm_connected_count m"
  "pm_connecting_count (forget_state old m) = pm_connecting_count m"
  "pm_addr_to_peer (forget_state old m) = AList.delete (ps_addr old) (pm_addr_to_peer m)"
  "pm_outbound_count (forget_state old m) = pm_outbound_count m - (if ps_is_outbound old then 1 else 0)"
  by (simp_all add: forget_state_def Let_def)

lemma ip_count_forget:
  "ip_count (pm_ip_connections (forget_state old m))
     = (ip_count (pm_ip_connections m))(fst (ps_addr old) := ip_count (pm_ip_connections m) (fst (ps_addr old)) - 1)"
  by (simp add: forget_state_def Let_def ip_count_decrement)

lemma word_move: "a + c = b + d \<Longrightarrow> (of_nat a :: 'a::len word) = of_nat b - of_nat c + of_nat d"
proof -
  assume "a + c = b + d"
  then have "(of_nat a :: 'a word) + of_nat c = of_nat b + of_nat d" by (metis of_nat_add)
  then show ?thesis by (simp add: algebra_simps)
qed

lemma register_sel:
  "pm_peers (register_peer N k addr tx out now secs m) = AList.update k
     \<lparr>ps_tx = tx, ps_addr = addr, ps_peer_height = 0, ps_msg_count = 0, ps_last_reset = now,
      ps_connected_at = now, ps_is_outbound = out, ps_state = Connected\<rparr> (pm_peers m)"
  "pm_connected_count (register_peer N k addr tx out now secs m)
     = pm_connected_count m + (case map_of (pm_peers m) k of None \<Rightarrow> 1 | Some _ \<Rightarrow> 0)"
  "pm_outbound_count (register_peer N k addr tx out now secs m)
     = pm_outbound_count m - of_nat (opt_hit ps_is_outbound (map_of (pm_peers m) k)) + (if out then 1 else 0)"
  "pm_connecting_count (register_peer N k addr tx out now secs m) = sat_sub (pm_connecting_count m) 1"
  "pm_addr_to_peer (register_peer N k addr tx out now secs m) = AList.update addr k
     (case map_of (pm_peers m) k of None \<Rightarrow> pm_addr_to_peer m | Some old \<Rightarrow> AList.delete (ps_addr old) (pm_addr_to_peer m))"
  by (cases "map_of (pm_peers m) k"; simp add: register_peer_def Let_def drop_connecting_def)+

lemma register_ip:
  "ip_count (pm_ip_connections (register_peer N k addr tx out now secs m)) ip
     = (ip_count (pm_ip_connections m) ip - opt_hit (\<lambda>p. fst (ps_addr p) = ip) (map_of (pm_peers m) k))
       + (if fst addr = ip then 1 else 0)"
proof (cases "map_of (pm_peers m) k")
  case None
  then show ?thesis
    by (simp add: register_peer_def Let_def drop_connecting_def ip_count_def update_conv')
next
  case (Some old)
  let ?m2 = "forget_state old (m\<lparr>pm_peers := AList.update k
     \<lparr>ps_tx = tx, ps_addr = addr, ps_peer_height = 0, ps_msg_count = 0, ps_last_reset = now,
      ps_connected_at = now, ps_is_outbound = out, ps_state = Connected\<rparr> (pm_peers m)\<rparr>)"
  have "ip_count (pm_ip_connections (register_peer N k addr tx out now secs m)) ip
      = ip_count (pm_ip_connections ?m2) ip + (if fst addr = ip then 1 else 0)"
    using Some by (simp add: register_peer_def Let_def drop_connecting_def ip_count_def update_conv')
  then show ?thesis using Some by (simp add: ip_count_forget)
qed

lemma addr_sound:
  "peers_inv m \<Longrightarrow> map_of (pm_addr_to_peer m) a = Some k
     \<Longrightarrow> \<exists>p. map_of (pm_peers m) k = Some p \<and> ps_addr p = a"
  unfolding peers_inv_def by blast

lemma word_less: "a + c = b \<Longrightarrow> (of_nat b :: 'a::len word) - of_nat c = of_nat a"
  using word_move [of a c b 0, where 'a = 'a] by simp

lemma sat_sub_le8: "c \<le> 8 \<Longrightarrow> sat_sub c 1 \<le> (8 :: u64)"
  by (simp add: word_le_nat_alt rust_arith)

lemma register_peer_inv:
  assumes inv: "peers_inv m"
  shows "peers_inv (register_peer N k addr tx out now secs m)"
proof -
  let ?m = "register_peer N k addr tx out now secs m"
  have d: "distinct (map fst (pm_peers m))" using inv by (simp add: peers_inv_def)
  have "distinct (map fst (pm_peers ?m))" by (simp add: register_sel distinct_update d)
  moreover have "pm_connected_count ?m = of_nat (length (pm_peers ?m))"
    using inv word_move [OF hits_update [OF d, of "\<lambda>_. True" k], where 'a = 64]
    by (simp add: register_sel peers_inv_def hits_all split: option.split)
  moreover have "pm_outbound_count ?m = of_nat (outbound_peers (pm_peers ?m))"
    using inv word_move [OF hits_update [OF d, of ps_is_outbound k], where 'a = 64]
    by (simp add: register_sel peers_inv_def)
  moreover have "ip_count (pm_ip_connections ?m) ip = peers_at (pm_peers ?m) ip" for ip
  proof -
    have "ip_count (pm_ip_connections m) ip = peers_at (pm_peers m) ip" using inv by (simp add: peers_inv_def)
    moreover have "opt_hit (\<lambda>p. fst (ps_addr p) = ip) (map_of (pm_peers m) k) \<le> peers_at (pm_peers m) ip"
      using hits_delete [OF d, of "\<lambda>p. fst (ps_addr p) = ip" k] by simp
    ultimately show ?thesis
      using hits_update [OF d, of "\<lambda>p. fst (ps_addr p) = ip" k
          "\<lparr>ps_tx = tx, ps_addr = addr, ps_peer_height = 0, ps_msg_count = 0, ps_last_reset = now,
            ps_connected_at = now, ps_is_outbound = out, ps_state = Connected\<rparr>"]
      by (simp add: register_ip register_sel(1))
  qed
  moreover have "\<exists>p. map_of (pm_peers ?m) k' = Some p \<and> ps_addr p = a"
    if a: "map_of (pm_addr_to_peer ?m) a = Some k'" for a k'
  proof (cases "a = addr")
    case True
    with a have "k' = k" by (simp add: register_sel update_conv')
    with True show ?thesis by (simp add: register_sel(1) update_conv')
  next
    case False
    with a have a': "map_of (pm_addr_to_peer m) a = Some k'"
      and ne: "map_of (pm_peers m) k = Some old \<Longrightarrow> ps_addr old \<noteq> a" for old
      by (auto simp: register_sel update_conv' delete_conv' split: option.splits if_splits)
    obtain p where p: "map_of (pm_peers m) k' = Some p" "ps_addr p = a" using addr_sound [OF inv a'] by blast
    then have "k' \<noteq> k" using ne by blast
    with p show ?thesis by (simp add: register_sel(1) update_conv')
  qed
  moreover have "pm_connecting_count ?m \<le> 8"
    using inv unfolding peers_inv_def register_sel(4) by (blast intro: sat_sub_le8)
  ultimately show ?thesis unfolding peers_inv_def by blast
qed

lemma remove_inv:
  assumes inv: "peers_inv m"
  shows "peers_inv (remove_peer k m)"
proof (cases "map_of (pm_peers m) k")
  case None
  then show ?thesis using inv by (simp add: remove_peer_def)
next
  case (Some old)
  let ?m = "remove_peer k m"
  have d: "distinct (map fst (pm_peers m))" using inv by (simp add: peers_inv_def)
  have sel: "pm_peers ?m = AList.delete k (pm_peers m)"
    "pm_connected_count ?m = pm_connected_count m - 1"
    "pm_outbound_count ?m = pm_outbound_count m - (if ps_is_outbound old then 1 else 0)"
    "pm_addr_to_peer ?m = AList.delete (ps_addr old) (pm_addr_to_peer m)"
    "pm_connecting_count ?m = pm_connecting_count m"
    using Some by (simp_all add: remove_peer_def Let_def)
  have ipc: "ip_count (pm_ip_connections ?m) ip
      = ip_count (pm_ip_connections m) ip - opt_hit (\<lambda>p. fst (ps_addr p) = ip) (map_of (pm_peers m) k)" for ip
    using Some by (simp add: remove_peer_def Let_def ip_count_forget)
  have "distinct (map fst (pm_peers ?m))" by (simp add: sel distinct_delete d)
  moreover have "pm_connected_count ?m = of_nat (length (pm_peers ?m))"
    using inv Some word_less [OF hits_delete [OF d, of "\<lambda>_. True" k], where 'a = 64]
    by (simp add: sel peers_inv_def hits_all)
  moreover have "pm_outbound_count ?m = of_nat (outbound_peers (pm_peers ?m))"
    using inv Some word_less [OF hits_delete [OF d, of ps_is_outbound k], where 'a = 64]
    by (simp add: sel peers_inv_def split: if_splits)
  moreover have "ip_count (pm_ip_connections ?m) ip = peers_at (pm_peers ?m) ip" for ip
  proof -
    have "ip_count (pm_ip_connections m) ip = peers_at (pm_peers m) ip" using inv by (simp add: peers_inv_def)
    then show ?thesis
      using hits_delete [OF d, of "\<lambda>p. fst (ps_addr p) = ip" k] by (simp add: ipc sel(1))
  qed
  moreover have "\<exists>p. map_of (pm_peers ?m) k' = Some p \<and> ps_addr p = a"
    if a: "map_of (pm_addr_to_peer ?m) a = Some k'" for a k'
  proof -
    from a have a': "map_of (pm_addr_to_peer m) a = Some k'" and ne: "ps_addr old \<noteq> a"
      by (auto simp: sel delete_conv' split: if_splits)
    obtain p where p: "map_of (pm_peers m) k' = Some p" "ps_addr p = a" using addr_sound [OF inv a'] by blast
    then have "k' \<noteq> k" using ne Some by auto
    with p show ?thesis by (simp add: sel(1) delete_conv')
  qed
  moreover have "pm_connecting_count ?m \<le> 8" using inv by (simp add: sel peers_inv_def)
  ultimately show ?thesis unfolding peers_inv_def by blast
qed

text \<open>An update of a peer that keeps its address and direction keeps the invariant.\<close>

lemma touch_inv:
  assumes inv: "peers_inv m" and k: "map_of (pm_peers m) k = Some p"
    and same: "ps_addr p' = ps_addr p" "ps_is_outbound p' = ps_is_outbound p"
  shows "peers_inv (m\<lparr>pm_peers := AList.update k p' (pm_peers m)\<rparr>)"
proof -
  have d: "distinct (map fst (pm_peers m))" using inv by (simp add: peers_inv_def)
  have h: "hits P (AList.update k p' (pm_peers m)) = hits P (pm_peers m)" if "P p' = P p" for P
    using hits_update [OF d, of P k p'] k that by simp
  have len: "length (AList.update k p' (pm_peers m)) = length (pm_peers m)"
    unfolding hits_all by (rule h) simp
  have "\<exists>q. map_of (AList.update k p' (pm_peers m)) k' = Some q \<and> ps_addr q = a"
    if "map_of (pm_addr_to_peer m) a = Some k'" for a k'
    using addr_sound [OF inv that] k same by (cases "k' = k") (auto simp: update_conv')
  then show ?thesis
    using inv h [of ps_is_outbound] h [of "\<lambda>p. fst (ps_addr p) = _"] same len
    by (simp add: peers_inv_def distinct_update)
qed

lemma send_to_inv: "peers_inv m \<Longrightarrow> peers_inv (fst (send_to N k msg now m))"
  by (cases "map_of (pm_peers m) k") (auto simp: send_to_def Let_def intro!: touch_inv)

lemma height_inv: "peers_inv m \<Longrightarrow> peers_inv (update_peer_height k h m)"
  by (cases "map_of (pm_peers m) k") (auto simp: update_peer_height_def intro!: touch_inv)

lemma broadcast_inv: "peers_inv m \<Longrightarrow> peers_inv (broadcast N m)"
proof -
  have "peers_inv m \<Longrightarrow> peers_inv (fold remove_peer ks m)" for ks
    by (induction ks arbitrary: m) (simp_all add: remove_inv)
  then show "peers_inv m \<Longrightarrow> peers_inv (broadcast N m)" by (simp add: broadcast_def)
qed

lemma reserve_inv: "peers_inv m \<Longrightarrow> peers_inv (fst (try_reserve_outbound_slot addr now m))"
proof -
  assume inv: "peers_inv m"
  have "c + 1 \<le> (8 :: u64)" if "unat c < 8" for c
  proof -
    have "unat (c + 1) = unat c + 1" using that by (simp add: unat_word_ariths)
    with that show ?thesis by (simp add: word_le_nat_alt)
  qed
  with inv show ?thesis
    by (auto simp: try_reserve_outbound_slot_def Let_def peers_inv_def MAX_CONNECTING_def not_le)
qed

lemma failed_inv: "peers_inv m \<Longrightarrow> peers_inv (mark_connect_failed addr now m)"
proof -
  assume inv: "peers_inv m"
  then have "sat_sub (pm_connecting_count m) 1 \<le> 8" unfolding peers_inv_def by (blast intro: sat_sub_le8)
  with inv show ?thesis
    by (auto simp: mark_connect_failed_def drop_connecting_def peers_inv_def dest: map_of_SomeD)
qed

section \<open>The registry under any sequence of calls\<close>

datatype ('tx, 'st) peers_op =
    AcceptOp node_id sock_addr 'tx bool nat u64
  | RemoveOp node_id
  | SendOp node_id bytes nat
  | BroadcastOp
  | HeightOp node_id u64
  | ConnectedOp node_id u64
  | FailedOp sock_addr nat
  | ReserveOp sock_addr nat
  | KnownOp sock_addr u64

fun peers_step :: "('tx, 'st) net_api \<Rightarrow> ('tx, 'st) peers_op \<Rightarrow> ('tx, 'st) peers_manager \<Rightarrow> ('tx, 'st) peers_manager" where
  "peers_step N (AcceptOp k addr tx out now secs) m =
     (if can_accept m addr then register_peer N k addr tx out now secs m else m)"
| "peers_step N (RemoveOp k) m = remove_peer k m"
| "peers_step N (SendOp k msg now) m = fst (send_to N k msg now m)"
| "peers_step N BroadcastOp m = broadcast N m"
| "peers_step N (HeightOp k h) m = update_peer_height k h m"
| "peers_step N (ConnectedOp k secs) m = mark_connected N k secs m"
| "peers_step N (FailedOp addr now) m = mark_connect_failed addr now m"
| "peers_step N (ReserveOp addr now) m = fst (try_reserve_outbound_slot addr now m)"
| "peers_step N (KnownOp addr secs) m = add_known_address N addr secs m"

definition within_limits :: "('tx, 'st) peers_manager \<Rightarrow> bool" where
  "within_limits m \<longleftrightarrow> length (pm_peers m) \<le> MAX_PEERS \<and> (\<forall>ip. peers_at (pm_peers m) ip \<le> MAX_PER_IP)"

definition not_more :: "('tx, 'st) peers_manager \<Rightarrow> ('tx, 'st) peers_manager \<Rightarrow> bool" where
  "not_more m' m \<longleftrightarrow> length (pm_peers m') \<le> length (pm_peers m)
     \<and> (\<forall>ip. peers_at (pm_peers m') ip \<le> peers_at (pm_peers m) ip)"

lemma not_more_limits: "not_more m' m \<Longrightarrow> within_limits m \<Longrightarrow> within_limits m'"
  unfolding not_more_def within_limits_def by (meson le_trans)

lemma not_more_same: "pm_peers m' = pm_peers m \<Longrightarrow> not_more m' m"
  by (simp add: not_more_def)

lemma not_more_remove: "peers_inv m \<Longrightarrow> not_more (remove_peer k m) m"
proof -
  assume inv: "peers_inv m"
  then have d: "distinct (map fst (pm_peers m))" by (simp add: peers_inv_def)
  have "hits P (pm_peers (remove_peer k m)) \<le> hits P (pm_peers m)" for P
    using hits_delete [OF d, of P k]
    by (cases "map_of (pm_peers m) k") (simp_all add: remove_peer_def Let_def)
  then show ?thesis by (simp add: not_more_def hits_all)
qed

lemma not_more_touch:
  assumes "peers_inv m" and "map_of (pm_peers m) k = Some p" and "ps_addr p' = ps_addr p"
  shows "not_more (m\<lparr>pm_peers := AList.update k p' (pm_peers m)\<rparr>) m"
proof -
  have d: "distinct (map fst (pm_peers m))" using assms(1) by (simp add: peers_inv_def)
  show ?thesis
    using assms(2,3) hits_update [OF d, of "\<lambda>_. True" k p'] hits_update [OF d, of "\<lambda>p. fst (ps_addr p) = _" k p']
    by (simp add: not_more_def hits_all)
qed

lemma within_limits_register:
  assumes inv: "peers_inv m" and lim: "within_limits m" and ok: "can_accept m addr"
  shows "within_limits (register_peer N k addr tx out now secs m)"
proof -
  let ?m = "register_peer N k addr tx out now secs m"
  have d: "distinct (map fst (pm_peers m))" using inv by (simp add: peers_inv_def)
  have "unat (pm_connected_count m) = length (pm_peers m)"
    using inv lim by (simp add: peers_inv_def within_limits_def MAX_PEERS_def unat_of_nat take_bit_nat_eq_self)
  with ok have "length (pm_peers m) < MAX_PEERS" by (auto simp: can_accept_def split: if_splits)
  moreover have "length (pm_peers ?m) \<le> length (pm_peers m) + 1"
    unfolding hits_all register_sel(1) using hits_update [OF d, of "\<lambda>_. True" k] by (metis hits_simps(4) le_add1)
  moreover have "peers_at (pm_peers ?m) ip \<le> MAX_PER_IP" for ip
  proof -
    have inv': "peers_inv ?m" by (rule register_peer_inv [OF inv])
    have ic: "ip_count (pm_ip_connections m) i = peers_at (pm_peers m) i" for i using inv by (simp add: peers_inv_def)
    have "peers_at (pm_peers ?m) ip = ip_count (pm_ip_connections ?m) ip" using inv' by (simp add: peers_inv_def)
    also have "\<dots> \<le> peers_at (pm_peers m) ip + (if fst addr = ip then 1 else 0)" by (simp add: register_ip ic)
    also have "\<dots> \<le> MAX_PER_IP"
    proof (cases "fst addr = ip")
      case True
      have "ip_count (pm_ip_connections m) ip < MAX_PER_IP"
        using ok True by (auto simp: can_accept_def ip_count_def MAX_PER_IP_def split: if_splits option.splits)
      with True show ?thesis by (simp add: ic)
    next
      case False
      then show ?thesis using lim by (simp add: within_limits_def)
    qed
    finally show ?thesis .
  qed
  ultimately show ?thesis by (simp add: within_limits_def)
qed

lemma peers_step_inv: "peers_inv m \<and> within_limits m \<Longrightarrow> peers_inv (peers_step N x m) \<and> within_limits (peers_step N x m)"
proof -
  assume "peers_inv m \<and> within_limits m"
  then have inv: "peers_inv m" and lim: "within_limits m" by auto
  have rm: "peers_inv (fold remove_peer ks m) \<and> within_limits (fold remove_peer ks m)" for ks
    using inv lim
    by (induction ks arbitrary: m) (simp_all add: remove_inv not_more_limits [OF not_more_remove])
  show ?thesis
  proof (cases x)
    case (SendOp k msg now)
    have "not_more (fst (send_to N k msg now m)) m"
      by (cases "map_of (pm_peers m) k")
        (auto simp: send_to_def Let_def not_more_same intro!: not_more_touch [OF inv])
    then show ?thesis using SendOp inv lim by (simp add: send_to_inv not_more_limits)
  next
    case (HeightOp k h)
    have "not_more (update_peer_height k h m) m"
      by (cases "map_of (pm_peers m) k")
        (auto simp: update_peer_height_def not_more_same intro!: not_more_touch [OF inv])
    then show ?thesis using HeightOp inv lim by (simp add: height_inv not_more_limits)
  next
    case (AcceptOp k addr tx out now secs)
    then show ?thesis using inv lim by (simp add: register_peer_inv within_limits_register)
  next
    case (ConnectedOp k secs)
    then show ?thesis
      using inv lim by (auto simp: mark_connected_def peers_inv_def within_limits_def dest: map_of_SomeD)
  next
    case (FailedOp addr now)
    have "not_more (mark_connect_failed addr now m) m"
      by (rule not_more_same) (simp add: mark_connect_failed_def drop_connecting_def)
    then show ?thesis using FailedOp inv lim by (simp add: failed_inv not_more_limits)
  next
    case (ReserveOp addr now)
    have "not_more (fst (try_reserve_outbound_slot addr now m)) m"
      by (rule not_more_same) (simp add: try_reserve_outbound_slot_def Let_def)
    then show ?thesis using ReserveOp inv lim by (simp add: reserve_inv not_more_limits)
  next
    case (KnownOp addr secs)
    then show ?thesis
      using inv lim by (auto simp: add_known_address_def peers_inv_def within_limits_def dest: map_of_SomeD)
  qed (use rm [of "[_]"] rm in \<open>simp_all add: broadcast_def\<close>)
qed

interpretation peers: step_system "peers_new st" "peers_step N" "\<lambda>m. peers_inv m \<and> within_limits m"
  for st :: "'st" and N :: "('tx, 'st) net_api"
  by unfold_locales
    (simp add: peers_new_def peers_inv_def within_limits_def ip_count_def, rule peers_step_inv)

text \<open>
  C23. The peer registry is consistent after any sequence of calls in which a registration follows
  \<open>can_accept\<close>: the connection counter is the number of peers and at most 1000, the outbound counter the
  number of outbound peers, the table of addresses gives for every IP address the number of its
  peers, at most 4, at most 8 connections are pending, and the reverse table maps an address only to
  a live peer that is registered at that address.
\<close>

theorem peers_consistent:
  fixes N :: "('tx, 'st) net_api"
  assumes "m = fold (peers_step N) ops (peers_new st)"
  shows "unat (peer_count m) = length (connected_peer_ids m) \<and> length (connected_peer_ids m) \<le> MAX_PEERS
    \<and> distinct (connected_peer_ids m)
    \<and> unat (pm_outbound_count m) = length (filter (\<lambda>(k, p). ps_is_outbound p) (pm_peers m))
    \<and> ip_count (pm_ip_connections m) ip = length (filter (\<lambda>(k, p). fst (ps_addr p) = ip) (pm_peers m))
    \<and> ip_count (pm_ip_connections m) ip \<le> MAX_PER_IP
    \<and> unat (pm_connecting_count m) \<le> MAX_CONNECTING
    \<and> (get_node_id m a = Some k \<longrightarrow> get_addr_by_node_id m k = Some a)"
proof -
  have inv: "peers_inv m" and lim: "within_limits m" using peers.run_init_inv [of N ops st] by (simp_all add: assms)
  have n: "length (pm_peers m) < 2 ^ 64" using lim by (simp add: within_limits_def MAX_PEERS_def)
  moreover have "outbound_peers (pm_peers m) \<le> length (pm_peers m)" by (simp add: hits_def)
  ultimately have "unat (pm_outbound_count m) = outbound_peers (pm_peers m)"
    using inv by (simp add: peers_inv_def unat_of_nat take_bit_nat_eq_self)
  moreover have "unat (pm_connected_count m) = length (pm_peers m)"
    using n inv by (simp add: peers_inv_def unat_of_nat take_bit_nat_eq_self)
  moreover have "get_node_id m a = Some k \<longrightarrow> get_addr_by_node_id m k = Some a"
    using addr_sound [OF inv, of a k] by (auto simp: get_node_id_def get_addr_by_node_id_def)
  ultimately show ?thesis
    using inv lim
    by (simp add: peers_inv_def within_limits_def peer_count_def connected_peer_ids_def hits_def
        MAX_CONNECTING_def word_le_nat_alt)
qed

definition sample_net :: "(bool, unit) net_api" where
  "sample_net = \<lparr>try_send = (\<lambda>tx msg. tx), is_closed = (\<lambda>tx. \<not> tx), save_peer_address = (\<lambda>a t s. s),
     update_reputation = (\<lambda>k r t s. s), load_reputation = (\<lambda>k t s. None), load_all_addresses = (\<lambda>s. None)\<rparr>"

theorem peers_consistent_witness:
  "unat (peer_count (fold (peers_step sample_net)
     [AcceptOp [1] ([9], 80) True True 0 0, AcceptOp [2] ([9], 81) False False 0 0, BroadcastOp] (peers_new ())))
   = length (connected_peer_ids (fold (peers_step sample_net)
     [AcceptOp [1] ([9], 80) True True 0 0, AcceptOp [2] ([9], 81) False False 0 0, BroadcastOp] (peers_new ())))"
  by (rule conjunct1 [OF peers_consistent [OF refl]])

text \<open>
  The reverse table is not complete: when two peers share an address, removing one of them removes the
  address of the other.
\<close>

lemma addr_table_loses_peer:
  assumes "m = fold (peers_step sample_net) [AcceptOp [1] ([9], 80) True True 0 0,
      AcceptOp [2] ([9], 80) True True 0 0, RemoveOp [1]] (peers_new ())"
  shows "get_addr_by_node_id m [2] = Some ([9], 80) \<and> get_node_id m ([9], 80) = None"
  by (simp add: assms peers_new_def can_accept_def register_peer_def remove_peer_def forget_state_def
      decrement_ip_def drop_connecting_def get_addr_by_node_id_def get_node_id_def Let_def
      MAX_PEERS_def MAX_PER_IP_def)

section \<open>The rate limit\<close>

text \<open>
  Within one second after the last reset of a peer's window, at most as many further messages pass as
  the limit of 100 leaves.
\<close>

fun send_all ::
  "('tx, 'st) net_api \<Rightarrow> node_id \<Rightarrow> (bytes \<times> nat) list \<Rightarrow> ('tx, 'st) peers_manager \<Rightarrow> nat" where
  "send_all N k [] m = 0"
| "send_all N k ((msg, now) # xs) m =
     (case send_to N k msg now m of (m', ok) \<Rightarrow> (if ok then 1 else 0) + send_all N k xs m')"

lemma send_all_limited:
  assumes "map_of (pm_peers m) k = Some p" and "list_all (\<lambda>(msg, now). now - ps_last_reset p < 1000) xs"
  shows "send_all N k xs m \<le> 100 - unat (ps_msg_count p)"
  using assms
proof (induction xs arbitrary: m p)
  case (Cons x xs)
  obtain msg now where x: "x = (msg, now)" by fastforce
  have fresh: "\<not> 1000 \<le> now - ps_last_reset p" using Cons.prems(2) by (simp add: x)
  show ?case
  proof (cases "RATE_LIMIT_PER_SEC \<le> ps_msg_count p")
    case True
    let ?m = "m\<lparr>pm_peers := AList.update k p (pm_peers m)\<rparr>"
    have "send_all N k xs ?m \<le> 100 - unat (ps_msg_count p)"
      using Cons.prems(2) by (intro Cons.IH) (simp_all add: update_conv')
    then show ?thesis using Cons.prems(1) fresh True by (simp add: x send_to_def)
  next
    case False
    let ?p = "p\<lparr>ps_msg_count := ps_msg_count p + 1\<rparr>"
    let ?m = "m\<lparr>pm_peers := AList.update k ?p (pm_peers m)\<rparr>"
    have lt: "unat (ps_msg_count p) < 100"
      using False by (simp add: RATE_LIMIT_PER_SEC_def word_le_nat_alt)
    then have "unat (ps_msg_count p + 1) = unat (ps_msg_count p) + 1" by (simp add: unat_word_ariths)
    moreover have "send_all N k xs ?m \<le> 100 - unat (ps_msg_count ?p)"
      using Cons.prems(2) by (intro Cons.IH) (simp_all add: update_conv')
    ultimately show ?thesis using Cons.prems(1) fresh False lt by (auto simp: x send_to_def)
  qed
qed simp

end
