(* ===== verification/Dht.thy ===== *)
theory Dht
  imports Prelude
begin

unbundle bit_operations_syntax

text \<open>
  \<open>crates/aevum-p2p/src/dht.rs\<close>: the Kademlia routing table, 256 buckets of at most 8 nodes. A plain
  \<open>now - last_seen\<close> that would be negative is a panic. The shuffle of \<open>random_nodes\<close> and the random
  choice of \<open>refresh_targets\<close> are parameters.

  The lemmas: after any calls every node sits in the bucket of its distance, once, no bucket
  exceeds its size and the own identifier is never stored; \<open>find_closest\<close> ends and returns exactly as
  many live nodes as asked for or as there are, sorted by distance. The bucket number does not follow
  the distance, so what it returns need not be the closest nodes of the table.
\<close>

section \<open>The table\<close>

type_synonym sock_addr = "bytes \<times> u16"
type_synonym node_id = bytes

definition K_BUCKETS :: nat where "K_BUCKETS = 256"
definition K :: nat where "K = 8"

record dht_node =
  dn_node_id :: node_id
  dn_addr :: sock_addr
  dn_last_seen :: u64

record dht =
  dht_buckets :: "dht_node list list"
  dht_our_id :: node_id

definition dht_new :: "node_id \<Rightarrow> dht" where
  "dht_new our_id = \<lparr>dht_buckets = replicate K_BUCKETS [], dht_our_id = our_id\<rparr>"

definition dht_distance :: "bytes \<Rightarrow> bytes \<Rightarrow> bytes" where
  "dht_distance a b = map2 (XOR) a b"

definition leading_zeros :: "u8 \<Rightarrow> nat" where
  "leading_zeros w = length (takeWhile (\<lambda>i. \<not> bit w i) (rev [0 ..< 8]))"

fun bucket_scan :: "nat \<Rightarrow> bytes \<Rightarrow> nat" where
  "bucket_scan i [] = 0"
| "bucket_scan i (d # ds) =
     (if d \<noteq> 0 then min (i * 8 + (7 - leading_zeros d)) (K_BUCKETS - 1) else bucket_scan (Suc i) ds)"

definition dht_bucket_index :: "bytes \<Rightarrow> nat" where
  "dht_bucket_index distance = bucket_scan 0 distance"

text \<open>\<open>iter_mut().find(...)\<close> and the assignments through it: the first node with the identifier.\<close>

fun update_node :: "node_id \<Rightarrow> sock_addr \<Rightarrow> u64 \<Rightarrow> dht_node list \<Rightarrow> dht_node list" where
  "update_node node_id addr now [] = []"
| "update_node node_id addr now (n # ns) =
     (if dn_node_id n = node_id then n\<lparr>dn_addr := addr, dn_last_seen := now\<rparr> # ns
      else n # update_node node_id addr now ns)"

definition add_to_bucket :: "node_id \<Rightarrow> sock_addr \<Rightarrow> u64 \<Rightarrow> dht_node list \<Rightarrow> dht_node list" where
  "add_to_bucket node_id addr now bucket =
     (if list_ex (\<lambda>n. dn_node_id n = node_id) bucket then update_node node_id addr now bucket
      else let node = \<lparr>dn_node_id = node_id, dn_addr = addr, dn_last_seen = now\<rparr> in
        if length bucket < K then bucket @ [node]
        else (sort_key dn_last_seen bucket)[0 := node])"

definition add_or_update :: "node_id \<Rightarrow> sock_addr \<Rightarrow> u64 \<Rightarrow> dht \<Rightarrow> dht" where
  "add_or_update node_id addr now t =
     (if node_id = dht_our_id t then t
      else let idx = dht_bucket_index (dht_distance (dht_our_id t) node_id)
           in t\<lparr>dht_buckets := (dht_buckets t)[idx := add_to_bucket node_id addr now (dht_buckets t ! idx)]\<rparr>)"

text \<open>The filter on live nodes; \<^term>\<open>None\<close> when some node was last seen in the future.\<close>

definition is_alive :: "u64 \<Rightarrow> u64 \<Rightarrow> dht_node \<Rightarrow> bool option" where
  "is_alive now timeout n = map_option (\<lambda>d. d < timeout) (chk_sub now (dn_last_seen n))"

fun filter_alive :: "u64 \<Rightarrow> u64 \<Rightarrow> dht_node list \<Rightarrow> dht_node list option" where
  "filter_alive now timeout [] = Some []"
| "filter_alive now timeout (n # ns) =
     (case is_alive now timeout n of None \<Rightarrow> None | Some keep \<Rightarrow>
       map_option (\<lambda>rest. if keep then n # rest else rest) (filter_alive now timeout ns))"

definition u256_from_bytes :: "bytes \<Rightarrow> u64 list" where
  "u256_from_bytes bs = map (\<lambda>i. from_le_bytes (rev (take 8 (drop (i * 8) bs)))) [0 ..< 4]"

text \<open>The loop of \<open>find_closest\<close>: outwards from the bucket of the target, left first.\<close>

definition collect_left ::
  "dht_node list list \<Rightarrow> u64 \<Rightarrow> u64 \<Rightarrow> int \<Rightarrow> dht_node list \<Rightarrow> (int \<times> dht_node list) option" where
  "collect_left buckets now timeout left closest =
     (if 0 \<le> left
      then map_option (\<lambda>ns. (left - 1, closest @ ns)) (filter_alive now timeout (buckets ! nat left))
      else Some (left, closest))"

definition collect_right ::
  "dht_node list list \<Rightarrow> u64 \<Rightarrow> u64 \<Rightarrow> int \<Rightarrow> dht_node list \<Rightarrow> (int \<times> dht_node list) option" where
  "collect_right buckets now timeout right closest =
     (if right < int K_BUCKETS
      then map_option (\<lambda>ns. (right + 1, closest @ ns)) (filter_alive now timeout (buckets ! nat right))
      else Some (right, closest))"

function closest_loop ::
  "dht_node list list \<Rightarrow> nat \<Rightarrow> u64 \<Rightarrow> u64 \<Rightarrow> int \<Rightarrow> int \<Rightarrow> dht_node list \<Rightarrow> dht_node list option" where
  "closest_loop buckets k now timeout left right closest =
     (if length closest < k \<and> (0 \<le> left \<or> right < int K_BUCKETS)
      then (case collect_left buckets now timeout left closest of
              None \<Rightarrow> None
            | Some (left', c1) \<Rightarrow>
                (case collect_right buckets now timeout right c1 of
                   None \<Rightarrow> None
                 | Some (right', c2) \<Rightarrow> closest_loop buckets k now timeout left' right' c2))
      else Some closest)"
  by pat_completeness auto
termination
  by (relation "measure (\<lambda>(_, _, _, _, left, right, _). nat (left + 1) + nat (int K_BUCKETS - right))")
    (auto simp: collect_left_def collect_right_def split: if_splits)

declare closest_loop.simps [simp del]

definition find_closest :: "dht \<Rightarrow> bytes \<Rightarrow> nat \<Rightarrow> u64 \<Rightarrow> u64 \<Rightarrow> dht_node list option" where
  "find_closest t target_id k now timeout =
     (let target_idx = dht_bucket_index (dht_distance target_id (dht_our_id t)) in
      map_option (\<lambda>closest. take k (sort_key (\<lambda>n. u256_from_bytes (dht_distance (dn_node_id n) target_id)) closest))
        (closest_loop (dht_buckets t) k now timeout (int target_idx) (int target_idx + 1) []))"

definition random_nodes ::
  "(dht_node list \<Rightarrow> dht_node list) \<Rightarrow> dht \<Rightarrow> nat \<Rightarrow> u64 \<Rightarrow> u64 \<Rightarrow> dht_node list option" where
  "random_nodes shuffle t k now timeout =
     map_option (\<lambda>all. take k (shuffle all)) (filter_alive now timeout (concat (dht_buckets t)))"

definition refresh_targets :: "(nat \<Rightarrow> nat) \<Rightarrow> dht \<Rightarrow> node_id list" where
  "refresh_targets random t =
     concat (map (\<lambda>(i, bucket). if bucket = [] then [] else [dn_node_id (bucket ! (random i mod length bucket))])
       (enumerate 0 (dht_buckets t)))"

fun those_buckets :: "dht_node list option list \<Rightarrow> dht_node list list option" where
  "those_buckets [] = Some []"
| "those_buckets (None # xs) = None"
| "those_buckets (Some b # xs) = map_option (\<lambda>bs. b # bs) (those_buckets xs)"

definition dht_cleanup :: "u64 \<Rightarrow> u64 \<Rightarrow> dht \<Rightarrow> dht option" where
  "dht_cleanup now timeout t =
     map_option (\<lambda>bs. t\<lparr>dht_buckets := bs\<rparr>) (those_buckets (map (filter_alive now timeout) (dht_buckets t)))"

definition total_nodes :: "dht \<Rightarrow> nat" where
  "total_nodes t = sum_list (map length (dht_buckets t))"

definition alive_nodes :: "dht \<Rightarrow> u64 \<Rightarrow> u64 \<Rightarrow> nat option" where
  "alive_nodes t now timeout = map_option length (filter_alive now timeout (concat (dht_buckets t)))"

section \<open>Well-formed tables\<close>

definition dht_inv :: "dht \<Rightarrow> bool" where
  "dht_inv t \<longleftrightarrow> length (dht_buckets t) = 256
     \<and> (\<forall>i < 256. length (dht_buckets t ! i) \<le> 8 \<and> distinct (map dn_node_id (dht_buckets t ! i))
          \<and> (\<forall>n \<in> set (dht_buckets t ! i). dn_node_id n \<noteq> dht_our_id t
               \<and> dht_bucket_index (dht_distance (dht_our_id t) (dn_node_id n)) = i))"

lemma bucket_scan_less: "bucket_scan i ds < 256"
  by (induction i ds rule: bucket_scan.induct) (auto simp: K_BUCKETS_def)

lemma dht_bucket_index_less: "dht_bucket_index d < 256"
  by (simp add: dht_bucket_index_def bucket_scan_less)

lemma map_id_update_node: "map dn_node_id (update_node k a t ns) = map dn_node_id ns"
  by (induction k a t ns rule: update_node.induct) auto

lemma ids_update_node: "dn_node_id ` set (update_node k a t ns) = dn_node_id ` set ns"
  by (metis map_id_update_node set_map)

lemma add_to_bucket_props:
  assumes "length b \<le> 8" and "distinct (map dn_node_id b)"
  shows "length (add_to_bucket k a now b) \<le> 8 \<and> distinct (map dn_node_id (add_to_bucket k a now b))
    \<and> dn_node_id ` set (add_to_bucket k a now b) \<subseteq> insert k (dn_node_id ` set b)
    \<and> k \<in> dn_node_id ` set (add_to_bucket k a now b)"
proof (cases "list_ex (\<lambda>n. dn_node_id n = k) b")
  case True
  have "length (update_node k a now b) = length b" by (metis length_map map_id_update_node)
  with True assms show ?thesis
    by (auto simp: add_to_bucket_def map_id_update_node ids_update_node list_ex_iff)
next
  case False
  then have k: "k \<notin> dn_node_id ` set b" by (auto simp: list_ex_iff)
  let ?n = "\<lparr>dn_node_id = k, dn_addr = a, dn_last_seen = now\<rparr>"
  show ?thesis
  proof (cases "length b < K")
    case True
    with False k assms show ?thesis by (auto simp: add_to_bucket_def K_def Let_def)
  next
    case full: False
    let ?s = "sort_key dn_last_seen b"
    obtain x xs where s: "?s = x # xs" using full by (cases ?s) (auto simp: K_def dest: arg_cong [of _ _ length])
    have m: "mset (x # xs) = mset b" by (metis s mset_sort)
    have d: "distinct (map dn_node_id (x # xs))"
      using assms(2) m by (metis mset_eq_imp_distinct_iff mset_map)
    have st: "set (x # xs) = set b" by (metis m mset_eq_setD)
    have l: "length (x # xs) = length b" by (metis m mset_eq_length)
    have eq: "add_to_bucket k a now b = ?n # xs" using False full s by (simp add: add_to_bucket_def Let_def)
    have "k \<notin> dn_node_id ` set xs" using k st by auto
    then show ?thesis using d l st assms(1) by (auto simp: eq)
  qed
qed

lemma update_node_mem:
  "k \<in> dn_node_id ` set ns \<Longrightarrow> \<lparr>dn_node_id = k, dn_addr = a, dn_last_seen = now\<rparr> \<in> set (update_node k a now ns)"
  by (induction k a now ns rule: update_node.induct) (auto intro: dht_node.equality)

lemma update_node_keeps: "n \<in> set ns \<Longrightarrow> dn_node_id n \<noteq> k \<Longrightarrow> n \<in> set (update_node k a now ns)"
  by (induction k a now ns rule: update_node.induct) auto

text \<open>The node is in the bucket as it was given; of the others only the oldest node of a full bucket goes, and
  only for a new identifier.\<close>

lemma add_to_bucket_mem:
  "length b \<le> 8 \<Longrightarrow> \<lparr>dn_node_id = k, dn_addr = a, dn_last_seen = now\<rparr> \<in> set (add_to_bucket k a now b)"
proof (cases "list_ex (\<lambda>n. dn_node_id n = k) b")
  case False
  have "sort_key dn_last_seen b \<noteq> []" if "\<not> length b < K"
    using that by (metis K_def length_sort list.size(3) zero_less_numeral)
  with False show ?thesis by (auto simp: add_to_bucket_def Let_def intro!: set_update_memI)
qed (auto simp: add_to_bucket_def list_ex_iff intro: update_node_mem)

lemma add_to_bucket_keeps:
  assumes "length b \<le> 8" and "n \<in> set b" and "dn_node_id n \<noteq> k"
  shows "n \<in> set (add_to_bucket k a now b)
    \<or> length b = 8 \<and> (\<forall>m \<in> set b. dn_node_id m \<noteq> k \<and> dn_last_seen n \<le> dn_last_seen m)"
proof (cases "list_ex (\<lambda>n. dn_node_id n = k) b \<or> length b < K")
  case True
  with assms show ?thesis by (auto simp: add_to_bucket_def Let_def intro: update_node_keeps)
next
  case False
  let ?s = "sort_key dn_last_seen b"
  obtain x xs where s: "?s = x # xs" using False by (cases ?s) (auto simp: K_def dest: arg_cong [of _ _ length])
  have "sorted (map dn_last_seen ?s)" by simp
  then have least: "\<forall>m \<in> set xs. dn_last_seen x \<le> dn_last_seen m" by (simp add: s)
  have set: "set (x # xs) = set b" by (metis s set_sort)
  have "add_to_bucket k a now b = \<lparr>dn_node_id = k, dn_addr = a, dn_last_seen = now\<rparr> # xs"
    using False s by (simp add: add_to_bucket_def Let_def)
  moreover have "length b = 8" "\<forall>m \<in> set b. dn_node_id m \<noteq> k"
    using False assms(1) by (auto simp: K_def list_ex_iff)
  moreover have "n \<in> set xs \<or> n = x" "\<forall>m \<in> set b. dn_last_seen x \<le> dn_last_seen m"
    using assms(2) set least by auto
  ultimately show ?thesis by auto
qed

lemma add_or_update_inv: "dht_inv t \<Longrightarrow> dht_inv (add_or_update k a now t)"
proof (cases "k = dht_our_id t")
  case True
  assume "dht_inv t"
  with True show ?thesis by (simp add: add_or_update_def)
next
  case False
  assume inv: "dht_inv t"
  let ?i = "dht_bucket_index (dht_distance (dht_our_id t) k)"
  let ?b = "dht_buckets t ! ?i"
  have i: "?i < 256" by (rule dht_bucket_index_less)
  have b: "length ?b \<le> 8" "distinct (map dn_node_id ?b)" using inv i by (simp_all add: dht_inv_def)
  note p = add_to_bucket_props [OF b, of k a now]
  have len: "length (dht_buckets t) = 256" using inv by (simp add: dht_inv_def)
  have t': "add_or_update k a now t = t\<lparr>dht_buckets := (dht_buckets t)[?i := add_to_bucket k a now ?b]\<rparr>"
    using False by (simp add: add_or_update_def Let_def)
  have "length (dht_buckets (add_or_update k a now t) ! j) \<le> 8
      \<and> distinct (map dn_node_id (dht_buckets (add_or_update k a now t) ! j))
      \<and> (\<forall>n \<in> set (dht_buckets (add_or_update k a now t) ! j). dn_node_id n \<noteq> dht_our_id t
           \<and> dht_bucket_index (dht_distance (dht_our_id t) (dn_node_id n)) = j)" if j: "j < 256" for j
  proof (cases "j = ?i")
    case True
    have "dn_node_id n \<noteq> dht_our_id t \<and> dht_bucket_index (dht_distance (dht_our_id t) (dn_node_id n)) = ?i"
      if n: "n \<in> set (add_to_bucket k a now ?b)" for n
    proof -
      have old: "\<forall>n \<in> set ?b. dn_node_id n \<noteq> dht_our_id t
          \<and> dht_bucket_index (dht_distance (dht_our_id t) (dn_node_id n)) = ?i"
        using inv i unfolding dht_inv_def by blast
      have "dn_node_id n = k \<or> dn_node_id n \<in> dn_node_id ` set ?b" using p n by blast
      then show ?thesis
      proof
        assume "dn_node_id n = k"
        with False show ?thesis by simp
      next
        assume "dn_node_id n \<in> dn_node_id ` set ?b"
        then obtain n' where "n' \<in> set ?b" "dn_node_id n = dn_node_id n'" by blast
        with old show ?thesis by auto
      qed
    qed
    then show ?thesis using True p i len by (simp add: t')
  next
    case ne: False
    then show ?thesis using inv j by (simp add: t' dht_inv_def)
  qed
  then show ?thesis using len by (simp add: dht_inv_def t')
qed

section \<open>Live nodes\<close>

definition seen_by :: "u64 \<Rightarrow> dht_node list \<Rightarrow> bool" where
  "seen_by now ns \<longleftrightarrow> list_all (\<lambda>n. dn_last_seen n \<le> now) ns"

definition live :: "u64 \<Rightarrow> u64 \<Rightarrow> dht_node \<Rightarrow> bool" where
  "live now timeout n \<longleftrightarrow> now - dn_last_seen n < timeout"

lemma filter_alive_eq:
  "filter_alive now timeout ns = (if seen_by now ns then Some (filter (live now timeout) ns) else None)"
  by (induction ns) (auto simp: seen_by_def is_alive_def chk_sub_def simp flip: live_def)

lemma those_buckets_Some:
  "those_buckets (map (filter_alive now timeout) bs) =
     (if list_all (seen_by now) bs then Some (map (filter (live now timeout)) bs) else None)"
  by (induction bs) (auto simp: filter_alive_eq)

lemma cleanup_inv: "dht_inv t \<Longrightarrow> dht_cleanup now timeout t = Some t' \<Longrightarrow> dht_inv t'"
proof -
  assume inv: "dht_inv t" and c: "dht_cleanup now timeout t = Some t'"
  then have t': "t' = t\<lparr>dht_buckets := map (filter (live now timeout)) (dht_buckets t)\<rparr>"
    by (auto simp: dht_cleanup_def those_buckets_Some split: if_splits)
  have "length (filter P b) \<le> 8 \<and> distinct (map dn_node_id (filter P b))"
    if "length b \<le> 8" "distinct (map dn_node_id b)" for P b
    using that by (meson distinct_map_filter le_trans length_filter_le)
  with inv have "\<forall>i<256. length (filter (live now timeout) (dht_buckets t ! i)) \<le> 8
      \<and> distinct (map dn_node_id (filter (live now timeout) (dht_buckets t ! i)))"
    unfolding dht_inv_def by blast
  with inv show ?thesis by (simp add: dht_inv_def t')
qed

lemma distinct_ids_concat:
  assumes "dht_inv t"
  shows "distinct (map dn_node_id (concat (dht_buckets t)))"
proof -
  have "distinct (map dn_node_id (concat (take m (dht_buckets t))))" if "m \<le> 256" for m
    using that
  proof (induction m)
    case (Suc m)
    have len: "m < length (dht_buckets t)" using assms Suc.prems by (simp add: dht_inv_def)
    have idx: "dht_bucket_index (dht_distance (dht_our_id t) (dn_node_id n)) = i"
      if "i < 256" "n \<in> set (dht_buckets t ! i)" for i n
      using assms that unfolding dht_inv_def by blast
    have "dn_node_id n \<noteq> dn_node_id n'" if n: "n \<in> set (concat (take m (dht_buckets t)))"
      and n': "n' \<in> set (dht_buckets t ! m)" for n n'
    proof
      obtain i where i: "i < m" "n \<in> set (dht_buckets t ! i)"
        using n len by (auto simp: in_set_conv_nth [of _ "take m (dht_buckets t)"])
      assume "dn_node_id n = dn_node_id n'"
      then have "i = m" using idx [of i n] idx [of m n'] i n' Suc.prems by simp
      with i(1) show False by simp
    qed
    then have "dn_node_id ` set (concat (take m (dht_buckets t))) \<inter> dn_node_id ` set (dht_buckets t ! m) = {}"
      by auto
    moreover have "distinct (map dn_node_id (dht_buckets t ! m))"
      using assms Suc.prems by (simp add: dht_inv_def)
    ultimately show ?case
      using Suc by (simp add: take_Suc_conv_app_nth [OF len])
  qed simp
  from this [of 256] show ?thesis using assms by (simp add: dht_inv_def)
qed

datatype dht_op = AddOp node_id sock_addr u64 | CleanupOp u64 u64

text \<open>A clean-up that panics ends the process; the table before it is kept.\<close>

fun dht_step :: "dht_op \<Rightarrow> dht \<Rightarrow> dht" where
  "dht_step (AddOp k a now) t = add_or_update k a now t"
| "dht_step (CleanupOp now timeout) t = (case dht_cleanup now timeout t of None \<Rightarrow> t | Some t' \<Rightarrow> t')"

interpretation table: step_system "dht_new our" dht_step dht_inv for our
proof unfold_locales
  show "dht_inv (dht_new our)" by (simp add: dht_inv_def dht_new_def K_BUCKETS_def)
  show "dht_inv (dht_step x t)" if "dht_inv t" for x t
    using that by (cases x) (auto simp: add_or_update_inv cleanup_inv split: option.split)
qed

lemma step_our_id: "dht_our_id (dht_step x t) = dht_our_id t"
  by (cases x) (auto simp: add_or_update_def Let_def dht_cleanup_def split: option.splits)

lemma run_our_id: "dht_our_id (fold dht_step ops t) = dht_our_id t"
  by (induction ops arbitrary: t) (simp_all add: step_our_id)

lemma add_or_update_bucket:
  assumes "dht_inv t" and "k \<noteq> dht_our_id t" and "i = dht_bucket_index (dht_distance (dht_our_id t) k)"
  shows "dht_buckets (add_or_update k a now t) = (dht_buckets t)[i := add_to_bucket k a now (dht_buckets t ! i)]"
    and "i < length (dht_buckets t)" and "length (dht_buckets t ! i) \<le> 8"
  using assms dht_bucket_index_less [of "dht_distance (dht_our_id t) k"]
  by (simp_all add: add_or_update_def Let_def dht_inv_def)

lemma add_or_update_mem:
  assumes "dht_inv t" and "k \<noteq> dht_our_id t"
  shows "\<lparr>dn_node_id = k, dn_addr = a, dn_last_seen = now\<rparr> \<in> set (concat (dht_buckets (add_or_update k a now t)))"
proof -
  note b = add_or_update_bucket [OF assms refl]
  from add_to_bucket_mem [OF b(3), of k a now] set_update_memI [OF b(2)] show ?thesis
    unfolding b(1) set_concat by blast
qed

lemma add_or_update_keeps:
  assumes "dht_inv t" and "m \<in> set (concat (dht_buckets t))" and "dn_node_id m \<noteq> k"
    and i: "i = dht_bucket_index (dht_distance (dht_our_id t) k)"
  shows "m \<in> set (concat (dht_buckets (add_or_update k a now t)))
    \<or> m \<in> set (dht_buckets t ! i) \<and> length (dht_buckets t ! i) = 8
      \<and> (\<forall>n \<in> set (dht_buckets t ! i). dn_node_id n \<noteq> k \<and> dn_last_seen m \<le> dn_last_seen n)"
proof (cases "k = dht_our_id t")
  case True
  with assms(2) show ?thesis by (simp add: add_or_update_def)
next
  case False
  note b = add_or_update_bucket [OF assms(1) False i]
  from assms(2) obtain j where j: "j < length (dht_buckets t)" "m \<in> set (dht_buckets t ! j)"
    by (metis UN_E in_set_conv_nth set_concat)
  have mem: "m \<in> set (concat bs)" if "j < length bs" "m \<in> set (bs ! j)" for bs
    using that nth_mem [OF that(1)] by auto
  show ?thesis
  proof (cases "j = i")
    case True
    then show ?thesis
      using add_to_bucket_keeps [OF b(3) _ assms(3), of a now] j mem [of "dht_buckets (add_or_update k a now t)"]
      by (auto simp: b(1) simp del: set_concat)
  next
    case False
    with j mem [of "dht_buckets (add_or_update k a now t)"] show ?thesis
      by (simp add: b(1) del: set_concat)
  qed
qed

text \<open>
  C29. The routing table stays well formed: after any sequence of insertions and clean-ups from the empty
  table, there are 256 buckets of at most 8 nodes; every stored node lies in the bucket of its distance
  from the own identifier and nowhere else, no identifier is stored twice, and the own identifier is
  never stored. A node that was just added or seen again is in the table with its new address and
  time, unless it is the own one. Every other node stays as it was, unless a new
  identifier falls into its bucket, which has 8 nodes already and none that is older.
\<close>

theorem dht_wellformed:
  assumes "t = fold dht_step ops (dht_new our)"
  shows "length (dht_buckets t) = 256 \<and> list_all (\<lambda>b. length b \<le> 8) (dht_buckets t)
    \<and> distinct (map dn_node_id (concat (dht_buckets t)))
    \<and> (i < 256 \<and> n \<in> set (dht_buckets t ! i) \<longrightarrow>
         dn_node_id n \<noteq> our \<and> dht_bucket_index (dht_distance our (dn_node_id n)) = i)
    \<and> (k \<noteq> our \<longrightarrow> \<lparr>dn_node_id = k, dn_addr = a, dn_last_seen = now\<rparr>
         \<in> set (concat (dht_buckets (add_or_update k a now t))))
    \<and> (m \<in> set (concat (dht_buckets t)) \<and> dn_node_id m \<noteq> k \<longrightarrow>
         m \<in> set (concat (dht_buckets (add_or_update k a now t)))
         \<or> (let b = dht_buckets t ! dht_bucket_index (dht_distance our k) in
             m \<in> set b \<and> length b = 8 \<and> (\<forall>n \<in> set b. dn_node_id n \<noteq> k \<and> dn_last_seen m \<le> dn_last_seen n)))"
proof -
  have inv: "dht_inv t" unfolding assms by (rule table.run_init_inv)
  have our: "dht_our_id t = our" by (simp add: assms run_our_id dht_new_def)
  have len: "length (dht_buckets t) = 256" using inv by (simp add: dht_inv_def)
  have nodes: "dn_node_id n \<noteq> our \<and> dht_bucket_index (dht_distance our (dn_node_id n)) = i"
    if "i < 256" "n \<in> set (dht_buckets t ! i)" for i n
    using inv that unfolding dht_inv_def our by blast
  have "list_all (\<lambda>b. length b \<le> 8) (dht_buckets t)"
    using inv by (auto simp: dht_inv_def list_all_length)
  moreover have "distinct (map dn_node_id (concat (dht_buckets t)))"
    by (rule distinct_ids_concat [OF inv])
  moreover have "\<lparr>dn_node_id = k, dn_addr = a, dn_last_seen = now\<rparr> \<in> set (concat (dht_buckets (add_or_update k a now t)))"
    if "k \<noteq> our"
    using add_or_update_mem [OF inv, of k a now] that unfolding our by blast
  moreover have "m \<in> set (concat (dht_buckets (add_or_update k a now t)))
         \<or> (let b = dht_buckets t ! dht_bucket_index (dht_distance our k) in
             m \<in> set b \<and> length b = 8 \<and> (\<forall>n \<in> set b. dn_node_id n \<noteq> k \<and> dn_last_seen m \<le> dn_last_seen n))"
    if "m \<in> set (concat (dht_buckets t)) \<and> dn_node_id m \<noteq> k"
    using add_or_update_keeps [OF inv _ _ refl, of m k a now] that unfolding our Let_def by blast
  ultimately show ?thesis using len nodes by blast
qed

theorem dht_wellformed_witness:
  "distinct (map dn_node_id (concat (dht_buckets
     (fold dht_step [AddOp (1 # replicate 31 0) ([], 1) 5, CleanupOp 9 3] (dht_new (replicate 32 0))))))"
  by (rule conjunct1 [OF conjunct2 [OF conjunct2 [OF dht_wellformed [OF refl]]]])

section \<open>Searching\<close>

definition live_bucket :: "dht_node list list \<Rightarrow> u64 \<Rightarrow> u64 \<Rightarrow> nat \<Rightarrow> dht_node list" where
  "live_bucket bs now timeout i = filter (live now timeout) (bs ! i)"

definition live_range :: "dht_node list list \<Rightarrow> u64 \<Rightarrow> u64 \<Rightarrow> nat \<Rightarrow> nat \<Rightarrow> dht_node list" where
  "live_range bs now timeout lo hi = concat (map (live_bucket bs now timeout) [lo ..< hi])"

lemma live_range_all: "live_range bs now timeout 0 (length bs) = filter (live now timeout) (concat bs)"
proof -
  have "map (live_bucket bs now timeout) [0 ..< length bs] = map (filter (live now timeout)) bs"
    by (rule nth_equalityI) (simp_all add: live_bucket_def)
  then show ?thesis by (simp add: live_range_def filter_concat)
qed

lemma live_range_split:
  "lo \<le> m \<Longrightarrow> m \<le> hi \<Longrightarrow>
     live_range bs now timeout lo hi = live_range bs now timeout lo m @ live_range bs now timeout m hi"
proof -
  assume "lo \<le> m" and "m \<le> hi"
  then have "[lo ..< hi] = [lo ..< m] @ [m ..< hi]" by (metis le_Suc_ex upt_add_eq_append)
  then show ?thesis by (simp add: live_range_def)
qed

lemma collect_left_Some:
  assumes "list_all (seen_by now) bs" and "left < int (length bs)" and "- 1 \<le> left"
    and "mset closest = mset (live_range bs now timeout (nat (left + 1)) hi)" and "nat (left + 1) \<le> hi"
  obtains left' c where "collect_left bs now timeout left closest = Some (left', c)"
    and "- 1 \<le> left'" and "left' \<le> left" and "0 \<le> left \<Longrightarrow> left' < left"
    and "mset c = mset (live_range bs now timeout (nat (left' + 1)) hi)"
proof (cases "0 \<le> left")
  case True
  then have n: "nat (left + 1) = Suc (nat left)" by simp
  have "seen_by now (bs ! nat left)" using assms(1,2) True by (simp add: list_all_length)
  then have "collect_left bs now timeout left closest = Some (left - 1, closest @ live_bucket bs now timeout (nat left))"
    using True by (simp add: collect_left_def filter_alive_eq live_bucket_def)
  moreover have "live_range bs now timeout (nat left) hi
      = live_bucket bs now timeout (nat left) @ live_range bs now timeout (Suc (nat left)) hi"
    using assms(5) n by (simp add: live_range_def upt_conv_Cons)
  ultimately show ?thesis using that [of "left - 1"] assms(4) True n by simp
next
  case False
  then show ?thesis using that [of left closest] assms by (simp add: collect_left_def)
qed

lemma collect_right_Some:
  assumes "list_all (seen_by now) bs" and "length bs = 256" and "0 \<le> right" and "right \<le> 256"
    and "mset closest = mset (live_range bs now timeout lo (nat right))" and "lo \<le> nat right"
  obtains right' c where "collect_right bs now timeout right closest = Some (right', c)"
    and "right' \<le> 256" and "right \<le> right'" and "right < 256 \<Longrightarrow> right < right'"
    and "mset c = mset (live_range bs now timeout lo (nat right'))"
proof (cases "right < 256")
  case True
  have "seen_by now (bs ! nat right)" using assms(1-3) True by (simp add: list_all_length)
  then have "collect_right bs now timeout right closest = Some (right + 1, closest @ live_bucket bs now timeout (nat right))"
    using True by (simp add: collect_right_def filter_alive_eq live_bucket_def K_BUCKETS_def)
  moreover have "nat (right + 1) = Suc (nat right)" using assms(3) by simp
  moreover have "live_range bs now timeout lo (Suc (nat right))
      = live_range bs now timeout lo (nat right) @ live_bucket bs now timeout (nat right)"
    using assms(6) by (simp add: live_range_def)
  ultimately show ?thesis using that [of "right + 1"] assms(5) True by simp
next
  case False
  then show ?thesis using that [of right closest] assms by (simp add: collect_right_def K_BUCKETS_def)
qed

lemma closest_loop_Some:
  assumes "list_all (seen_by now) bs" and "length bs = 256"
    and "- 1 \<le> left" and "left < right" and "right \<le> 256"
    and "mset closest = mset (live_range bs now timeout (nat (left + 1)) (nat right))"
  shows "\<exists>out lo hi. closest_loop bs k now timeout left right closest = Some out
    \<and> mset out = mset (live_range bs now timeout lo hi) \<and> lo \<le> hi \<and> hi \<le> 256
    \<and> (k \<le> length out \<or> lo = 0 \<and> hi = 256)"
  using assms
proof (induction bs k now timeout left right closest rule: closest_loop.induct)
  case (1 bs k now timeout left right closest)
  show ?case
  proof (cases "length closest < k \<and> (0 \<le> left \<or> right < int K_BUCKETS)")
    case False
    then have "closest_loop bs k now timeout left right closest = Some closest"
      by (subst closest_loop.simps) (simp only: if_False)
    moreover have "k \<le> length closest \<or> nat (left + 1) = 0 \<and> nat right = 256"
      using False "1.prems"(3,5) by (auto simp: K_BUCKETS_def)
    moreover have "nat (left + 1) \<le> nat right" "nat right \<le> 256" using "1.prems" by simp_all
    ultimately show ?thesis using "1.prems"(6) by blast
  next
    case True
    have lo: "nat (left + 1) \<le> nat right" using "1.prems"(4) by simp
    have "left < int (length bs)" using "1.prems" by simp
    then obtain left' c1 where l: "collect_left bs now timeout left closest = Some (left', c1)"
        "- 1 \<le> left'" "left' \<le> left" "0 \<le> left \<Longrightarrow> left' < left"
        "mset c1 = mset (live_range bs now timeout (nat (left' + 1)) (nat right))"
      using collect_left_Some [OF "1.prems"(1) _ "1.prems"(3,6) lo] by blast
    have "nat (left' + 1) \<le> nat right" "0 \<le> right" using l(3) "1.prems"(3,4) by simp_all
    then obtain right' c2 where r: "collect_right bs now timeout right c1 = Some (right', c2)"
        "right' \<le> 256" "right \<le> right'" "right < 256 \<Longrightarrow> right < right'"
        "mset c2 = mset (live_range bs now timeout (nat (left' + 1)) (nat right'))"
      using collect_right_Some [OF "1.prems"(1,2) _ "1.prems"(5) l(5)] by blast
    have "closest_loop bs k now timeout left right closest = closest_loop bs k now timeout left' right' c2"
      using True l(1) r(1) by (subst closest_loop.simps) simp
    moreover have "left' < right'" using l(3) r(3) "1.prems"(4) by simp
    ultimately show ?thesis
      using "1.IH" [OF True l(1) refl r(1) refl "1.prems"(1,2) l(2) _ r(2,5)] by simp
  qed
qed

lemma distinct_map_mset: "distinct (map f xs) \<Longrightarrow> mset xs = mset ys \<Longrightarrow> distinct (map f ys)"
  by (metis mset_eq_imp_distinct_iff mset_map)

text \<open>The loop collects a part of the live nodes that is large enough, or all of them.\<close>

lemma closest_loop_collects:
  assumes inv: "dht_inv t" and seen: "list_all (seen_by now) (dht_buckets t)" and i: "i < 256"
  obtains out rest where "closest_loop (dht_buckets t) k now timeout (int i) (int i + 1) [] = Some out"
    and "mset (filter (live now timeout) (concat (dht_buckets t))) = mset (out @ rest)"
    and "k \<le> length out \<or> rest = []"
proof -
  let ?live = "live_range (dht_buckets t) now timeout"
  have len: "length (dht_buckets t) = 256" using inv by (simp add: dht_inv_def)
  have "mset [] = mset (?live (nat (int i + 1)) (nat (int i + 1)))" by (simp add: live_range_def)
  with closest_loop_Some [OF seen len _ _ _ this, of k]
  obtain out lo hi where out: "closest_loop (dht_buckets t) k now timeout (int i) (int i + 1) [] = Some out"
      "mset out = mset (?live lo hi)" "lo \<le> hi" "hi \<le> 256" "k \<le> length out \<or> lo = 0 \<and> hi = 256"
    using i by auto
  have "filter (live now timeout) (concat (dht_buckets t)) = ?live 0 lo @ ?live lo hi @ ?live hi 256"
    using live_range_all [of "dht_buckets t" now timeout] out(3,4) len
      live_range_split [of 0 lo 256] live_range_split [of lo hi 256] by simp
  then have "mset (filter (live now timeout) (concat (dht_buckets t))) = mset (out @ ?live 0 lo @ ?live hi 256)"
    using out(2) by simp
  moreover have "k \<le> length out \<or> ?live 0 lo @ ?live hi 256 = []" using out(5) by (auto simp: live_range_def)
  ultimately show thesis using that out(1) by blast
qed

lemma take_sort_part:
  assumes all: "mset all = mset (out @ rest)" and enough: "k \<le> length out \<or> rest = []"
    and dist: "distinct (map f all)"
  shows "length (take k (sort_key key out)) = min k (length all)"
    and "set (take k (sort_key key out)) \<subseteq> set all"
    and "distinct (map f (take k (sort_key key out)))"
    and "sorted (map key (take k (sort_key key out)))"
proof -
  have "length all = length (out @ rest)" using all by (metis size_mset)
  then show "length (take k (sort_key key out)) = min k (length all)" using enough by auto
  have "set out \<subseteq> set all" using all by (metis Un_upper1 set_append set_mset_mset)
  moreover have "set (take k (sort_key key out)) \<subseteq> set out" by (metis set_sort set_take_subset)
  ultimately show "set (take k (sort_key key out)) \<subseteq> set all" by (rule subset_trans [rotated])
  have "distinct (map f (out @ rest))" using dist by (rule distinct_map_mset) (simp add: all)
  then have "distinct (map f out)" by simp
  then have "distinct (map f (sort_key key out))" by (rule distinct_map_mset) simp
  then have "distinct (take k (map f (sort_key key out)))" by (rule distinct_take)
  then show "distinct (map f (take k (sort_key key out)))" by (simp only: take_map)
  show "sorted (map key (take k (sort_key key out)))" by (simp add: sorted_wrt_take flip: take_map)
qed

lemma find_closest_core:
  assumes inv: "dht_inv t" and seen: "list_all (seen_by now) (dht_buckets t)"
  shows "\<exists>ns. find_closest t target k now timeout = Some ns
    \<and> length ns = min k (length (filter (live now timeout) (concat (dht_buckets t))))
    \<and> set ns \<subseteq> set (filter (live now timeout) (concat (dht_buckets t)))
    \<and> distinct (map dn_node_id ns)
    \<and> sorted (map (\<lambda>n. u256_from_bytes (dht_distance (dn_node_id n) target)) ns)"
proof -
  let ?i = "dht_bucket_index (dht_distance target (dht_our_id t))"
  obtain out rest where out: "closest_loop (dht_buckets t) k now timeout (int ?i) (int ?i + 1) [] = Some out"
      and all: "mset (filter (live now timeout) (concat (dht_buckets t))) = mset (out @ rest)"
      and enough: "k \<le> length out \<or> rest = []"
    by (rule closest_loop_collects [OF inv seen dht_bucket_index_less])
  have "distinct (map dn_node_id (filter (live now timeout) (concat (dht_buckets t))))"
    using distinct_ids_concat [OF inv] by (rule distinct_map_filter)
  note part = take_sort_part [OF all enough this]
  have "find_closest t target k now timeout =
      Some (take k (sort_key (\<lambda>n. u256_from_bytes (dht_distance (dn_node_id n) target)) out))"
    using out by (simp add: find_closest_def Let_def)
  with part [of "\<lambda>n. u256_from_bytes (dht_distance (dn_node_id n) target)"] show ?thesis by blast
qed

text \<open>
  C34. The search for close nodes is total. In every reachable table whose nodes were all last seen
  at or before \<open>now\<close>, the loop of \<open>find_closest\<close> ends without a panic and the result consists of live nodes
  of the table, none twice, sorted by their distance from the target, and exactly as many as asked
  for, or all live nodes when there are fewer.
\<close>

theorem find_closest_total:
  assumes "t = fold dht_step ops (dht_new our)" and "list_all (seen_by now) (dht_buckets t)"
  shows "\<exists>ns. find_closest t target k now timeout = Some ns
    \<and> length ns = min k (length (filter (live now timeout) (concat (dht_buckets t))))
    \<and> set ns \<subseteq> set (filter (live now timeout) (concat (dht_buckets t)))
    \<and> distinct (map dn_node_id ns)
    \<and> sorted (map (\<lambda>n. u256_from_bytes (dht_distance (dn_node_id n) target)) ns)"
  using table.run_init_inv [of ops our] assms by (intro find_closest_core) simp_all

definition far_node :: dht_node where
  "far_node = \<lparr>dn_node_id = 2 # replicate 31 0, dn_addr = ([], 1), dn_last_seen = 0\<rparr>"

lemma far_node_added:
  "dht_buckets (fold dht_step [AddOp (dn_node_id far_node) (dn_addr far_node) 0] (dht_new (replicate 32 0))) =
     (replicate 256 [])[1 := [far_node]]"
proof -
  have d: "dht_distance (replicate 32 0) (2 # replicate 31 0) = 2 # replicate 31 0"
    by (simp add: dht_distance_def numeral_eq_Suc)
  have "leading_zeros 2 = 6" by (simp add: leading_zeros_def upt_rec)
  then have i: "dht_bucket_index (2 # replicate 31 0) = 1"
    by (simp add: dht_bucket_index_def K_BUCKETS_def)
  have "(2 :: u8) # replicate 31 0 \<noteq> replicate 32 0" by (simp add: numeral_eq_Suc)
  then show ?thesis
    by (simp add: add_or_update_def dht_new_def d i Let_def K_BUCKETS_def add_to_bucket_def far_node_def K_def)
qed

theorem find_closest_total_witness:
  "\<exists>ns. find_closest (fold dht_step [AddOp (dn_node_id far_node) (dn_addr far_node) 0] (dht_new (replicate 32 0)))
     (replicate 32 1) 3 9 20 = Some ns \<and> length ns = 1"
proof -
  let ?t = "fold dht_step [AddOp (dn_node_id far_node) (dn_addr far_node) 0] (dht_new (replicate 32 0))"
  have "concat ((replicate 256 [])[1 := [far_node]]) = [far_node]"
    by (simp add: numeral_eq_Suc)
  then have "filter (live 9 20) (concat (dht_buckets ?t)) = [far_node]"
    by (simp only: far_node_added) (simp add: live_def far_node_def)
  moreover have "list_all (seen_by 9) ((replicate 256 [])[1 := [far_node]])"
    by (simp add: list_all_length nth_list_update seen_by_def far_node_def)
  then have "list_all (seen_by 9) (dht_buckets ?t)" by (simp only: far_node_added)
  ultimately show ?thesis
    using find_closest_total [OF refl, of 9 "[AddOp (dn_node_id far_node) (dn_addr far_node) 0]" "replicate 32 0"
        "replicate 32 1" 3 20]
    by auto
qed

text \<open>
  The result need not be the closest: \<open>bucket_index\<close> counts bytes from the left but bits from the right,
  so neighbouring buckets are not neighbours in distance. With one node asked for, the search stops at
  the node with first byte 2, while the node with first byte 0 is closer to the target with first byte 1.
\<close>

definition near_node :: dht_node where
  "near_node = \<lparr>dn_node_id = 0 # 1 # replicate 30 0, dn_addr = ([], 2), dn_last_seen = 0\<rparr>"

definition skewed_table :: dht where
  "skewed_table = \<lparr>dht_buckets = (replicate 256 [])[1 := [far_node], 8 := [near_node]], dht_our_id = replicate 32 0\<rparr>"

lemma find_closest_not_closest:
  assumes "target = 1 # replicate 31 0"
  shows "find_closest skewed_table target 1 0 5 = Some [far_node]"
    and "dht_distance (dn_node_id near_node) target < dht_distance (dn_node_id far_node) target"
proof -
  have z: "leading_zeros 1 = 7" by (simp add: leading_zeros_def upt_rec)
  have d: "dht_distance target (dht_our_id skewed_table) = 1 # replicate 31 0"
    by (simp add: assms dht_distance_def skewed_table_def numeral_eq_Suc)
  have i: "dht_bucket_index (dht_distance target (dht_our_id skewed_table)) = 0"
    by (simp add: d dht_bucket_index_def z K_BUCKETS_def)
  have b: "dht_buckets skewed_table ! 0 = []" "dht_buckets skewed_table ! 1 = [far_node]"
    by (simp_all add: skewed_table_def)
  have "filter_alive 0 5 [far_node] = Some [far_node]"
    by (simp add: filter_alive_eq seen_by_def live_def far_node_def)
  then have "closest_loop (dht_buckets skewed_table) 1 0 5 0 1 [] = Some [far_node]"
    using b by (subst closest_loop.simps)
      (simp add: collect_left_def collect_right_def K_BUCKETS_def closest_loop.simps [of _ _ _ _ _ _ "[far_node]"])
  then show "find_closest skewed_table target 1 0 5 = Some [far_node]"
    by (simp add: find_closest_def i)
  show "dht_distance (dn_node_id near_node) target < dht_distance (dn_node_id far_node) target"
    by (simp add: assms dht_distance_def near_node_def far_node_def)
qed

text \<open>A node seen after \<open>now\<close> makes the live-node filter, and so every query, panic.\<close>

lemma future_node_panics:
  assumes "n \<in> set (concat (dht_buckets t))" and "now < dn_last_seen n"
  shows "alive_nodes t now timeout = None \<and> random_nodes shuffle t k now timeout = None"
proof -
  have "\<not> seen_by now (concat (dht_buckets t))"
    using assms unfolding seen_by_def list_all_iff by (meson not_le)
  then show ?thesis by (simp add: alive_nodes_def random_nodes_def filter_alive_eq)
qed

end
