(* ===== verification/Bloom.thy ===== *)
theory Bloom
  imports Prelude
begin

unbundle bit_operations_syntax

text \<open>
  \<open>crates/aevum-db/src/bloom.rs\<close>: the filter that says which keys an SST file may hold. The bit
  vector is a list of 64-bit words. Parameters: \<open>hash_key\<close>, the FxHash of a seed and a key (crate
  \<open>rustc_hash\<close>), and in \<open>bloom_new\<close> the number of hash functions that the floating-point
  estimate of the source gives, before it is clamped to 1..32: nothing below depends on its value.

  The lemmas: \<open>may_contain\<close> after any insertions is exactly the set-level statement that all probe
  positions of the key were set by some inserted key, so no inserted key is ever missed; the byte
  form is decoded to the same filter, and decoding accepts exactly the well-formed lengths.
\<close>

section \<open>The filter\<close>

record bloom_filter =
  bf_bits :: "u64 list"
  bf_num_hashes :: u32
  bf_count :: nat

definition clamp_hashes :: "u32 \<Rightarrow> u32" where
  "clamp_hashes n = min (max n 1) 32"

definition bloom_new :: "u32 \<Rightarrow> nat \<Rightarrow> u32 \<Rightarrow> bloom_filter option" where
  "bloom_new estimated_hashes expected_keys bits_per_key =
     (let product = expected_keys * unat (max bits_per_key 1) in
      if USIZE_MAX < product then None
      else let bits = max product 64 in
        if USIZE_MAX < bits + 63 then None
        else Some \<lparr>bf_bits = replicate ((bits + 63) div 64) 0,
                   bf_num_hashes = clamp_hashes estimated_hashes, bf_count = 0\<rparr>)"

definition from_raw :: "u64 list \<Rightarrow> u32 \<Rightarrow> bloom_filter" where
  "from_raw bits num_hashes =
     \<lparr>bf_bits = (if bits = [] then [0] else bits), bf_num_hashes = clamp_hashes num_hashes, bf_count = 0\<rparr>"

definition double_hash :: "('k \<Rightarrow> u64 \<Rightarrow> u64) \<Rightarrow> 'k \<Rightarrow> u64 \<times> u64" where
  "double_hash hash_key key = (hash_key key 0x5bd1e995, hash_key key 0xc6a4a793 OR 1)"

definition bit_index :: "nat \<Rightarrow> u64 \<Rightarrow> u64 \<Rightarrow> u32 \<Rightarrow> nat" where
  "bit_index words h1 h2 i = unat (h1 + ucast i * h2) mod (words * 64)"

definition set_bit_at :: "nat \<Rightarrow> u64 list \<Rightarrow> u64 list" where
  "set_bit_at idx bits = bits[idx div 64 := bits ! (idx div 64) OR push_bit (idx mod 64) 1]"

definition bloom_add :: "('k \<Rightarrow> u64 \<Rightarrow> u64) \<Rightarrow> 'k \<Rightarrow> bloom_filter \<Rightarrow> bloom_filter" where
  "bloom_add hash_key key f =
     (if bf_bits f = [] then f
      else case double_hash hash_key key of (h1, h2) \<Rightarrow>
        f\<lparr>bf_bits := fold (\<lambda>i bits. set_bit_at (bit_index (length bits) h1 h2 (of_nat i)) bits)
              [0 ..< unat (bf_num_hashes f)] (bf_bits f),
          bf_count := bf_count f + 1\<rparr>)"

definition may_contain :: "('k \<Rightarrow> u64 \<Rightarrow> u64) \<Rightarrow> bloom_filter \<Rightarrow> 'k \<Rightarrow> bool" where
  "may_contain hash_key f key =
     (if bf_bits f = [] \<or> bf_num_hashes f = 0 then False
      else case double_hash hash_key key of (h1, h2) \<Rightarrow>
        list_all (\<lambda>i. let idx = bit_index (length (bf_bits f)) h1 h2 (of_nat i)
                      in (bf_bits f ! (idx div 64)) AND push_bit (idx mod 64) 1 \<noteq> 0)
          [0 ..< unat (bf_num_hashes f)])"

definition size_bytes :: "bloom_filter \<Rightarrow> nat" where
  "size_bytes f = length (bf_bits f) * 8"

definition bloom_to_bytes :: "bloom_filter \<Rightarrow> bytes" where
  "bloom_to_bytes f = le32 (bf_num_hashes f) @ concat (map le64 (bf_bits f))"

text \<open>The loop over the words, \<open>data[start .. start + 8]\<close> for each \<open>i\<close>.\<close>

definition word_at :: "bytes \<Rightarrow> nat \<Rightarrow> u64" where
  "word_at data i = from_le_bytes (take 8 (drop (4 + i * 8) data))"

definition bloom_from_bytes :: "bytes \<Rightarrow> bloom_filter option" where
  "bloom_from_bytes data =
     (if length data < 8 then None
      else let num_hashes = from_le_bytes (take 4 data); words = (length data - 4) div 8 in
        if words = 0 then None
        else if (length data - 4) mod 8 \<noteq> 0 then None
        else if list_ex (\<lambda>i. length data < 4 + i * 8 + 8) [0 ..< words] then None
        else Some \<lparr>bf_bits = map (word_at data) [0 ..< words],
                   bf_num_hashes = clamp_hashes num_hashes, bf_count = 0\<rparr>)"

section \<open>The set of bits\<close>

definition bits_set :: "u64 list \<Rightarrow> nat set" where
  "bits_set bits = {p. p < length bits * 64 \<and> bit (bits ! (p div 64)) (p mod 64)}"

definition probe_positions :: "('k \<Rightarrow> u64 \<Rightarrow> u64) \<Rightarrow> bloom_filter \<Rightarrow> 'k \<Rightarrow> nat set" where
  "probe_positions hash_key f key =
     (case double_hash hash_key key of (h1, h2) \<Rightarrow>
       (\<lambda>i. bit_index (length (bf_bits f)) h1 h2 (of_nat i)) ` {0 ..< unat (bf_num_hashes f)})"

definition bloom_wf :: "bloom_filter \<Rightarrow> bool" where
  "bloom_wf f \<longleftrightarrow> bf_bits f \<noteq> [] \<and> 1 \<le> bf_num_hashes f \<and> bf_num_hashes f \<le> 32"

lemma clamp_hashes_range: "1 \<le> clamp_hashes n \<and> clamp_hashes n \<le> 32"
  by (auto simp: clamp_hashes_def min_def max_def)

lemma clamp_hashes_idem: "1 \<le> n \<Longrightarrow> n \<le> 32 \<Longrightarrow> clamp_hashes n = n"
  by (simp add: clamp_hashes_def)

lemma length_set_bit_at [simp]: "length (set_bit_at idx bits) = length bits"
  by (simp add: set_bit_at_def)

lemma bits_set_set_bit_at:
  assumes "idx < length bits * 64"
  shows "bits_set (set_bit_at idx bits) = insert idx (bits_set bits)"
proof -
  have i: "idx div 64 < length bits" using assms by (simp add: less_mult_imp_div_less)
  have "p \<in> bits_set (set_bit_at idx bits) \<longleftrightarrow> p \<in> insert idx (bits_set bits)" for p
  proof (cases "p div 64 = idx div 64")
    case True
    have eq: "p mod 64 = idx mod 64 \<longleftrightarrow> p = idx" using True by (metis div_mult_mod_eq)
    have "bit (push_bit (idx mod 64) 1 :: u64) (p mod 64) \<longleftrightarrow> p mod 64 = idx mod 64"
      by (auto simp: bit_exp_iff possible_bit_word)
    with True i assms eq show ?thesis
      by (auto simp: bits_set_def set_bit_at_def bit_or_iff)
  next
    case False
    then show ?thesis by (auto simp: bits_set_def set_bit_at_def)
  qed
  then show ?thesis by blast
qed

lemma bit_index_less: "bits \<noteq> [] \<Longrightarrow> bit_index (length bits) h1 h2 i < length bits * 64"
  by (simp add: bit_index_def)

lemma fold_set_bits:
  assumes "bits \<noteq> []"
  shows "bits_set (fold (\<lambda>i bits. set_bit_at (bit_index (length bits) h1 h2 (of_nat i)) bits) is' bits)
      = (\<lambda>i. bit_index (length bits) h1 h2 (of_nat i)) ` set is' \<union> bits_set bits
    \<and> length (fold (\<lambda>i bits. set_bit_at (bit_index (length bits) h1 h2 (of_nat i)) bits) is' bits)
      = length bits"
  using assms
proof (induction is' arbitrary: bits)
  case (Cons i is')
  let ?b = "set_bit_at (bit_index (length bits) h1 h2 (of_nat i)) bits"
  have "?b \<noteq> []" using Cons.prems by (metis length_set_bit_at length_0_conv)
  from Cons.IH [OF this] show ?case
    using bits_set_set_bit_at [OF bit_index_less [OF Cons.prems]] by auto
qed simp

lemma bloom_add_sel:
  assumes "bloom_wf f"
  shows "bits_set (bf_bits (bloom_add hk k f)) = probe_positions hk f k \<union> bits_set (bf_bits f)"
    and "length (bf_bits (bloom_add hk k f)) = length (bf_bits f)"
    and "bf_num_hashes (bloom_add hk k f) = bf_num_hashes f"
    and "bf_count (bloom_add hk k f) = bf_count f + 1"
proof -
  obtain h1 h2 where h: "double_hash hk k = (h1, h2)" by fastforce
  have ne: "bf_bits f \<noteq> []" using assms by (simp add: bloom_wf_def)
  from fold_set_bits [OF this, of h1 h2 "[0 ..< unat (bf_num_hashes f)]"] ne h
  show "bits_set (bf_bits (bloom_add hk k f)) = probe_positions hk f k \<union> bits_set (bf_bits f)"
    and "length (bf_bits (bloom_add hk k f)) = length (bf_bits f)"
    by (simp_all add: bloom_add_def probe_positions_def)
  show "bf_num_hashes (bloom_add hk k f) = bf_num_hashes f"
    and "bf_count (bloom_add hk k f) = bf_count f + 1"
    using ne h by (simp_all add: bloom_add_def)
qed

lemma bloom_add_wf: "bloom_wf f \<Longrightarrow> bloom_wf (bloom_add hk k f)"
proof -
  assume w: "bloom_wf f"
  then have "length (bf_bits (bloom_add hk k f)) \<noteq> 0"
    by (simp add: bloom_add_sel(2)) (simp add: bloom_wf_def)
  with w show ?thesis by (simp add: bloom_wf_def bloom_add_sel(3) [OF w])
qed

lemma probe_positions_add: "bloom_wf f \<Longrightarrow> probe_positions hk (bloom_add hk' k' f) k = probe_positions hk f k"
  by (simp add: probe_positions_def bloom_add_sel)

lemma and_bit_nonzero: "(w :: u64) AND 2 ^ n \<noteq> 0 \<longleftrightarrow> bit w n"
  by (simp add: and_exp_eq_0_iff_not_bit)

lemma may_contain_iff:
  assumes "bloom_wf f"
  shows "may_contain hk f k \<longleftrightarrow> probe_positions hk f k \<subseteq> bits_set (bf_bits f)"
proof -
  obtain h1 h2 where h: "double_hash hk k = (h1, h2)" by fastforce
  have ne: "bf_bits f \<noteq> []" and nz: "bf_num_hashes f \<noteq> 0" using assms by (auto simp: bloom_wf_def)
  have "p \<in> bits_set (bf_bits f) \<longleftrightarrow> bf_bits f ! (p div 64) AND push_bit (p mod 64) 1 \<noteq> 0"
    if "p = bit_index (length (bf_bits f)) h1 h2 i" for p i
    using that bit_index_less [OF ne, of h1 h2 i] by (simp add: bits_set_def and_bit_nonzero)
  with ne nz h show ?thesis
    by (auto simp: may_contain_def probe_positions_def list_all_iff Let_def)
qed

lemma bloom_run:
  assumes "bloom_wf f"
  shows "bloom_wf (fold (bloom_add hk) ks f)
    \<and> bits_set (bf_bits (fold (bloom_add hk) ks f)) = (\<Union>k\<in>set ks. probe_positions hk f k) \<union> bits_set (bf_bits f)
    \<and> (\<forall>k. probe_positions hk (fold (bloom_add hk) ks f) k = probe_positions hk f k)
    \<and> bf_count (fold (bloom_add hk) ks f) = bf_count f + length ks"
  using assms
proof (induction ks arbitrary: f)
  case (Cons k ks)
  note w = Cons.prems
  show ?case
    using Cons.IH [OF bloom_add_wf [OF w, of hk k]]
    by (auto simp: bloom_add_sel(1,4) [OF w] probe_positions_add [OF w])
qed simp

text \<open>
  C31. The filter never misses a key, and says yes only when it must. After adding any keys to a filter
  of at least one word and one hash function, \<open>may_contain\<close> holds exactly for the keys whose probe
  positions were all set, before or by the added keys; so it holds for every added key, and for every
  key for which it held before.
\<close>

theorem bloom_exact:
  assumes "bloom_wf f"
  shows "(may_contain hk (fold (bloom_add hk) ks f) k \<longleftrightarrow>
       probe_positions hk f k \<subseteq> (\<Union>k'\<in>set ks. probe_positions hk f k') \<union> bits_set (bf_bits f))
    \<and> list_all (may_contain hk (fold (bloom_add hk) ks f)) ks
    \<and> (may_contain hk f k \<longrightarrow> may_contain hk (fold (bloom_add hk) ks f) k)"
proof -
  have may: "may_contain hk (fold (bloom_add hk) ks f) k \<longleftrightarrow>
      probe_positions hk f k \<subseteq> (\<Union>k'\<in>set ks. probe_positions hk f k') \<union> bits_set (bf_bits f)" for k
    using bloom_run [OF assms, of hk ks] by (simp add: may_contain_iff)
  then have "list_all (may_contain hk (fold (bloom_add hk) ks f)) ks" by (auto simp: list_all_iff)
  moreover have "may_contain hk f k \<longrightarrow> may_contain hk (fold (bloom_add hk) ks f) k"
    using may by (auto simp: may_contain_iff [OF assms])
  ultimately show ?thesis using may by blast
qed

definition sample_hash_key :: "u64 \<Rightarrow> u64 \<Rightarrow> u64" where
  "sample_hash_key key seed = key * seed + key"

theorem bloom_exact_witness:
  "may_contain sample_hash_key (fold (bloom_add sample_hash_key) [3, 4] (from_raw [] 7)) 4"
proof -
  have "bloom_wf (from_raw [] 7)" by (simp add: bloom_wf_def from_raw_def clamp_hashes_def)
  from bloom_exact [OF this]
  have "list_all (may_contain sample_hash_key (fold (bloom_add sample_hash_key) [3, 4] (from_raw [] 7))) [3, 4]"
    by (rule conjunct1 [OF conjunct2])
  then show ?thesis by simp
qed

text \<open>Every way to make a filter gives one to which the theorem applies.\<close>

lemma bloom_constructors_wf:
  "bloom_new est n b = Some f \<Longrightarrow> bloom_wf f"
  "bloom_wf (from_raw bits est)"
  "bloom_from_bytes data = Some f \<Longrightarrow> bloom_wf f"
  using clamp_hashes_range
  by (auto simp: bloom_wf_def bloom_new_def from_raw_def bloom_from_bytes_def Let_def split: if_splits)

section \<open>The byte form\<close>

lemma word_at_concat:
  assumes "length pre = 4" and "i < length ws"
  shows "word_at (pre @ concat (map le64 ws)) i = ws ! i"
proof -
  have "take 8 (drop (i * 8) (concat (map le64 ws))) = le64 (ws ! i)"
    using assms(2)
  proof (induction ws arbitrary: i)
    case (Cons w ws)
    then show ?case by (cases i) (simp_all add: add.commute)
  qed simp
  then show ?thesis using assms(1) by (simp add: word_at_def le_bytes_roundtrip)
qed

lemma length_concat_le64: "length (concat (map le64 ws)) = 8 * length ws"
  by (induction ws) simp_all

text \<open>
  Serialisation is faithful. A filter decodes from its own bytes to the same words and the same
  number of hash functions (only the insertion count restarts), so the decoded filter answers every
  query alike; and decoding accepts a byte string exactly when it is a four-byte header followed by
  a positive number of whole words.
\<close>

theorem bloom_roundtrip:
  assumes "bloom_wf f"
  shows "bloom_from_bytes (bloom_to_bytes f) = Some (f\<lparr>bf_count := 0\<rparr>)
    \<and> may_contain hk (f\<lparr>bf_count := 0\<rparr>) k = may_contain hk f k
    \<and> (bloom_from_bytes data \<noteq> None \<longleftrightarrow> 12 \<le> length data \<and> (length data - 4) mod 8 = 0)"
proof -
  have n: "clamp_hashes (from_le_bytes (le32 (bf_num_hashes f))) = bf_num_hashes f"
    using assms by (simp add: le_bytes_roundtrip clamp_hashes_idem bloom_wf_def)
  have len: "length (bloom_to_bytes f) = 4 + 8 * length (bf_bits f)"
    by (simp add: bloom_to_bytes_def length_concat_le64)
  have ne: "bf_bits f \<noteq> []" using assms by (simp add: bloom_wf_def)
  have "map (word_at (bloom_to_bytes f)) [0 ..< length (bf_bits f)] = bf_bits f"
    by (rule nth_equalityI) (simp_all add: bloom_to_bytes_def word_at_concat)
  moreover have "take 4 (bloom_to_bytes f) = le32 (bf_num_hashes f)" by (simp add: bloom_to_bytes_def)
  moreover have "\<not> list_ex (\<lambda>i. length (bloom_to_bytes f) < 4 + i * 8 + 8) [0 ..< length (bf_bits f)]"
    by (auto simp: list_ex_iff len)
  ultimately have "bloom_from_bytes (bloom_to_bytes f) = Some (f\<lparr>bf_count := 0\<rparr>)"
    using ne by (simp add: bloom_from_bytes_def len n Let_def)
  moreover have "bloom_from_bytes data \<noteq> None \<longleftrightarrow> 12 \<le> length data \<and> (length data - 4) mod 8 = 0"
  proof -
    have "\<not> list_ex (\<lambda>i. length data < 4 + i * 8 + 8) [0 ..< (length data - 4) div 8]"
      by (auto simp: list_ex_iff)
    then show ?thesis by (auto simp: bloom_from_bytes_def Let_def div_eq_0_iff)
  qed
  moreover have "may_contain hk (f\<lparr>bf_count := 0\<rparr>) k = may_contain hk f k"
    by (simp add: may_contain_def)
  ultimately show ?thesis by blast
qed

theorem bloom_roundtrip_witness:
  "bloom_from_bytes (bloom_to_bytes (from_raw [5, 6] 7)) = Some (from_raw [5, 6] 7)"
proof -
  have "bloom_wf (from_raw [5, 6] 7)" by (rule bloom_constructors_wf)
  from bloom_roundtrip [OF this] show ?thesis by (simp add: from_raw_def)
qed

end
