(* ===== verification/Db_Error.thy ===== *)
theory Db_Error
  imports Prelude
begin

text \<open>
  \<open>crates/aevum-db/src/error.rs\<close>: the errors of the database, their numeric codes, severity, retry
  delay, constructors, conversions and text form. A path and an I/O error enter with the text that
  \<open>display()\<close> prints; \<open>hex::encode\<close> and BLAKE3 are parameters. Durations are in milliseconds.

  The lemmas: the codes are distinct; the text form starts with the code, so the code can be read back
  from it; severity, code range and retry delay fit together, with the exceptions written out.
\<close>

section \<open>Codes\<close>

datatype error_code =
    EcIoGeneric
  | EcIoDiskFull
  | EcIoPermissionDenied
  | EcIoLocked
  | EcIoDirectoryNotFound
  | EcSequenceOverflow
  | EcCompactionBackpressure
  | EcCorruptionWal
  | EcCorruptionSstable
  | EcCorruptionMemtable
  | EcCorruptionManifest
  | EcManifestVersionMismatch
  | EcIntegrityViolation
  | EcChecksumMismatch
  | EcWalSegmentMissing
  | EcSstableTruncated
  | EcCompactionCorrupted
  | EcRecoveryFailed
  | EcRecoveryPartial
  | EcNotFound
  | EcAlreadyOpen
  | EcClosed
  | EcInvalidKey
  | EcInvalidValue
  | EcBatchTooLarge
  | EcSnapshotExpired
  | EcUtxoSpent
  | EcUtxoInvalid
  | EcConfigInvalid
  | EcCacheFull
  | EcSerialization
  | EcCrypto
  | EcInternal

fun code_num :: "error_code \<Rightarrow> nat" where
  "code_num EcIoGeneric = 1000"
| "code_num EcIoDiskFull = 1001"
| "code_num EcIoPermissionDenied = 1002"
| "code_num EcIoLocked = 1003"
| "code_num EcIoDirectoryNotFound = 1004"
| "code_num EcSequenceOverflow = 1006"
| "code_num EcCompactionBackpressure = 1005"
| "code_num EcCorruptionWal = 2000"
| "code_num EcCorruptionSstable = 2001"
| "code_num EcCorruptionMemtable = 2002"
| "code_num EcCorruptionManifest = 2003"
| "code_num EcManifestVersionMismatch = 2004"
| "code_num EcIntegrityViolation = 2005"
| "code_num EcChecksumMismatch = 2006"
| "code_num EcWalSegmentMissing = 2007"
| "code_num EcSstableTruncated = 2008"
| "code_num EcCompactionCorrupted = 2009"
| "code_num EcRecoveryFailed = 2010"
| "code_num EcRecoveryPartial = 2011"
| "code_num EcNotFound = 3000"
| "code_num EcAlreadyOpen = 3001"
| "code_num EcClosed = 3002"
| "code_num EcInvalidKey = 3003"
| "code_num EcInvalidValue = 3004"
| "code_num EcBatchTooLarge = 3005"
| "code_num EcSnapshotExpired = 3006"
| "code_num EcUtxoSpent = 3007"
| "code_num EcUtxoInvalid = 3008"
| "code_num EcConfigInvalid = 4000"
| "code_num EcCacheFull = 4006"
| "code_num EcSerialization = 5000"
| "code_num EcCrypto = 5001"
| "code_num EcInternal = 5002"

datatype severity = Fatal | Recoverable | User

section \<open>Errors\<close>

datatype io_kind = IoNotFound | IoPermissionDenied | IoOther

record io_error =
  io_kind :: io_kind
  io_text :: string

type_synonym path = string

datatype db_error =
    Io error_code io_error "path option" string
  | DiskFull path u64 u64
  | PermissionDenied path string
  | Locked path "u32 option"
  | DirectoryNotFound path
  | CompactionBackpressure nat nat
  | WalCorrupted u64 u64 bytes bytes
  | SstableCorrupted path u64 bytes bytes
  | MemtableCorrupted string
  | ManifestCorrupted path string
  | ManifestVersionMismatch path u32 u32
  | Integrity string
  | ChecksumMismatch path u64 bytes bytes
  | WalSegmentMissing u64
  | SstableTruncated path u64 u64
  | CompactionCorrupted path string
  | RecoveryFailed string
  | RecoveryPartial nat nat
  | NotFound bytes nat
  | AlreadyOpen path "u32 option"
  | Closed
  | SequenceOverflow
  | InvalidKey string nat
  | InvalidValue string nat
  | BatchTooLarge nat nat
  | SnapshotExpired u64 u64
  | UtxoSpent bytes u32
  | UtxoInvalid string
  | Config string
  | CacheFull nat nat
  | Serialization string
  | Crypto string
  | Internal u32 string

fun error_code_of :: "db_error \<Rightarrow> error_code" where
  "error_code_of (Io code _ _ _) = code"
| "error_code_of (DiskFull _ _ _) = EcIoDiskFull"
| "error_code_of (PermissionDenied _ _) = EcIoPermissionDenied"
| "error_code_of (Locked _ _) = EcIoLocked"
| "error_code_of (DirectoryNotFound _) = EcIoDirectoryNotFound"
| "error_code_of (CompactionBackpressure _ _) = EcCompactionBackpressure"
| "error_code_of (WalCorrupted _ _ _ _) = EcCorruptionWal"
| "error_code_of (SstableCorrupted _ _ _ _) = EcCorruptionSstable"
| "error_code_of (MemtableCorrupted _) = EcCorruptionMemtable"
| "error_code_of (ManifestCorrupted _ _) = EcCorruptionManifest"
| "error_code_of (ManifestVersionMismatch _ _ _) = EcManifestVersionMismatch"
| "error_code_of (Integrity _) = EcIntegrityViolation"
| "error_code_of (ChecksumMismatch _ _ _ _) = EcChecksumMismatch"
| "error_code_of (WalSegmentMissing _) = EcWalSegmentMissing"
| "error_code_of (SstableTruncated _ _ _) = EcSstableTruncated"
| "error_code_of (CompactionCorrupted _ _) = EcCompactionCorrupted"
| "error_code_of (RecoveryFailed _) = EcRecoveryFailed"
| "error_code_of (RecoveryPartial _ _) = EcRecoveryPartial"
| "error_code_of (NotFound _ _) = EcNotFound"
| "error_code_of (AlreadyOpen _ _) = EcAlreadyOpen"
| "error_code_of Closed = EcClosed"
| "error_code_of SequenceOverflow = EcSequenceOverflow"
| "error_code_of (InvalidKey _ _) = EcInvalidKey"
| "error_code_of (InvalidValue _ _) = EcInvalidValue"
| "error_code_of (BatchTooLarge _ _) = EcBatchTooLarge"
| "error_code_of (SnapshotExpired _ _) = EcSnapshotExpired"
| "error_code_of (UtxoSpent _ _) = EcUtxoSpent"
| "error_code_of (UtxoInvalid _) = EcUtxoInvalid"
| "error_code_of (Config _) = EcConfigInvalid"
| "error_code_of (CacheFull _ _) = EcCacheFull"
| "error_code_of (Serialization _) = EcSerialization"
| "error_code_of (Crypto _) = EcCrypto"
| "error_code_of (Internal _ _) = EcInternal"

fun db_severity :: "db_error \<Rightarrow> severity" where
  "db_severity (Io _ _ _ _) = Recoverable"
| "db_severity (DiskFull _ _ _) = Recoverable"
| "db_severity (PermissionDenied _ _) = Recoverable"
| "db_severity (Locked _ _) = Recoverable"
| "db_severity (DirectoryNotFound _) = Recoverable"
| "db_severity (CompactionBackpressure _ _) = Recoverable"
| "db_severity (WalCorrupted _ _ _ _) = Fatal"
| "db_severity (SstableCorrupted _ _ _ _) = Fatal"
| "db_severity (MemtableCorrupted _) = Fatal"
| "db_severity (ManifestCorrupted _ _) = Fatal"
| "db_severity (ManifestVersionMismatch _ _ _) = Fatal"
| "db_severity (Integrity _) = Fatal"
| "db_severity (ChecksumMismatch _ _ _ _) = Fatal"
| "db_severity (WalSegmentMissing _) = Fatal"
| "db_severity (SstableTruncated _ _ _) = Fatal"
| "db_severity (CompactionCorrupted _ _) = Fatal"
| "db_severity (RecoveryFailed _) = Fatal"
| "db_severity (RecoveryPartial _ _) = Recoverable"
| "db_severity (NotFound _ _) = Recoverable"
| "db_severity (AlreadyOpen _ _) = Recoverable"
| "db_severity Closed = Recoverable"
| "db_severity SequenceOverflow = Recoverable"
| "db_severity (InvalidKey _ _) = Recoverable"
| "db_severity (InvalidValue _ _) = Recoverable"
| "db_severity (BatchTooLarge _ _) = Recoverable"
| "db_severity (SnapshotExpired _ _) = Recoverable"
| "db_severity (UtxoSpent _ _) = Recoverable"
| "db_severity (UtxoInvalid _) = Recoverable"
| "db_severity (Config _) = User"
| "db_severity (CacheFull _ _) = Recoverable"
| "db_severity (Serialization _) = Fatal"
| "db_severity (Crypto _) = Fatal"
| "db_severity (Internal _ _) = Fatal"

definition is_fatal :: "db_error \<Rightarrow> bool" where
  "is_fatal e \<longleftrightarrow> db_severity e = Fatal"

definition is_recoverable :: "db_error \<Rightarrow> bool" where
  "is_recoverable e \<longleftrightarrow> db_severity e = Recoverable"

fun retry_after :: "db_error \<Rightarrow> nat option" where
  "retry_after (Io _ _ _ _) = Some 100"
| "retry_after (DiskFull _ _ _) = Some 5000"
| "retry_after (PermissionDenied _ _) = Some 1000"
| "retry_after (Locked _ _) = Some 1000"
| "retry_after (CompactionBackpressure _ _) = Some 2000"
| "retry_after (RecoveryPartial _ _) = Some 3000"
| "retry_after _ = None"

definition should_throttle :: "db_error \<Rightarrow> bool" where
  "should_throttle e \<longleftrightarrow> retry_after e \<noteq> None"

section \<open>Constructors and conversions\<close>

fun io_code :: "io_kind \<Rightarrow> error_code" where
  "io_code IoNotFound = EcIoDirectoryNotFound"
| "io_code IoPermissionDenied = EcIoPermissionDenied"
| "io_code IoOther = EcIoGeneric"

definition db_io :: "io_error \<Rightarrow> path \<Rightarrow> string \<Rightarrow> db_error" where
  "db_io source path context' = Io (io_code (io_kind source)) source (Some path) context'"

definition directory_not_found :: "path \<Rightarrow> db_error" where
  "directory_not_found path = DirectoryNotFound path"

definition sstable_corruption :: "path \<Rightarrow> u64 \<Rightarrow> bytes \<Rightarrow> bytes \<Rightarrow> db_error" where
  "sstable_corruption path offset expected actual = SstableCorrupted path offset expected actual"

definition wal_corruption :: "u64 \<Rightarrow> u64 \<Rightarrow> bytes \<Rightarrow> bytes \<Rightarrow> db_error" where
  "wal_corruption segment offset expected actual = WalCorrupted segment offset expected actual"

definition manifest_corruption :: "path \<Rightarrow> string \<Rightarrow> db_error" where
  "manifest_corruption path reason = ManifestCorrupted path reason"

definition manifest_version_mismatch :: "path \<Rightarrow> u32 \<Rightarrow> u32 \<Rightarrow> db_error" where
  "manifest_version_mismatch path expected found = ManifestVersionMismatch path expected found"

definition checksum_mismatch :: "path \<Rightarrow> u64 \<Rightarrow> bytes \<Rightarrow> bytes \<Rightarrow> db_error" where
  "checksum_mismatch path offset stored computed = ChecksumMismatch path offset stored computed"

definition wal_segment_missing :: "u64 \<Rightarrow> db_error" where
  "wal_segment_missing segment = WalSegmentMissing segment"

definition sstable_truncated :: "path \<Rightarrow> u64 \<Rightarrow> u64 \<Rightarrow> db_error" where
  "sstable_truncated path expected actual = SstableTruncated path expected actual"

definition compaction_corrupted :: "path \<Rightarrow> string \<Rightarrow> db_error" where
  "compaction_corrupted output_path reason = CompactionCorrupted output_path reason"

definition recovery_failed :: "string \<Rightarrow> db_error" where
  "recovery_failed reason = RecoveryFailed reason"

definition recovery_partial :: "nat \<Rightarrow> nat \<Rightarrow> db_error" where
  "recovery_partial recovered total' = RecoveryPartial recovered total'"

definition not_found :: "'pk crypto_api \<Rightarrow> bytes \<Rightarrow> db_error" where
  "not_found C key = NotFound (blake3 C key) (length key)"

definition invalid_key :: "string \<Rightarrow> nat \<Rightarrow> db_error" where
  "invalid_key context' key_len = InvalidKey context' key_len"

definition invalid_value :: "string \<Rightarrow> nat \<Rightarrow> db_error" where
  "invalid_value context' value_len = InvalidValue context' value_len"

definition snapshot_expired :: "u64 \<Rightarrow> u64 \<Rightarrow> db_error" where
  "snapshot_expired snapshot_seq current_seq = SnapshotExpired snapshot_seq current_seq"

definition utxo_spent :: "bytes \<Rightarrow> u32 \<Rightarrow> db_error" where
  "utxo_spent tx_hash output_index = UtxoSpent tx_hash output_index"

definition utxo_invalid :: "string \<Rightarrow> db_error" where
  "utxo_invalid context' = UtxoInvalid context'"

definition backpressure :: "nat \<Rightarrow> nat \<Rightarrow> db_error" where
  "backpressure queued_files max_files = CompactionBackpressure queued_files max_files"

definition cache_full :: "nat \<Rightarrow> nat \<Rightarrow> db_error" where
  "cache_full current max' = CacheFull current max'"

text \<open>\<open>From<io::Error>\<close>; and \<open>From<bincode::Error>\<close>, with the kinds that the match tells apart.\<close>

definition from_io_error :: "io_error \<Rightarrow> db_error" where
  "from_io_error e = Io (io_code (io_kind e)) e None ''io error''"

datatype bincode_kind = BcIo | BcInvalidCharEncoding | BcSequenceMustHaveLength | BcCustom | BcOther

fun bincode_context :: "bincode_kind \<Rightarrow> string" where
  "bincode_context BcIo = ''bincode io error''"
| "bincode_context BcInvalidCharEncoding = ''bincode invalid char''"
| "bincode_context BcSequenceMustHaveLength = ''bincode sequence length''"
| "bincode_context BcCustom = ''bincode custom error''"
| "bincode_context BcOther = ''bincode error''"

definition from_bincode_error :: "bincode_kind \<Rightarrow> db_error" where
  "from_bincode_error k = Serialization (bincode_context k)"

fun error_source :: "db_error \<Rightarrow> io_error option" where
  "error_source (Io _ source _ _) = Some source"
| "error_source _ = None"

section \<open>Text form\<close>

abbreviation show_u64 :: "u64 \<Rightarrow> string" where "show_u64 w \<equiv> show_nat (unat w)"
abbreviation show_u32 :: "u32 \<Rightarrow> string" where "show_u32 w \<equiv> show_nat (unat w)"

definition em_dash :: string where
  "em_dash = [CHR 0xE2, CHR 0x80, CHR 0x94]"

fun db_message :: "(bytes \<Rightarrow> string) \<Rightarrow> db_error \<Rightarrow> string" where
  "db_message hex (Io _ source path context') =
     ''] '' @ context' @ '': '' @ io_text source @ (case path of None \<Rightarrow> [] | Some p \<Rightarrow> '' at '' @ [CHR 0x27] @ p @ [CHR 0x27])"
| "db_message hex (DiskFull path available needed) =
     ''] disk full at '' @ [CHR 0x27] @ path @ [CHR 0x27] @ '': '' @ show_u64 available @ '' available, '' @ show_u64 needed @ '' needed''"
| "db_message hex (PermissionDenied path context') =
     ''] '' @ context' @ '' at '' @ [CHR 0x27] @ path @ [CHR 0x27]"
| "db_message hex (Locked path holder_pid) =
     ''] database locked: '' @ [CHR 0x27] @ path @ [CHR 0x27] @ (case holder_pid of None \<Rightarrow> [] | Some pid \<Rightarrow> '' (PID '' @ show_u32 pid @ '')'')"
| "db_message hex (DirectoryNotFound path) =
     ''] directory not found: '' @ [CHR 0x27] @ path @ [CHR 0x27]"
| "db_message hex (CompactionBackpressure queued_files max_files) =
     ''] compaction backpressure: '' @ show_nat queued_files @ '' files queued (max '' @ show_nat max_files @ '')''"
| "db_message hex (WalCorrupted segment offset expected actual) =
     ''] WAL segment '' @ show_u64 segment @ '' corrupted at offset '' @ show_u64 offset @ '': expected '' @ hex expected @ '', actual '' @ hex actual"
| "db_message hex (SstableCorrupted path offset expected actual) =
     ''] SSTable corrupted at '' @ [CHR 0x27] @ path @ [CHR 0x27] @ '' offset '' @ show_u64 offset @ '': expected '' @ hex expected @ '', actual '' @ hex actual"
| "db_message hex (MemtableCorrupted context') =
     ''] memtable corrupted: '' @ context'"
| "db_message hex (ManifestCorrupted path reason) =
     ''] MANIFEST corrupted at '' @ [CHR 0x27] @ path @ [CHR 0x27] @ '': '' @ reason"
| "db_message hex (ManifestVersionMismatch path expected found) =
     ''] MANIFEST version mismatch at '' @ [CHR 0x27] @ path @ [CHR 0x27] @ '': expected v'' @ show_u32 expected @ '', found v'' @ show_u32 found"
| "db_message hex (Integrity msg) =
     ''] integrity violation: '' @ msg"
| "db_message hex (ChecksumMismatch path offset stored computed) =
     ''] checksum mismatch at '' @ [CHR 0x27] @ path @ [CHR 0x27] @ '' offset '' @ show_u64 offset @ '': stored '' @ hex stored @ '', computed '' @ hex computed"
| "db_message hex (WalSegmentMissing segment) =
     ''] WAL segment '' @ show_u64 segment @ '' missing '' @ em_dash @ '' recovery impossible''"
| "db_message hex (SstableTruncated path expected actual) =
     ''] SSTable truncated '' @ [CHR 0x27] @ path @ [CHR 0x27] @ '': expected '' @ show_u64 expected @ '' bytes, got '' @ show_u64 actual"
| "db_message hex (CompactionCorrupted output_path reason) =
     ''] compaction corrupted output '' @ [CHR 0x27] @ output_path @ [CHR 0x27] @ '': '' @ reason"
| "db_message hex (RecoveryFailed reason) =
     ''] recovery failed: '' @ reason"
| "db_message hex (RecoveryPartial recovered total') =
     ''] partial recovery: '' @ show_nat recovered @ ''/'' @ show_nat total' @ '' entries recovered''"
| "db_message hex (NotFound key_hash key_len) =
     ''] key not found: '' @ hex key_hash @ '' ('' @ show_nat key_len @ '' bytes)''"
| "db_message hex (AlreadyOpen path holder_pid) =
     ''] database already open: '' @ [CHR 0x27] @ path @ [CHR 0x27] @ (case holder_pid of None \<Rightarrow> [] | Some pid \<Rightarrow> '' (PID '' @ show_u32 pid @ '')'')"
| "db_message hex Closed =
     ''] database is closed''"
| "db_message hex SequenceOverflow =
     ''] sequence counter overflow''"
| "db_message hex (InvalidKey context' key_len) =
     ''] invalid key: '' @ context' @ '' ('' @ show_nat key_len @ '' bytes)''"
| "db_message hex (InvalidValue context' value_len) =
     ''] invalid value: '' @ context' @ '' ('' @ show_nat value_len @ '' bytes)''"
| "db_message hex (BatchTooLarge size' max') =
     ''] batch too large: '' @ show_nat size' @ '' ops (max '' @ show_nat max' @ '')''"
| "db_message hex (SnapshotExpired snapshot_seq current_seq) =
     ''] snapshot expired: seq '' @ show_u64 snapshot_seq @ '' (current '' @ show_u64 current_seq @ '')''"
| "db_message hex (UtxoSpent tx_hash output_index) =
     ''] UTXO already spent: '' @ hex tx_hash @ '':'' @ show_u32 output_index"
| "db_message hex (UtxoInvalid context') =
     ''] invalid UTXO: '' @ context'"
| "db_message hex (Config msg) =
     ''] invalid configuration: '' @ msg"
| "db_message hex (CacheFull current max') =
     ''] cache full: '' @ show_nat current @ '' entries (max '' @ show_nat max' @ '')''"
| "db_message hex (Serialization context') =
     ''] serialization error: '' @ context'"
| "db_message hex (Crypto msg) =
     ''] crypto error: '' @ msg"
| "db_message hex (Internal inner context') = '':'' @ show_u32 inner @ ''] internal error: '' @ context'"

definition db_display :: "(bytes \<Rightarrow> string) \<Rightarrow> db_error \<Rightarrow> string" where
  "db_display hex e = ''[E'' @ show_nat (code_num (error_code_of e)) @ db_message hex e"

section \<open>Reading the code back\<close>

fun decimal :: "nat \<Rightarrow> string \<Rightarrow> nat" where
  "decimal n [] = n"
| "decimal n (c # cs) = decimal (10 * n + (of_char c - 48)) cs"

definition is_digit :: "char \<Rightarrow> bool" where
  "is_digit c \<longleftrightarrow> 48 \<le> (of_char c :: nat) \<and> (of_char c :: nat) \<le> 57"

definition display_code :: "string \<Rightarrow> nat" where
  "display_code s = decimal 0 (takeWhile is_digit (drop 2 s))"

lemma decimal_append: "decimal n (xs @ ys) = decimal (decimal n xs) ys"
  by (induction n xs rule: decimal.induct) simp_all

lemma of_char_digit: "d < 10 \<Longrightarrow> (of_char (char_of (48 + d) :: char) :: nat) = 48 + d"
  by (simp add: of_char_of)

lemma show_nat_digits: "list_all is_digit (show_nat n)"
proof (induction n rule: show_nat.induct)
  case (1 n)
  show ?case
  proof (cases "n < 10")
    case True
    then show ?thesis by (simp add: show_nat.simps [of n] is_digit_def of_char_digit)
  next
    case False
    then show ?thesis
      using 1 by (simp add: show_nat.simps [of n] is_digit_def of_char_digit)
  qed
qed

lemma decimal_show_nat: "decimal 0 (show_nat n) = n"
proof (induction n rule: show_nat.induct)
  case (1 n)
  show ?case
  proof (cases "n < 10")
    case True
    then show ?thesis by (simp add: show_nat.simps [of n] of_char_digit)
  next
    case False
    then show ?thesis
      using 1 by (simp add: show_nat.simps [of n] of_char_digit decimal_append)
  qed
qed

lemma code_num_inj: "code_num a = code_num b \<longleftrightarrow> a = b"
  by (cases a; cases b; simp)

lemma db_message_head: "\<exists>c cs. db_message hex e = c # cs \<and> \<not> is_digit c"
  by (cases e) (simp_all add: is_digit_def)

lemma display_code_db_display: "display_code (db_display hex e) = code_num (error_code_of e)"
proof -
  obtain c cs where m: "db_message hex e = c # cs" "\<not> is_digit c" using db_message_head by blast
  have "takeWhile is_digit (show_nat n @ c # cs) = show_nat n" for n
    using show_nat_digits [of n] m(2) by (simp add: takeWhile_tail takeWhile_append2 list_all_iff)
  then show ?thesis by (simp add: display_code_def db_display_def m(1) decimal_show_nat)
qed

text \<open>
  The printed form of a database error identifies its code: reading the digits after \<open>[E\<close> gives
  the numeric code of the error, and no two codes have the same number, so errors printed alike have
  the same code.
\<close>

theorem db_display_identifies:
  "display_code (db_display hex e) = code_num (error_code_of e)
   \<and> (code_num a = code_num b \<longleftrightarrow> a = b)"
  by (simp add: display_code_db_display code_num_inj)

text \<open>
  Codes, severity and retry advice agree. Except for the generic I/O error, whose code is a free
  field, an error is fatal exactly when its code lies in the integrity range (partial recovery
  apart) or the internal range; it is a user error exactly when its code lies in the configuration
  range and is not the full cache; and retrying is only ever advised for recoverable errors.
\<close>

theorem db_severity_by_code:
  assumes "error_source e = None"
  shows "(is_fatal e \<longleftrightarrow> code_num (error_code_of e) div 1000 = 2 \<and> error_code_of e \<noteq> EcRecoveryPartial
       \<or> code_num (error_code_of e) div 1000 = 5)
    \<and> (db_severity e = User \<longleftrightarrow> error_code_of e = EcConfigInvalid)
    \<and> (should_throttle e \<longrightarrow> is_recoverable e)"
  using assms by (cases e) (simp_all add: is_fatal_def is_recoverable_def should_throttle_def)

theorem db_severity_by_code_witness: "is_fatal (Integrity ''merge'')"
  using db_severity_by_code [of "Integrity ''merge''"] by simp

end
