(* ===== verification/Merge.thy ===== *)
theory Merge
  imports Db_Error
begin

text \<open>
  \<open>crates/aevum-db/src/merge.rs\<close>: the k-way merge over the memtable and the SST files. An input
  iterator is the finite list of the results it will yield. A \<open>BinaryHeap\<close> is the list of its
  entries; \<open>pop\<close> removes a greatest one in the order of \<open>HeapEntry\<close>, in which the greatest has the
  smallest key, then the largest sequence number, then the largest input index.

  The lemmas: one entry per input is in the heap; merging sorted inputs yields all their entries,
  up to the first error of each input, in order and without a reported violation; the merge always
  ends.
\<close>

section \<open>Entries and their order\<close>

record 'v mem_entry =
  me_seq :: u64
  me_value :: 'v

record 'v heap_entry =
  he_key :: bytes
  he_value :: 'v
  he_seq :: u64
  he_iter_idx :: nat

datatype ordering = Less | Equal | Greater

definition cmp :: "'a::linorder \<Rightarrow> 'a \<Rightarrow> ordering" where
  "cmp a b = (if a < b then Less else if a = b then Equal else Greater)"

fun then_with :: "ordering \<Rightarrow> ordering \<Rightarrow> ordering" where
  "then_with Equal y = y"
| "then_with x y = x"

definition heap_eq :: "'v heap_entry \<Rightarrow> 'v heap_entry \<Rightarrow> bool" where
  "heap_eq a b \<longleftrightarrow> he_key a = he_key b \<and> he_seq a = he_seq b"

definition heap_cmp :: "'v heap_entry \<Rightarrow> 'v heap_entry \<Rightarrow> ordering" where
  "heap_cmp a b = then_with (then_with (cmp (he_key b) (he_key a)) (cmp (he_seq a) (he_seq b)))
     (cmp (he_iter_idx a) (he_iter_idx b))"

text \<open>\<open>BinaryHeap::pop\<close>: a greatest entry, and the heap without it.\<close>

fun greatest :: "'v heap_entry \<Rightarrow> 'v heap_entry list \<Rightarrow> 'v heap_entry" where
  "greatest e [] = e"
| "greatest e (x # xs) = greatest (if heap_cmp x e = Greater then x else e) xs"

definition heap_pop :: "'v heap_entry list \<Rightarrow> ('v heap_entry \<times> 'v heap_entry list) option" where
  "heap_pop h = (case h of [] \<Rightarrow> None | x # xs \<Rightarrow> let e = greatest x xs in Some (e, remove1 e h))"

section \<open>The iterator\<close>

type_synonym 'v item = "db_error + bytes \<times> 'v mem_entry"

record 'v merging_iterator =
  mi_heap :: "'v heap_entry list"
  mi_iters :: "'v item list list"
  mi_exhausted :: "bool list"
  mi_last_key :: "bytes option"

definition push_next :: "nat \<Rightarrow> 'v merging_iterator \<Rightarrow> 'v merging_iterator" where
  "push_next idx s =
     (if mi_exhausted s ! idx then s
      else case mi_iters s ! idx of
        Inr (key, entry) # rest \<Rightarrow>
          s\<lparr>mi_iters := (mi_iters s)[idx := rest],
            mi_heap := \<lparr>he_key = key, he_value = me_value entry, he_seq = me_seq entry, he_iter_idx = idx\<rparr>
              # mi_heap s\<rparr>
      | Inl _ # rest \<Rightarrow>
          s\<lparr>mi_iters := (mi_iters s)[idx := rest], mi_exhausted := (mi_exhausted s)[idx := True]\<rparr>
      | [] \<Rightarrow> s\<lparr>mi_exhausted := (mi_exhausted s)[idx := True]\<rparr>)"

definition merge_new :: "'v item list list \<Rightarrow> 'v merging_iterator" where
  "merge_new iters =
     fold push_next [0 ..< length iters]
       \<lparr>mi_heap = [], mi_iters = iters, mi_exhausted = replicate (length iters) False, mi_last_key = None\<rparr>"

definition next_entry ::
  "'v merging_iterator \<Rightarrow> 'v merging_iterator \<times> ('v heap_entry option, db_error) result" where
  "next_entry s =
     (case heap_pop (mi_heap s) of
        None \<Rightarrow> (s, Ok None)
      | Some (entry, rest) \<Rightarrow>
          let s1 = s\<lparr>mi_heap := rest\<rparr> in
          if (case mi_last_key s of None \<Rightarrow> False | Some prev \<Rightarrow> he_key entry < prev)
          then (s1, Err (Integrity ''merge: key ordering violation''))
          else (push_next (he_iter_idx entry) (s1\<lparr>mi_last_key := Some (he_key entry)\<rparr>), Ok (Some entry)))"

definition merge_next :: "'v merging_iterator \<Rightarrow> 'v merging_iterator \<times> 'v item option" where
  "merge_next s =
     (case next_entry s of
        (s', Ok (Some e)) \<Rightarrow> (s', Some (Inr (he_key e, \<lparr>me_seq = he_seq e, me_value = he_value e\<rparr>)))
      | (s', Ok None) \<Rightarrow> (s', None)
      | (s', Err e) \<Rightarrow> (s', Some (Inl e))
      | (s', Panic) \<Rightarrow> (s', None))"

text \<open>Draining the iterator, up to its end or its first error: the entries and the error.\<close>

partial_function (option) merge_collect ::
  "'v merging_iterator \<Rightarrow> ('v heap_entry list \<times> db_error option) option" where
  "merge_collect s =
     (case next_entry s of (s', r) \<Rightarrow>
       (case r of
          Err e \<Rightarrow> Some ([], Some e)
        | Panic \<Rightarrow> Some ([], None)
        | Ok x \<Rightarrow>
            (case x of
               None \<Rightarrow> Some ([], None)
             | Some e \<Rightarrow> Option.bind (merge_collect s') (\<lambda>(es, err). Some (e # es, err)))))"

section \<open>The order on entries\<close>

text \<open>\<open>a\<close> is returned before \<open>b\<close>: smaller key, or newer, or from a later input.\<close>

definition before :: "'v heap_entry \<Rightarrow> 'v heap_entry \<Rightarrow> bool" where
  "before a b \<longleftrightarrow> he_key a < he_key b \<or> he_key a = he_key b \<and>
     (he_seq b < he_seq a \<or> he_seq b = he_seq a \<and> he_iter_idx b \<le> he_iter_idx a)"

lemma before_iff: "before a b \<longleftrightarrow> heap_cmp b a \<noteq> Greater"
  by (auto simp: before_def heap_cmp_def cmp_def)

lemma before_trans: "before a b \<Longrightarrow> before b c \<Longrightarrow> before a c"
  by (auto simp: before_def)

lemma before_total: "before a b \<or> before b a"
  by (auto simp: before_def)

lemma before_refl [simp]: "before a a"
  by (simp add: before_def)

lemma before_key: "before a b \<Longrightarrow> he_key a \<le> he_key b"
  by (auto simp: before_def)

lemma greatest_spec: "greatest e xs \<in> set (e # xs) \<and> (\<forall>y \<in> set (e # xs). before (greatest e xs) y)"
proof (induction xs arbitrary: e)
  case (Cons x xs)
  let ?m = "if heap_cmp x e = Greater then x else e"
  note ih = Cons.IH [of ?m]
  have m: "before ?m x" "before ?m e"
    using before_total [of x e] before_refl [of x] before_refl [of e]
    by (auto simp: before_iff simp del: before_refl)
  have g: "before (greatest ?m xs) ?m" using ih by simp
  then have "before (greatest ?m xs) x" "before (greatest ?m xs) e"
    using m before_trans by blast+
  with ih show ?case by auto
qed simp

lemma heap_pop_Some:
  assumes "heap_pop h = Some (e, r)"
  shows "mset h = add_mset e (mset r)" and "\<forall>y \<in> set r. before e y"
proof -
  obtain x xs where h: "h = x # xs" and e: "e = greatest x xs" and r: "r = remove1 e h"
    using assms by (auto simp: heap_pop_def Let_def split: list.splits)
  have e': "e \<in> set h" "\<forall>y \<in> set h. before e y" using greatest_spec [of x xs] by (simp_all add: h e)
  then show "mset h = add_mset e (mset r)" by (simp add: r)
  show "\<forall>y \<in> set r. before e y" using e'(2) set_remove1_subset [of e h] by (auto simp: r)
qed

lemma heap_pop_None [simp]: "heap_pop h = None \<longleftrightarrow> h = []"
  by (simp add: heap_pop_def Let_def split: list.splits)

section \<open>What is still to come\<close>

text \<open>
  The entries that an input still yields: those before its first error. \<open>pend s i\<close> are those of
  input \<open>i\<close> that are not yet in the heap.
\<close>

fun ok_prefix :: "nat \<Rightarrow> 'v item list \<Rightarrow> 'v heap_entry list" where
  "ok_prefix idx [] = []"
| "ok_prefix idx (Inl _ # _) = []"
| "ok_prefix idx (Inr (key, entry) # rest) =
     \<lparr>he_key = key, he_value = me_value entry, he_seq = me_seq entry, he_iter_idx = idx\<rparr> # ok_prefix idx rest"

definition pend :: "'v merging_iterator \<Rightarrow> nat \<Rightarrow> 'v heap_entry list" where
  "pend s i = (if mi_exhausted s ! i then [] else ok_prefix i (mi_iters s ! i))"

definition to_come :: "'v merging_iterator \<Rightarrow> 'v heap_entry multiset" where
  "to_come s = mset (mi_heap s) + (\<Sum>i<length (mi_iters s). mset (pend s i))"

text \<open>The invariant; the inputs in \<open>D\<close> have no entry in the heap and may still have to be asked.\<close>

definition merge_inv :: "nat set \<Rightarrow> 'v merging_iterator \<Rightarrow> bool" where
  "merge_inv D s \<longleftrightarrow>
     length (mi_exhausted s) = length (mi_iters s)
     \<and> (\<forall>e\<in>set (mi_heap s). he_iter_idx e < length (mi_iters s) \<and> he_iter_idx e \<notin> D
          \<and> (\<forall>y\<in>set (pend s (he_iter_idx e)). before e y))
     \<and> distinct (map he_iter_idx (mi_heap s))
     \<and> (\<forall>i<length (mi_iters s). sorted_wrt before (pend s i)
          \<and> (i \<notin> D \<longrightarrow> pend s i \<noteq> [] \<longrightarrow> i \<in> he_iter_idx ` set (mi_heap s)))"

lemma ok_prefix_idx: "e \<in> set (ok_prefix i xs) \<Longrightarrow> he_iter_idx e = i"
  by (induction i xs rule: ok_prefix.induct) auto

lemma pend_idx: "e \<in> set (pend s i) \<Longrightarrow> he_iter_idx e = i"
  by (auto simp: pend_def ok_prefix_idx split: if_splits)

lemma push_next_frame [simp]:
  "length (mi_iters (push_next i s)) = length (mi_iters s)"
  "length (mi_exhausted (push_next i s)) = length (mi_exhausted s)"
  "mi_last_key (push_next i s) = mi_last_key s"
  by (auto simp: push_next_def split: list.splits sum.splits prod.splits)

lemma pend_push_other: "j \<noteq> i \<Longrightarrow> pend (push_next i s) j = pend s j"
  by (auto simp: push_next_def pend_def split: list.splits sum.splits prod.splits)

lemma push_next_pend:
  assumes "i < length (mi_iters s)" and "length (mi_exhausted s) = length (mi_iters s)"
  shows "case pend s i of
      [] \<Rightarrow> mi_heap (push_next i s) = mi_heap s \<and> pend (push_next i s) i = []
    | x # xs \<Rightarrow> mi_heap (push_next i s) = x # mi_heap s \<and> pend (push_next i s) i = xs"
proof (cases "mi_exhausted s ! i")
  case True
  then show ?thesis by (simp add: pend_def push_next_def)
next
  case False
  show ?thesis
  proof (cases "mi_iters s ! i")
    case Nil
    with False assms show ?thesis by (simp add: pend_def push_next_def)
  next
    case (Cons a rest)
    with False assms show ?thesis
      by (cases a) (auto simp: pend_def push_next_def split: prod.splits)
  qed
qed

lemma sum_pend_push:
  assumes "i < length (mi_iters s)"
  shows "(\<Sum>j<length (mi_iters s). mset (pend (push_next i s) j)) + mset (pend s i)
       = (\<Sum>j<length (mi_iters s). mset (pend s j)) + mset (pend (push_next i s) i)"
proof -
  let ?A = "{..<length (mi_iters s)}"
  have i: "i \<in> ?A" using assms by simp
  have "(\<Sum>j\<in>?A - {i}. mset (pend (push_next i s) j)) = (\<Sum>j\<in>?A - {i}. mset (pend s j))"
    by (rule sum.cong) (simp_all add: pend_push_other)
  then show ?thesis
    using sum.remove [OF _ i, of "\<lambda>j. mset (pend (push_next i s) j)"]
      sum.remove [OF _ i, of "\<lambda>j. mset (pend s j)"] by simp
qed

lemma to_come_push:
  assumes "i < length (mi_iters s)" and "length (mi_exhausted s) = length (mi_iters s)"
  shows "to_come (push_next i s) = to_come s"
  using push_next_pend [OF assms] sum_pend_push [OF assms(1)]
  by (cases "pend s i") (auto simp: to_come_def)

lemma merge_inv_push_none:
  assumes inv: "merge_inv (insert i D) s" and h: "mi_heap (push_next i s) = mi_heap s"
    and none: "pend s i = []" "pend (push_next i s) i = []"
  shows "merge_inv D (push_next i s)"
proof -
  have "pend (push_next i s) j = pend s j" for j
    using none pend_push_other by (cases "j = i") auto
  with inv h none show ?thesis by (auto simp: merge_inv_def)
qed

lemma merge_inv_push_some:
  assumes inv: "merge_inv (insert i D) s" and i: "i < length (mi_iters s)" "i \<notin> D"
    and front: "pend s i = x # xs" and h: "mi_heap (push_next i s) = x # mi_heap s" "pend (push_next i s) i = xs"
  shows "merge_inv D (push_next i s)"
proof -
  have srt: "sorted_wrt before (x # xs)" using inv i(1) front [symmetric] by (simp add: merge_inv_def)
  have x: "he_iter_idx x = i" using front pend_idx [of x s i] by simp
  have heap_ne: "he_iter_idx e \<noteq> i" if "e \<in> set (mi_heap s)" for e
    using inv that by (auto simp: merge_inv_def)
  have heap: "he_iter_idx e < length (mi_iters s) \<and> he_iter_idx e \<notin> D
      \<and> (\<forall>y\<in>set (pend (push_next i s) (he_iter_idx e)). before e y)"
    if "e \<in> set (x # mi_heap s)" for e
  proof (cases "e \<in> set (mi_heap s)")
    case True
    with inv have "he_iter_idx e < length (mi_iters s) \<and> he_iter_idx e \<notin> D
        \<and> (\<forall>y\<in>set (pend s (he_iter_idx e)). before e y)"
      unfolding merge_inv_def by blast
    then show ?thesis using pend_push_other [OF heap_ne [OF True], of s] by simp
  qed (use that x i srt h(2) in simp)
  have "distinct (map he_iter_idx (mi_heap s))" using inv unfolding merge_inv_def by blast
  moreover have "i \<notin> he_iter_idx ` set (mi_heap s)" using heap_ne by blast
  ultimately have dist: "distinct (map he_iter_idx (x # mi_heap s))" using x by simp
  have pends: "sorted_wrt before (pend (push_next i s) j)
      \<and> (j \<notin> D \<longrightarrow> pend (push_next i s) j \<noteq> [] \<longrightarrow> j \<in> he_iter_idx ` set (x # mi_heap s))"
    if "j < length (mi_iters s)" for j
  proof (cases "j = i")
    case False
    with that inv have "sorted_wrt before (pend s j)
        \<and> (j \<notin> D \<longrightarrow> pend s j \<noteq> [] \<longrightarrow> j \<in> he_iter_idx ` set (mi_heap s))"
      unfolding merge_inv_def by blast
    with False show ?thesis using pend_push_other [OF False, of s] by auto
  qed (use x srt h(2) in simp)
  have "length (mi_exhausted s) = length (mi_iters s)" using inv by (simp add: merge_inv_def)
  then show ?thesis
    unfolding merge_inv_def h(1) push_next_frame using heap dist pends by blast
qed

lemma merge_inv_push:
  assumes inv: "merge_inv (insert i D) s" and i: "i < length (mi_iters s)" "i \<notin> D"
  shows "merge_inv D (push_next i s)"
proof -
  have len: "length (mi_exhausted s) = length (mi_iters s)" using inv by (simp add: merge_inv_def)
  note pn = push_next_pend [OF i(1) len]
  show ?thesis
  proof (cases "pend s i")
    case Nil
    with pn show ?thesis by (intro merge_inv_push_none [OF inv]) simp_all
  next
    case (Cons x xs)
    with pn show ?thesis by (intro merge_inv_push_some [OF inv i]) simp_all
  qed
qed

section \<open>Merging\<close>

definition merge_ready :: "'v merging_iterator \<Rightarrow> bool" where
  "merge_ready s \<longleftrightarrow> merge_inv {} s
     \<and> (\<forall>k. mi_last_key s = Some k \<longrightarrow> (\<forall>e\<in>set (mi_heap s). k \<le> he_key e))"

lemma in_sum_mset: "finite A \<Longrightarrow> y \<in># (\<Sum>i\<in>A. f i) \<longleftrightarrow> (\<exists>i\<in>A. y \<in># f i)"
  by (induction A rule: finite_induct) auto

lemma merge_inv_all: "merge_inv {} s \<Longrightarrow> y \<in># to_come s \<Longrightarrow> \<exists>e\<in>set (mi_heap s). before e y"
proof -
  assume inv: "merge_inv {} s" and y: "y \<in># to_come s"
  then consider "y \<in> set (mi_heap s)" | i where "i < length (mi_iters s)" "y \<in> set (pend s i)"
    by (auto simp: to_come_def in_sum_mset)
  then show ?thesis
  proof cases
    case 1
    then show ?thesis using before_refl by blast
  next
    case 2
    then have "i \<in> he_iter_idx ` set (mi_heap s)" using inv unfolding merge_inv_def by force
    then show ?thesis using 2 inv unfolding merge_inv_def by blast
  qed
qed

lemma merge_inv_pop:
  assumes inv: "merge_inv {} s" and pop: "heap_pop (mi_heap s) = Some (e, r)"
  shows "merge_inv {he_iter_idx e} (s\<lparr>mi_heap := r, mi_last_key := k\<rparr>)"
    and "he_iter_idx e < length (mi_iters s)"
    and "\<forall>y \<in> set r \<union> set (pend s (he_iter_idx e)). before e y"
proof -
  note ms = heap_pop_Some [OF pop]
  have sub: "set (mi_heap s) = insert e (set r)"
    using arg_cong [OF ms(1), of set_mset] by simp
  have p [simp]: "pend (s\<lparr>mi_heap := r, mi_last_key := k\<rparr>) j = pend s j" for j by (simp add: pend_def)
  have "mset (map he_iter_idx (mi_heap s)) = mset (map he_iter_idx (e # r))" using ms(1) by simp
  moreover have "distinct (map he_iter_idx (mi_heap s))" using inv by (simp add: merge_inv_def)
  ultimately have d: "distinct (map he_iter_idx (e # r))" by (metis mset_eq_imp_distinct_iff)
  then have "he_iter_idx e \<notin> he_iter_idx ` set r" by simp
  then have ne: "he_iter_idx x \<noteq> he_iter_idx e" if "x \<in> set r" for x using that by (metis imageI)
  have "\<forall>i<length (mi_iters s). sorted_wrt before (pend s i)
      \<and> (i \<notin> {he_iter_idx e} \<longrightarrow> pend s i \<noteq> [] \<longrightarrow> i \<in> he_iter_idx ` set r)"
    using inv sub unfolding merge_inv_def by auto
  with inv sub d ne show "merge_inv {he_iter_idx e} (s\<lparr>mi_heap := r, mi_last_key := k\<rparr>)"
    unfolding merge_inv_def by simp
  show "he_iter_idx e < length (mi_iters s)" and "\<forall>y \<in> set r \<union> set (pend s (he_iter_idx e)). before e y"
    using inv sub ms(2) by (auto simp: merge_inv_def)
qed

lemma next_entry_step:
  assumes rdy: "merge_ready s" and ne: "mi_heap s \<noteq> []"
  obtains e s' where "next_entry s = (s', Ok (Some e))" and "merge_ready s'"
    and "to_come s = add_mset e (to_come s')" and "\<And>y. y \<in># to_come s' \<Longrightarrow> before e y"
proof -
  have inv: "merge_inv {} s" using rdy by (simp add: merge_ready_def)
  obtain e r where pop: "heap_pop (mi_heap s) = Some (e, r)"
    using ne by (metis heap_pop_None not_None_eq prod.exhaust)
  note ms = heap_pop_Some [OF pop] and ip = merge_inv_pop [OF inv pop]
  let ?s1 = "s\<lparr>mi_heap := r, mi_last_key := Some (he_key e)\<rparr>"
  let ?s' = "push_next (he_iter_idx e) ?s1"
  have "e \<in> set (mi_heap s)" using arg_cong [OF ms(1), of set_mset] by simp
  then have "\<not> (case mi_last_key s of None \<Rightarrow> False | Some prev \<Rightarrow> he_key e < prev)"
    using rdy by (auto simp: merge_ready_def not_less split: option.split)
  then have nx: "next_entry s = (?s', Ok (Some e))" using pop by (simp add: next_entry_def Let_def)
  have inv1: "merge_inv {he_iter_idx e} ?s1" by (rule ip(1))
  have idx: "he_iter_idx e < length (mi_iters ?s1)" using ip(2) by simp
  have inv': "merge_inv {} ?s'" using inv1 idx by (intro merge_inv_push) simp_all
  have len: "length (mi_exhausted ?s1) = length (mi_iters ?s1)" using inv1 by (simp add: merge_inv_def)
  have p [simp]: "pend ?s1 j = pend s j" for j by (simp add: pend_def)
  have "to_come ?s' = to_come ?s1" by (rule to_come_push [OF idx len])
  moreover have "to_come s = add_mset e (to_come ?s1)" by (simp add: to_come_def ms(1))
  ultimately have tc: "to_come s = add_mset e (to_come ?s')" by simp
  have hp: "before e y" if "y \<in> set (mi_heap ?s')" for y
    using push_next_pend [OF idx len] that ip(3) by (cases "pend s (he_iter_idx e)") auto
  then have "merge_ready ?s'" using inv' before_key by (auto simp: merge_ready_def)
  moreover have "before e y" if "y \<in># to_come ?s'" for y
    using merge_inv_all [OF inv' that] hp before_trans by blast
  ultimately show ?thesis using that [OF nx] tc by blast
qed

lemma merge_collect_ready:
  assumes "merge_ready s"
  shows "\<exists>out. merge_collect s = Some (out, None) \<and> mset out = to_come s \<and> sorted_wrt before out"
  using assms
proof (induction "size (to_come s)" arbitrary: s rule: less_induct)
  case less
  show ?case
  proof (cases "mi_heap s = []")
    case True
    have "to_come s = {#}"
      using merge_inv_all [of s] less.prems True
      by (metis all_not_in_conv empty_set merge_ready_def multiset_nonemptyE)
    moreover have "merge_collect s = Some ([], None)"
      using True by (subst merge_collect.simps) (simp add: next_entry_def heap_pop_def)
    ultimately show ?thesis by simp
  next
    case False
    then obtain e s' where nx: "next_entry s = (s', Ok (Some e))" and r: "merge_ready s'"
      and tc: "to_come s = add_mset e (to_come s')" and fst: "\<And>y. y \<in># to_come s' \<Longrightarrow> before e y"
      by (rule next_entry_step [OF less.prems]) blast
    obtain out where out: "merge_collect s' = Some (out, None)" "mset out = to_come s'" "sorted_wrt before out"
      using less.hyps [OF _ r] tc by auto
    have "merge_collect s = Some (e # out, None)"
      using nx out(1) by (subst merge_collect.simps) simp
    moreover have "sorted_wrt before (e # out)"
      using out fst by (metis set_mset_mset sorted_wrt.simps(2))
    moreover have "mset (e # out) = to_come s" using out(2) tc by simp
    ultimately show ?thesis by blast
  qed
qed

text \<open>The inputs with their positions, and all the entries they yield before their first error.\<close>

definition merge_inputs :: "'v item list list \<Rightarrow> 'v heap_entry list list" where
  "merge_inputs iters = map (\<lambda>i. ok_prefix i (iters ! i)) [0 ..< length iters]"

lemma push_all:
  assumes "merge_inv {m ..< length (mi_iters s)} s" and "m \<le> length (mi_iters s)"
  shows "merge_inv {} (fold push_next [m ..< length (mi_iters s)] s)
    \<and> to_come (fold push_next [m ..< length (mi_iters s)] s) = to_come s
    \<and> mi_last_key (fold push_next [m ..< length (mi_iters s)] s) = mi_last_key s"
  using assms
proof (induction "length (mi_iters s) - m" arbitrary: m s)
  case (Suc n)
  then have lt: "m < length (mi_iters s)" by simp
  then have ins: "{m ..< length (mi_iters s)} = insert m {Suc m ..< length (mi_iters s)}" by auto
  have inv: "merge_inv {Suc m ..< length (mi_iters s)} (push_next m s)"
    using Suc.prems(1) lt by (intro merge_inv_push) (simp_all add: ins)
  have len: "length (mi_exhausted s) = length (mi_iters s)" using Suc.prems(1) by (simp add: merge_inv_def)
  have "[m ..< length (mi_iters s)] = m # [Suc m ..< length (mi_iters (push_next m s))]"
    using lt by (simp add: upt_conv_Cons)
  moreover have "n = length (mi_iters (push_next m s)) - Suc m" using Suc.hyps(2) by simp
  ultimately show ?case
    using Suc.hyps(1) [of "push_next m s" "Suc m"] inv lt to_come_push [OF lt len] by simp
qed simp

text \<open>
  C17. The merge is complete and ordered. For any number of inputs, each sorted by key with newer entries
  first among equal keys, draining the iterator ends without a reported violation and returns
  every entry that an input yields before its first error, each exactly once, by ascending key,
  among equal keys the newest first, and among entries of one key and sequence number the one of the
  later input first.
\<close>

theorem merge_sorted_complete:
  assumes "list_all (sorted_wrt before) (merge_inputs iters)"
  shows "\<exists>out. merge_collect (merge_new iters) = Some (out, None)
    \<and> mset out = mset (concat (merge_inputs iters)) \<and> sorted_wrt before out"
proof -
  let ?s0 = "\<lparr>mi_heap = [], mi_iters = iters, mi_exhausted = replicate (length iters) False,
    mi_last_key = None\<rparr> :: 'a merging_iterator"
  have pend0: "pend ?s0 i = ok_prefix i (iters ! i)" if "i < length iters" for i
    using that by (simp add: pend_def)
  have "merge_inv {0 ..< length (mi_iters ?s0)} ?s0"
    using assms pend0 by (auto simp: merge_inv_def merge_inputs_def list_all_iff)
  from push_all [OF this]
  have fin: "merge_inv {} (merge_new iters)" "to_come (merge_new iters) = to_come ?s0"
    "mi_last_key (merge_new iters) = None"
    by (simp_all add: merge_new_def)
  have "to_come ?s0 = (\<Sum>i<length iters. mset (ok_prefix i (iters ! i)))"
    using pend0 by (simp add: to_come_def)
  also have "\<dots> = mset (concat (merge_inputs iters))"
    by (simp add: merge_inputs_def mset_concat sum_list_sum_nth atLeast0LessThan)
  finally show ?thesis
    using merge_collect_ready [of "merge_new iters"] fin by (simp add: merge_ready_def)
qed

definition sample_inputs :: "nat item list list" where
  "sample_inputs =
     [[Inr ([1], \<lparr>me_seq = 4, me_value = 0\<rparr>), Inr ([3], \<lparr>me_seq = 1, me_value = 0\<rparr>)],
      [Inr ([1], \<lparr>me_seq = 9, me_value = 1\<rparr>), Inl Closed, Inr ([0], \<lparr>me_seq = 2, me_value = 1\<rparr>)]]"

theorem merge_sorted_complete_witness:
  "\<exists>out. merge_collect (merge_new sample_inputs) = Some (out, None)
    \<and> mset out = mset (concat (merge_inputs sample_inputs)) \<and> sorted_wrt before out"
  by (rule merge_sorted_complete)
    (simp add: merge_inputs_def sample_inputs_def before_def upt_rec)

text \<open>
  A violation loses more than the entry: after the error, the input of the entry is not asked again,
  so the rest of that input is never returned.
\<close>

lemma next_entry_violation:
  assumes "next_entry s = (s', Err e)"
  shows "e = Integrity ''merge: key ordering violation'' \<and> mi_iters s' = mi_iters s
    \<and> length (mi_heap s') < length (mi_heap s)"
proof -
  obtain en r where pop: "heap_pop (mi_heap s) = Some (en, r)"
    using assms by (cases "heap_pop (mi_heap s)") (auto simp: next_entry_def)
  have "length (mi_heap s) = Suc (length r)"
    using arg_cong [OF heap_pop_Some(1) [OF pop], of size] by simp
  with assms pop show ?thesis by (auto simp: next_entry_def Let_def split: if_splits)
qed

end
