(* ===== verification/Db_Config.thy ===== *)
theory Db_Config
  imports Db_Error
begin

text \<open>
  \<open>crates/aevum-db/src/config.rs\<close>: the configuration of the database, its builders, the static checks
  of \<open>validate\<close> and the file-system checks of \<open>validate_path\<close>. A path is its text (one byte per
  character, as \<open>as_os_str().len()\<close> counts), a \<open>usize\<close> is a natural number; the file system enters as a
  parameter with the four queries the code makes.

  The lemmas: \<open>validate\<close> reports the first rule of an ordered table that the configuration breaks and
  accepts exactly when none is broken; the product \<open>block_size * 2\<close> is only formed after the bound on the
  block size, so it cannot overflow; on a valid configuration a builder is judged by the rules of its own field.
\<close>

section \<open>Keys, modes and strategies\<close>

definition key_is_valid :: "bytes \<Rightarrow> bool" where
  "key_is_valid key =
     (if list_all (\<lambda>b. b = 0) key then False
      else let first = hd key in
           if list_all (\<lambda>b. b = first) key then False
           else True)"

definition key_debug :: "bytes \<Rightarrow> string" where
  "key_debug key = ''EncryptionKey(***)''"

datatype sync_mode = SyncAlways | SyncBatch u64 | SyncNever

definition default_sync_mode :: sync_mode where
  "default_sync_mode = SyncAlways"

datatype compaction_strategy = Leveled nat | Tiered nat | Adaptive

definition default_compaction :: compaction_strategy where
  "default_compaction = Adaptive"

section \<open>The configuration and its builders\<close>

record db_config =
  dbc_path :: path
  dbc_sync_mode :: sync_mode
  dbc_compaction :: compaction_strategy
  dbc_memtable_max_bytes :: nat
  dbc_max_open_files :: nat
  dbc_block_size :: nat
  dbc_encryption_key :: "bytes option"
  dbc_wal_segment_bytes :: nat
  dbc_l2_retention_blocks :: "u64 option"

definition default_db_config :: db_config where
  "default_db_config =
     \<lparr>dbc_path = ''./aevum_data'',
      dbc_sync_mode = default_sync_mode,
      dbc_compaction = default_compaction,
      dbc_memtable_max_bytes = 64 * 1024 * 1024,
      dbc_max_open_files = 1000,
      dbc_block_size = 4096,
      dbc_encryption_key = None,
      dbc_wal_segment_bytes = 64 * 1024 * 1024,
      dbc_l2_retention_blocks = None\<rparr>"

definition with_path :: "path \<Rightarrow> db_config" where
  "with_path p = default_db_config\<lparr>dbc_path := p\<rparr>"

definition with_encryption :: "db_config \<Rightarrow> bytes \<Rightarrow> db_config" where
  "with_encryption c key = c\<lparr>dbc_encryption_key := Some key\<rparr>"

definition with_sync_mode :: "db_config \<Rightarrow> sync_mode \<Rightarrow> db_config" where
  "with_sync_mode c mode = c\<lparr>dbc_sync_mode := mode\<rparr>"

definition with_memtable_size :: "db_config \<Rightarrow> nat \<Rightarrow> db_config" where
  "with_memtable_size c n = c\<lparr>dbc_memtable_max_bytes := n\<rparr>"

definition with_block_size :: "db_config \<Rightarrow> nat \<Rightarrow> db_config" where
  "with_block_size c n = c\<lparr>dbc_block_size := n\<rparr>"

definition with_wal_segment_size :: "db_config \<Rightarrow> nat \<Rightarrow> db_config" where
  "with_wal_segment_size c n = c\<lparr>dbc_wal_segment_bytes := n\<rparr>"

definition with_max_open_files :: "db_config \<Rightarrow> nat \<Rightarrow> db_config" where
  "with_max_open_files c n = c\<lparr>dbc_max_open_files := n\<rparr>"

section \<open>Static checks\<close>

text \<open>\<open>block_size * 2\<close> is a checked product of \<open>usize\<close>.\<close>

definition db_validate :: "db_config \<Rightarrow> (unit, db_error) result" where
  "db_validate c =
     (if (case dbc_encryption_key c of Some key \<Rightarrow> \<not> key_is_valid key | None \<Rightarrow> False)
      then Err (Config ''encryption key is weak (all zeros or all same bytes)'')
      else if dbc_path c = [] then Err (Config ''database path cannot be empty'')
      else if length (dbc_path c) > 4096 then Err (Config ''database path too long (max 4096 bytes)'')
      else if dbc_memtable_max_bytes c < 4096
      then Err (Config ''memtable_max_bytes must be at least 4096'')
      else if dbc_memtable_max_bytes c > 1024 * 1024 * 1024
      then Err (Config ''memtable_max_bytes must be at most 1 GiB'')
      else if dbc_block_size c < 512 then Err (Config ''block_size must be at least 512 bytes'')
      else if dbc_block_size c > 65536 then Err (Config ''block_size must be at most 65536 bytes'')
      else if dbc_max_open_files c = 0 then Err (Config ''max_open_files must be at least 1'')
      else if dbc_max_open_files c > 100000 then Err (Config ''max_open_files must be at most 100000'')
      else if dbc_wal_segment_bytes c < 4096
      then Err (Config ''wal_segment_bytes must be at least 4096'')
      else if dbc_wal_segment_bytes c > 1024 * 1024 * 1024
      then Err (Config ''wal_segment_bytes must be at most 1 GiB'')
      else if (case dbc_sync_mode c of SyncBatch ms \<Rightarrow> ms = 0 | _ \<Rightarrow> False)
      then Err (Config ''SyncMode::Batch interval must be > 0 ms'')
      else if (case dbc_sync_mode c of SyncBatch ms \<Rightarrow> ms > 60000 | _ \<Rightarrow> False)
      then Err (Config ''SyncMode::Batch interval must be <= 60000 ms'')
      else if dbc_block_size c * 2 > USIZE_MAX then Panic
      else if dbc_memtable_max_bytes c < dbc_block_size c * 2
      then Err (Config ''memtable_max_bytes must be at least 2x block_size'')
      else if dbc_wal_segment_bytes c < dbc_memtable_max_bytes c div 4
      then Err (Config ''wal_segment_bytes must be at least memtable_max_bytes/4'')
      else Ok ())"

section \<open>File-system checks\<close>

record fs_api =
  fs_exists :: "path \<Rightarrow> bool"
  fs_is_dir :: "path \<Rightarrow> bool"
  fs_metadata :: "path \<Rightarrow> (bool, io_error) result"

text \<open>The metadata query yields the only field that is read, the read-only permission.\<close>

definition db_validate_path :: "fs_api \<Rightarrow> db_config \<Rightarrow> (unit, db_error) result" where
  "db_validate_path FS c =
     (let p = dbc_path c in
      if fs_exists FS p then
        if \<not> fs_is_dir FS p then Err (Config ''path is not a directory'')
        else case fs_metadata FS p of
          Err e \<Rightarrow> Err (db_io e p ''metadata check'')
        | Panic \<Rightarrow> Panic
        | Ok readonly \<Rightarrow>
            if readonly then Err (PermissionDenied p ''database directory is read-only'') else Ok ()
      else Ok ())"

section \<open>The checks as an ordered table of rules\<close>

text \<open>A rule is a condition and the message of a configuration that breaks it.\<close>

definition db_rules :: "(bool \<times> string) list \<Rightarrow> (unit, db_error) result" where
  "db_rules rs = (case find (\<lambda>r. \<not> fst r) rs of None \<Rightarrow> Ok () | Some r \<Rightarrow> Err (Config (snd r)))"

definition strong_key :: "bytes \<Rightarrow> bool" where
  "strong_key key = (\<exists>a \<in> set key. \<exists>b \<in> set key. a \<noteq> b)"

definition batch_interval_rules :: "sync_mode \<Rightarrow> (bool \<times> string) list" where
  "batch_interval_rules m =
     (case m of
        SyncBatch ms \<Rightarrow> [(0 < ms, ''SyncMode::Batch interval must be > 0 ms''),
                         (ms \<le> 60000, ''SyncMode::Batch interval must be <= 60000 ms'')]
      | _ \<Rightarrow> [])"

definition db_config_rules :: "db_config \<Rightarrow> (bool \<times> string) list" where
  "db_config_rules c =
     [(\<forall>key \<in> set_option (dbc_encryption_key c). strong_key key,
       ''encryption key is weak (all zeros or all same bytes)''),
      (1 \<le> length (dbc_path c), ''database path cannot be empty''),
      (length (dbc_path c) \<le> 4096, ''database path too long (max 4096 bytes)''),
      (2 ^ 12 \<le> dbc_memtable_max_bytes c, ''memtable_max_bytes must be at least 4096''),
      (dbc_memtable_max_bytes c \<le> 2 ^ 30, ''memtable_max_bytes must be at most 1 GiB''),
      (2 ^ 9 \<le> dbc_block_size c, ''block_size must be at least 512 bytes''),
      (dbc_block_size c \<le> 2 ^ 16, ''block_size must be at most 65536 bytes''),
      (1 \<le> dbc_max_open_files c, ''max_open_files must be at least 1''),
      (dbc_max_open_files c \<le> 100000, ''max_open_files must be at most 100000''),
      (2 ^ 12 \<le> dbc_wal_segment_bytes c, ''wal_segment_bytes must be at least 4096''),
      (dbc_wal_segment_bytes c \<le> 2 ^ 30, ''wal_segment_bytes must be at most 1 GiB'')]
     @ batch_interval_rules (dbc_sync_mode c) @
     [(2 * dbc_block_size c \<le> dbc_memtable_max_bytes c,
       ''memtable_max_bytes must be at least 2x block_size''),
      (dbc_memtable_max_bytes c div 4 \<le> dbc_wal_segment_bytes c,
       ''wal_segment_bytes must be at least memtable_max_bytes/4'')]"

lemma db_rules_simps:
  "db_rules [] = Ok ()"
  "db_rules ((b, m) # rs) = (if b then db_rules rs else Err (Config m))"
  by (simp_all add: db_rules_def)

lemma key_is_valid_strong: "key_is_valid key \<longleftrightarrow> strong_key key"
proof (cases key)
  case (Cons a as)
  have "strong_key key \<longleftrightarrow> \<not> list_all (\<lambda>b. b = a) key"
    unfolding strong_key_def list_all_iff Cons by auto
  moreover have "list_all (\<lambda>b. b = 0) key \<Longrightarrow> list_all (\<lambda>b. b = a) key"
    by (simp add: Cons list_all_iff)
  ultimately show ?thesis
    by (auto simp: key_is_valid_def Cons Let_def)
qed (simp add: key_is_valid_def strong_key_def)

lemma weak_key_iff:
  "(case k of Some key \<Rightarrow> \<not> key_is_valid key | None \<Rightarrow> False) \<longleftrightarrow> \<not> (\<forall>key \<in> set_option k. strong_key key)"
  by (cases k) (simp_all add: key_is_valid_strong)

lemma db_validate_rules: "db_validate c = db_rules (db_config_rules c)"
proof (cases "dbc_sync_mode c")
  case (SyncBatch ms)
  then show ?thesis
    unfolding db_validate_def db_config_rules_def batch_interval_rules_def weak_key_iff
    by (auto simp: db_rules_simps USIZE_MAX_def not_less not_le mult.commute word_neq_0_conv Suc_le_eq)
next
  case SyncAlways
  then show ?thesis
    unfolding db_validate_def db_config_rules_def batch_interval_rules_def weak_key_iff
    by (auto simp: db_rules_simps USIZE_MAX_def not_less not_le mult.commute Suc_le_eq)
next
  case SyncNever
  then show ?thesis
    unfolding db_validate_def db_config_rules_def batch_interval_rules_def weak_key_iff
    by (auto simp: db_rules_simps USIZE_MAX_def not_less not_le mult.commute Suc_le_eq)
qed

lemma db_rules_Ok_iff: "db_rules rs = Ok () \<longleftrightarrow> list_all fst rs"
  by (induction rs) (auto simp: db_rules_simps split: if_splits)

lemma db_rules_Err_iff:
  "db_rules rs = Err e \<longleftrightarrow>
     (\<exists>pre m post. rs = pre @ (False, m) # post \<and> list_all fst pre \<and> e = Config m)"
proof (induction rs)
  case (Cons r rs)
  obtain b m where r: "r = (b, m)" by (cases r)
  show ?case
  proof (cases b)
    case True
    have "(\<exists>pre post. r # rs = pre @ (False, m') # post \<and> list_all fst pre) \<longleftrightarrow>
          (\<exists>pre post. rs = pre @ (False, m') # post \<and> list_all fst pre)" (is "?l \<longleftrightarrow> ?r") for m'
    proof
      assume ?l
      then show ?r by (auto simp: r True Cons_eq_append_conv)
    next
      assume ?r
      then obtain pre post where "rs = pre @ (False, m') # post" "list_all fst pre" by blast
      then have "r # rs = (r # pre) @ (False, m') # post \<and> list_all fst (r # pre)" by (simp add: r True)
      then show ?l by blast
    qed
    then have "(\<exists>pre m' post. r # rs = pre @ (False, m') # post \<and> list_all fst pre \<and> e = Config m') \<longleftrightarrow>
          (\<exists>pre m' post. rs = pre @ (False, m') # post \<and> list_all fst pre \<and> e = Config m')"
      by blast
    then show ?thesis by (simp add: r True db_rules_simps Cons.IH)
  next
    case False
    then show ?thesis by (auto simp: r db_rules_simps Cons_eq_append_conv intro: exI [of _ "[]"])
  qed
qed (simp add: db_rules_simps)

lemma db_rules_not_Panic: "db_rules rs \<noteq> Panic"
  by (simp add: db_rules_def split: option.split)

lemma default_db_config_valid: "db_validate default_db_config = Ok ()"
  by (simp add: db_validate_def default_db_config_def default_sync_mode_def USIZE_MAX_def)

text \<open>Builders touch one field each, so on a valid configuration only the rules of that field matter.\<close>

lemma db_builders_valid:
  assumes "db_validate c = Ok ()"
  shows "db_validate (with_encryption c key) = Ok () \<longleftrightarrow> strong_key key"
    and "db_validate (with_max_open_files c n) = Ok () \<longleftrightarrow> 1 \<le> n \<and> n \<le> 100000"
    and "db_validate (with_block_size c n) = Ok () \<longleftrightarrow>
           512 \<le> n \<and> n \<le> 65536 \<and> 2 * n \<le> dbc_memtable_max_bytes c"
  using assms
  by (auto simp: db_validate_rules db_rules_Ok_iff db_config_rules_def with_encryption_def
      with_max_open_files_def with_block_size_def)

text \<open>C39. The static check of the database configuration never panics, accepts exactly the configurations
  that satisfy every rule of the table, and refuses any other with the message of the first rule it
  breaks. The file-system check passes exactly when nothing exists at the path, or a directory
  does whose permissions can be read and allow writing.\<close>

theorem db_validate_first_rule:
  "db_validate c \<noteq> Panic \<and>
   (db_validate c = Ok () \<longleftrightarrow> list_all fst (db_config_rules c)) \<and>
   (db_validate c = Err e \<longleftrightarrow>
      (\<exists>pre m post. db_config_rules c = pre @ (False, m) # post \<and> list_all fst pre \<and> e = Config m)) \<and>
   (db_validate_path FS c = Ok () \<longleftrightarrow>
      \<not> fs_exists FS (dbc_path c) \<or> (fs_is_dir FS (dbc_path c) \<and> fs_metadata FS (dbc_path c) = Ok False))"
  by (auto simp: db_validate_rules db_rules_not_Panic db_rules_Ok_iff db_rules_Err_iff
      db_validate_path_def Let_def split: result.splits if_splits)

text \<open>At the defaults with a block of 8 KiB and a table of 8 KiB the first broken rule is the relation
  between the two sizes; a file in place of the directory is refused.\<close>

theorem db_validate_first_rule_witness:
  "db_validate (with_block_size (with_memtable_size default_db_config 8192) 8192) =
     Err (Config ''memtable_max_bytes must be at least 2x block_size'') \<and>
   db_validate_path \<lparr>fs_exists = \<lambda>_. True, fs_is_dir = \<lambda>_. False, fs_metadata = \<lambda>_. Ok False\<rparr>
     default_db_config \<noteq> Ok ()"
  using db_validate_first_rule [of default_db_config Closed
      "\<lparr>fs_exists = \<lambda>_. True, fs_is_dir = \<lambda>_. False, fs_metadata = \<lambda>_. Ok False\<rparr>"]
  by (simp add: db_validate_def default_db_config_def default_sync_mode_def USIZE_MAX_def
      with_block_size_def with_memtable_size_def)

end
