(* ===== verification/Auth.thy ===== *)
theory Auth
  imports Prelude "HOL-Library.AList"
begin

text \<open>
  \<open>crates/aevum-api/src/auth.rs\<close>: authentication of signed API requests. A request passes when its
  time is within the drift on both sides, its nonce is not remembered for its key, and the
  signature verifies on the hash of a domain-bound payload. The cache remembers, per key, the last
  nonces accepted, in a queue of bounded length.

  The lemmas: what is accepted and what each refusal means; a refused request changes nothing; an
  accepted request is refused as a replay until as many further requests of the same key were
  accepted as the cache holds; the payload commits to every field; the chain id of the
  configuration plays no part.
\<close>

section \<open>The service\<close>

record 'pk signed_request =
  sr_body :: bytes
  sr_public_key :: 'pk
  sr_signature :: bytes
  sr_timestamp :: u64
  sr_nonce :: u64
  sr_chain_id :: u64
  sr_endpoint :: u32
  sr_api_version :: u16

datatype auth_result = Valid | InvalidSignature | Expired | FutureTimestamp | Replay

record auth_config =
  ac_max_timestamp_drift :: u64
  ac_max_future_drift :: u64
  ac_nonce_cache_size :: nat
  ac_chain_id :: u64

definition auth_config_default :: auth_config where
  "auth_config_default =
     \<lparr>ac_max_timestamp_drift = 300, ac_max_future_drift = 30, ac_nonce_cache_size = 5000, ac_chain_id = 1\<rparr>"

record nonce_cache =
  nc_map :: "(bytes \<times> u64 list) list"
  nc_max_size :: nat

definition nonce_cache_new :: "nat \<Rightarrow> nonce_cache" where
  "nonce_cache_new max_size = \<lparr>nc_map = [], nc_max_size = max_size\<rparr>"

definition nonce_contains :: "nonce_cache \<Rightarrow> bytes \<Rightarrow> u64 \<Rightarrow> bool" where
  "nonce_contains c addr nonce = (case map_of (nc_map c) addr of None \<Rightarrow> False | Some q \<Rightarrow> nonce \<in> set q)"

definition nonce_insert :: "bytes \<Rightarrow> u64 \<Rightarrow> nonce_cache \<Rightarrow> nonce_cache" where
  "nonce_insert addr nonce c =
     (let queue = (case map_of (nc_map c) addr of None \<Rightarrow> [] | Some q \<Rightarrow> q);
          queue1 = (if nc_max_size c \<le> length queue then tl queue else queue)
      in c\<lparr>nc_map := AList.update addr (queue1 @ [nonce]) (nc_map c)\<rparr>)"

definition nonce_len :: "nonce_cache \<Rightarrow> nat" where
  "nonce_len c = length (nc_map c)"

definition total_nonces :: "nonce_cache \<Rightarrow> nat" where
  "total_nonces c = sum_list (map (length \<circ> snd) (nc_map c))"

record auth_service =
  as_config :: auth_config
  as_nonces :: nonce_cache
  as_current_time :: u64

definition auth_new :: "auth_config \<Rightarrow> auth_service" where
  "auth_new config =
     \<lparr>as_config = config, as_nonces = nonce_cache_new (ac_nonce_cache_size config), as_current_time = 0\<rparr>"

definition auth_tick :: "u64 \<Rightarrow> auth_service \<Rightarrow> auth_service" where
  "auth_tick time s = s\<lparr>as_current_time := time\<rparr>"

definition payload_preimage :: "'pk signed_request \<Rightarrow> bytes" where
  "payload_preimage req =
     ascii ''AEVUM_AUTH_V2'' @ sr_body req @ le64 (sr_timestamp req) @ le64 (sr_nonce req)
     @ le64 (sr_chain_id req) @ le32 (sr_endpoint req) @ le16 (sr_api_version req)"

definition build_payload :: "'pk crypto_api \<Rightarrow> 'pk signed_request \<Rightarrow> bytes" where
  "build_payload C req = blake3 C (payload_preimage req)"

definition auth_verify ::
  "'pk crypto_api \<Rightarrow> 'pk signed_request \<Rightarrow> auth_service \<Rightarrow> auth_service \<times> auth_result" where
  "auth_verify C req s =
     (let addr = pk_bytes C (sr_public_key req) in
      if sat_add (as_current_time s) (ac_max_future_drift (as_config s)) < sr_timestamp req then (s, FutureTimestamp)
      else if ac_max_timestamp_drift (as_config s) < sat_sub (as_current_time s) (sr_timestamp req) then (s, Expired)
      else if nonce_contains (as_nonces s) addr (sr_nonce req) then (s, Replay)
      else let payload = build_payload C req in
        if \<not> pk_verify C (sr_public_key req) payload (sr_signature req) then (s, InvalidSignature)
        else (s\<lparr>as_nonces := nonce_insert addr (sr_nonce req) (as_nonces s)\<rparr>, Valid))"

record auth_stats =
  as_tracked_senders :: nat
  as_total_nonces :: nat

definition auth_get_stats :: "auth_service \<Rightarrow> auth_stats" where
  "auth_get_stats s = \<lparr>as_tracked_senders = nonce_len (as_nonces s), as_total_nonces = total_nonces (as_nonces s)\<rparr>"

section \<open>Nonces of one key\<close>

definition nonces_of :: "auth_service \<Rightarrow> bytes \<Rightarrow> u64 list" where
  "nonces_of s addr = (case map_of (nc_map (as_nonces s)) addr of None \<Rightarrow> [] | Some q \<Rightarrow> q)"

lemma nonce_contains_iff: "nonce_contains (as_nonces s) addr n \<longleftrightarrow> n \<in> set (nonces_of s addr)"
  by (simp add: nonce_contains_def nonces_of_def split: option.split)

lemma auth_valid_iff:
  "snd (auth_verify C req s) = Valid \<longleftrightarrow>
     sr_timestamp req \<le> sat_add (as_current_time s) (ac_max_future_drift (as_config s))
     \<and> sat_sub (as_current_time s) (sr_timestamp req) \<le> ac_max_timestamp_drift (as_config s)
     \<and> sr_nonce req \<notin> set (nonces_of s (pk_bytes C (sr_public_key req)))
     \<and> pk_verify C (sr_public_key req) (build_payload C req) (sr_signature req)"
  by (auto simp: auth_verify_def Let_def nonce_contains_iff not_less)

lemma auth_refused: "snd (auth_verify C req s) \<noteq> Valid \<Longrightarrow> fst (auth_verify C req s) = s"
  by (auto simp: auth_verify_def Let_def split: if_splits)

lemma auth_nonces_valid:
  assumes "snd (auth_verify C req s) = Valid"
  shows "nonces_of (fst (auth_verify C req s)) a =
    (if a = pk_bytes C (sr_public_key req)
     then (if nc_max_size (as_nonces s) \<le> length (nonces_of s a) then tl (nonces_of s a) else nonces_of s a) @ [sr_nonce req]
     else nonces_of s a)"
  using assms
  by (auto simp: auth_verify_def Let_def nonces_of_def nonce_insert_def update_conv' split: if_splits)

lemma auth_size [simp]: "nc_max_size (as_nonces (fst (auth_verify C req s))) = nc_max_size (as_nonces s)"
  by (simp add: auth_verify_def Let_def nonce_insert_def)

section \<open>Sequences of requests\<close>

datatype 'pk auth_op = TickOp u64 | RequestOp "'pk signed_request"

fun auth_step :: "'pk crypto_api \<Rightarrow> 'pk auth_op \<Rightarrow> auth_service \<Rightarrow> auth_service" where
  "auth_step C (TickOp t) s = auth_tick t s"
| "auth_step C (RequestOp req) s = fst (auth_verify C req s)"

text \<open>How many requests of a key a sequence of operations gets accepted.\<close>

fun accepted_of :: "'pk crypto_api \<Rightarrow> bytes \<Rightarrow> 'pk auth_op list \<Rightarrow> auth_service \<Rightarrow> nat" where
  "accepted_of C a [] s = 0"
| "accepted_of C a (TickOp t # xs) s = accepted_of C a xs (auth_tick t s)"
| "accepted_of C a (RequestOp req # xs) s =
     (if snd (auth_verify C req s) = Valid \<and> pk_bytes C (sr_public_key req) = a then 1 else 0)
     + accepted_of C a xs (fst (auth_verify C req s))"

lemma tick_frame [simp]: "nonces_of (auth_tick t s) a = nonces_of s a" "as_nonces (auth_tick t s) = as_nonces s"
  by (simp_all add: auth_tick_def nonces_of_def)

text \<open>
  A nonce at position \<open>i\<close> of a full queue of length \<open>n\<close> is still there after \<open>i\<close> further acceptances.
\<close>

lemma nonce_survives:
  assumes "nonces_of s a = pre @ n # post" and "length (nonces_of s a) \<le> nc_max_size (as_nonces s)"
    and "length post + accepted_of C a xs s < nc_max_size (as_nonces s)"
  shows "n \<in> set (nonces_of (fold (auth_step C) xs s) a)"
  using assms
proof (induction C a xs s arbitrary: pre post rule: accepted_of.induct)
  case (1 C a s)
  then show ?case by simp
next
  case (2 C a t xs s)
  then show ?case by simp
next
  case (3 C a req xs s)
  let ?s = "fst (auth_verify C req s)"
  show ?case
  proof (cases "snd (auth_verify C req s) = Valid")
    case False
    then have "?s = s" by (rule auth_refused)
    with 3 False show ?thesis by simp
  next
    case ok: True
    show ?thesis
    proof (cases "pk_bytes C (sr_public_key req) = a")
      case False
      then have "nonces_of ?s a = nonces_of s a" by (simp add: auth_nonces_valid [OF ok])
      with 3 False show ?thesis by simp
    next
      case True
      define q where "q = (if nc_max_size (as_nonces s) \<le> length (nonces_of s a) then tl (nonces_of s a) else nonces_of s a)"
      have eq: "nonces_of ?s a = q @ [sr_nonce req]" using True by (simp add: auth_nonces_valid [OF ok] q_def)
      have "\<exists>pre'. q = pre' @ n # post"
      proof (cases pre)
        case Nil
        with "3.prems" True ok have "\<not> nc_max_size (as_nonces s) \<le> length (nonces_of s a)" by simp
        then show ?thesis using "3.prems"(1) by (auto simp: q_def)
      next
        case (Cons x pre')
        then show ?thesis using "3.prems"(1) by (auto simp: q_def)
      qed
      then obtain pre' where q: "q = pre' @ n # post" by blast
      have len: "length (nonces_of ?s a) \<le> nc_max_size (as_nonces ?s)"
        using "3.prems"(2,3) unfolding eq by (auto simp: q_def)
      have "n \<in> set (nonces_of (fold (auth_step C) xs ?s) a)"
        using "3.prems"(3) True ok len by (intro "3.IH" [of pre' "post @ [sr_nonce req]"]) (simp_all add: eq q)
      then show ?thesis by simp
    qed
  qed
qed

definition auth_inv :: "auth_service \<Rightarrow> bool" where
  "auth_inv s \<longleftrightarrow> (\<forall>a. length (nonces_of s a) \<le> nc_max_size (as_nonces s))"

lemma auth_step_inv: "auth_inv s \<Longrightarrow> 0 < nc_max_size (as_nonces s) \<Longrightarrow> auth_inv (auth_step C x s)"
proof (cases x)
  case (TickOp t)
  assume "auth_inv s"
  then show ?thesis by (simp add: TickOp auth_inv_def)
next
  case (RequestOp req)
  assume inv: "auth_inv s" and pos: "0 < nc_max_size (as_nonces s)"
  show ?thesis
  proof (cases "snd (auth_verify C req s) = Valid")
    case True
    have "length (nonces_of (fst (auth_verify C req s)) a) \<le> nc_max_size (as_nonces s)" for a
    proof -
      have "length (nonces_of s a) \<le> nc_max_size (as_nonces s)" using inv by (simp add: auth_inv_def)
      with pos show ?thesis unfolding auth_nonces_valid [OF True] by (cases "nonces_of s a") auto
    qed
    then show ?thesis by (simp add: RequestOp auth_inv_def)
  next
    case False
    then show ?thesis using inv by (simp add: RequestOp auth_refused)
  qed
qed

lemma auth_run_inv:
  assumes "0 < ac_nonce_cache_size cfg"
  shows "auth_inv (fold (auth_step C) xs (auth_new cfg))
    \<and> nc_max_size (as_nonces (fold (auth_step C) xs (auth_new cfg))) = ac_nonce_cache_size cfg"
proof -
  have step: "nc_max_size (as_nonces (auth_step C x s)) = nc_max_size (as_nonces s)" for x s
    by (cases x) simp_all
  have "auth_inv s \<Longrightarrow> 0 < nc_max_size (as_nonces s) \<Longrightarrow>
    auth_inv (fold (auth_step C) xs s) \<and> nc_max_size (as_nonces (fold (auth_step C) xs s)) = nc_max_size (as_nonces s)" for s
    by (induction xs arbitrary: s) (simp_all add: auth_step_inv step)
  moreover have "auth_inv (auth_new cfg)"
    by (simp add: auth_inv_def auth_new_def nonces_of_def nonce_cache_new_def)
  ultimately show ?thesis using assms by (simp add: auth_new_def nonce_cache_new_def)
qed

text \<open>
  C26. No accepted request is accepted again while its nonce is remembered. Take any sequence of clock ticks
  and requests on a new service with a cache of at least one nonce, a request accepted at its end, and any
  further sequence in which fewer requests of the same key are accepted than the cache holds: then
  the request (or any other with the same key and nonce) is not accepted. Refused requests of any
  kind cannot push the nonce out.
\<close>

theorem auth_no_replay:
  assumes "s = fold (auth_step C) xs (auth_new cfg)"
    and "snd (auth_verify C req s) = Valid"
    and "accepted_of C (pk_bytes C (sr_public_key req)) ys (fst (auth_verify C req s)) < ac_nonce_cache_size cfg"
    and "sr_public_key req' = sr_public_key req" and "sr_nonce req' = sr_nonce req"
  shows "snd (auth_verify C req' (fold (auth_step C) ys (fst (auth_verify C req s)))) \<noteq> Valid"
proof -
  let ?a = "pk_bytes C (sr_public_key req)" and ?s1 = "fst (auth_verify C req s)"
  have pos: "0 < ac_nonce_cache_size cfg" using assms(3) by simp
  have inv: "auth_inv s" and sz: "nc_max_size (as_nonces s) = ac_nonce_cache_size cfg"
    using auth_run_inv [OF pos, of C xs] by (simp_all add: assms(1))
  have inv1: "auth_inv ?s1" using auth_step_inv [OF inv, of C "RequestOp req"] pos sz by simp
  obtain pre where q: "nonces_of ?s1 ?a = pre @ sr_nonce req # []" by (simp add: auth_nonces_valid [OF assms(2)])
  have "sr_nonce req \<in> set (nonces_of (fold (auth_step C) ys ?s1) ?a)"
    using inv1 assms(3) sz by (intro nonce_survives [OF q]) (simp_all add: auth_inv_def)
  then show ?thesis using assms(4,5) by (simp add: auth_valid_iff)
qed

definition sample_request :: "u64 \<Rightarrow> u8 signed_request" where
  "sample_request nonce =
     (let r = \<lparr>sr_body = [1], sr_public_key = 7, sr_signature = [], sr_timestamp = 5, sr_nonce = nonce,
               sr_chain_id = 1, sr_endpoint = 0, sr_api_version = 2\<rparr>
      in r\<lparr>sr_signature := payload_preimage r\<rparr>)"

lemma sample_request_sel [simp]:
  "sr_public_key (sample_request n) = 7" "sr_nonce (sample_request n) = n" "sr_timestamp (sample_request n) = 5"
  "build_payload sample_crypto (sample_request n) = sr_signature (sample_request n)"
  by (simp_all add: sample_request_def Let_def build_payload_def sample_crypto_def payload_preimage_def)

lemma sample_request_valid:
  assumes "n \<notin> set (nonces_of s (pk_bytes sample_crypto 7))" and "as_current_time s = 0"
    and "as_config s = c" and "ac_max_future_drift c = 30"
  shows "snd (auth_verify sample_crypto (sample_request n) s) = Valid"
  using assms by (simp add: auth_valid_iff) (simp add: sample_crypto_def sat_add_def sat_sub_def)

theorem auth_no_replay_witness:
  "snd (auth_verify sample_crypto (sample_request 1)
     (fold (auth_step sample_crypto) [TickOp 6]
        (fst (auth_verify sample_crypto (sample_request 1) (auth_new auth_config_default))))) \<noteq> Valid"
proof (rule auth_no_replay)
  show "auth_new auth_config_default = fold (auth_step sample_crypto) [] (auth_new auth_config_default)" by simp
  show "snd (auth_verify sample_crypto (sample_request 1) (auth_new auth_config_default)) = Valid"
    by (rule sample_request_valid [OF _ _ refl])
      (simp_all add: auth_new_def nonces_of_def nonce_cache_new_def auth_config_default_def)
qed (simp_all add: auth_config_default_def)

text \<open>The bound is sharp: a cache of one nonce accepts a request again after one other.\<close>

definition tiny_config :: auth_config where
  "tiny_config = auth_config_default\<lparr>ac_nonce_cache_size := 1\<rparr>"

lemma auth_replay_after_eviction:
  assumes "s1 = fst (auth_verify sample_crypto (sample_request 1) (auth_new tiny_config))"
    and "s2 = fst (auth_verify sample_crypto (sample_request 2) s1)"
  shows "snd (auth_verify sample_crypto (sample_request 1) (auth_new tiny_config)) = Valid
    \<and> snd (auth_verify sample_crypto (sample_request 1) s2) = Valid"
proof -
  let ?k = "pk_bytes sample_crypto 7" and ?s0 = "auth_new tiny_config"
  have c0: "as_current_time ?s0 = 0" "as_config ?s0 = tiny_config" "nonces_of ?s0 ?k = []"
    "nc_max_size (as_nonces ?s0) = 1" "ac_max_future_drift tiny_config = 30"
    by (simp_all add: auth_new_def nonces_of_def nonce_cache_new_def tiny_config_def auth_config_default_def)
  have keep: "as_current_time (fst (auth_verify sample_crypto r s)) = as_current_time s"
    "as_config (fst (auth_verify sample_crypto r s)) = as_config s" for r s
    by (simp_all add: auth_verify_def Let_def)
  have v0: "snd (auth_verify sample_crypto (sample_request 1) ?s0) = Valid"
    using c0 by (intro sample_request_valid [OF _ _ refl]) simp_all
  have n1: "nonces_of s1 ?k = [1]" using auth_nonces_valid [OF v0, of ?k] c0 by (simp add: assms(1))
  have v1: "snd (auth_verify sample_crypto (sample_request 2) s1) = Valid"
    using c0 n1 keep by (intro sample_request_valid [OF _ _ refl]) (simp_all add: assms(1))
  have "nonces_of s2 ?k = [2]" using auth_nonces_valid [OF v1, of ?k] c0 n1 by (simp add: assms)
  then have "snd (auth_verify sample_crypto (sample_request 1) s2) = Valid"
    using c0 keep by (intro sample_request_valid [OF _ _ refl]) (simp_all add: assms)
  with v0 show ?thesis by simp
qed

text \<open>
  A request is accepted exactly when its time is at most the future drift ahead and at most the
  timestamp drift behind the clock, its nonce is not remembered for its key and the signature verifies
  on its payload; every other outcome leaves the service unchanged. The chain id of the
  configuration is never compared with that of the request.
\<close>

theorem auth_decides:
  "(snd (auth_verify C req s) = Valid \<longleftrightarrow>
     sr_timestamp req \<le> sat_add (as_current_time s) (ac_max_future_drift (as_config s))
     \<and> sat_sub (as_current_time s) (sr_timestamp req) \<le> ac_max_timestamp_drift (as_config s)
     \<and> sr_nonce req \<notin> set (nonces_of s (pk_bytes C (sr_public_key req)))
     \<and> pk_verify C (sr_public_key req) (build_payload C req) (sr_signature req))
   \<and> (snd (auth_verify C req s) = Valid \<or> fst (auth_verify C req s) = s)
   \<and> snd (auth_verify C req (s\<lparr>as_config := (as_config s)\<lparr>ac_chain_id := c\<rparr>\<rparr>)) = snd (auth_verify C req s)"
proof -
  have "snd (auth_verify C req (s\<lparr>as_config := (as_config s)\<lparr>ac_chain_id := c\<rparr>\<rparr>)) = snd (auth_verify C req s)"
    by (simp add: auth_verify_def Let_def)
  then show ?thesis using auth_valid_iff [of C req s] auth_refused [of C req s] by blast
qed

section \<open>The payload\<close>

lemma payload_binds:
  assumes "payload_preimage x = payload_preimage y"
  shows "(sr_body x, sr_timestamp x, sr_nonce x, sr_chain_id x, sr_endpoint x, sr_api_version x)
       = (sr_body y, sr_timestamp y, sr_nonce y, sr_chain_id y, sr_endpoint y, sr_api_version y)"
proof -
  have "length (payload_preimage x) = length (payload_preimage y)" using assms by simp
  then have "length (sr_body x) = length (sr_body y)" by (simp add: payload_preimage_def)
  with assms show ?thesis by (simp add: payload_preimage_def append_eq_append_conv)
qed

interpretation payload_binding: binding payload_preimage "\<lambda>_. True"
  "\<lambda>r. (sr_body r, sr_timestamp r, sr_nonce r, sr_chain_id r, sr_endpoint r, sr_api_version r)"
  by unfold_locales (rule payload_binds)

lemma payload_commits:
  assumes "no_collision C (payload_preimage x) (payload_preimage y)" and "build_payload C x = build_payload C y"
  shows "sr_body x = sr_body y \<and> sr_nonce x = sr_nonce y \<and> sr_chain_id x = sr_chain_id y
    \<and> sr_endpoint x = sr_endpoint y \<and> sr_api_version x = sr_api_version y \<and> sr_timestamp x = sr_timestamp y"
  using payload_binding.hash_binds [OF TrueI TrueI assms(1)] assms(2) by (simp add: build_payload_def)

end
