(* ===== verification/Handlers.thy ===== *)
theory Handlers
  imports Prelude
begin

text \<open>
  \<open>crates/aevum-api/src/handlers.rs\<close>: the functions that build the replies of the public API. The reply
  types and the version string are declared in a file that is not in the repository: the records below
  have the fields that the functions fill in, and the version is an argument, as is the hexadecimal text
  of a hash (\<open>to_hex\<close>).

  The lemmas: a node reports healthy exactly when it is near the tip and has peers; the reported
  transaction hash is the hash of the submitted one, which is a different value.
\<close>

datatype node_status = Syncing | Degraded | Healthy

record health_response =
  hr_status :: node_status
  hr_version :: string
  hr_block_height :: u64
  hr_peer_count :: u64
  hr_uptime_secs :: u64
  hr_is_sealed :: bool
  hr_chain_finality :: u64

definition health :: "string \<Rightarrow> u64 \<Rightarrow> u64 \<Rightarrow> u64 \<Rightarrow> u64 \<Rightarrow> health_response" where
  "health version block_height peer_count uptime_secs sync_lag =
     (let status = (if sync_lag > 100 then Syncing else if peer_count = 0 then Degraded else Healthy) in
      \<lparr>hr_status = status,
       hr_version = version,
       hr_block_height = block_height,
       hr_peer_count = peer_count,
       hr_uptime_secs = uptime_secs,
       hr_is_sealed = False,
       hr_chain_finality = block_height\<rparr>)"

record metrics_response =
  mr_block_height :: u64
  mr_mempool_size :: u64
  mr_tps :: u64
  mr_errors_total :: u64
  mr_fraud_alerts :: u64
  mr_zk_proofs_verified :: u64
  mr_dao_proposals :: u64
  mr_dna_nodes :: u64
  mr_finality_index :: u64

definition metrics :: "u64 \<Rightarrow> u64 \<Rightarrow> u64 \<Rightarrow> u64 \<Rightarrow> u64 \<Rightarrow> metrics_response" where
  "metrics block_height mempool_size tps errors_total fraud_alerts =
     \<lparr>mr_block_height = block_height,
      mr_mempool_size = mempool_size,
      mr_tps = tps,
      mr_errors_total = errors_total,
      mr_fraud_alerts = fraud_alerts,
      mr_zk_proofs_verified = 0,
      mr_dao_proposals = 0,
      mr_dna_nodes = 0,
      mr_finality_index = block_height\<rparr>"

datatype tx_status = TxAccepted | TxRejected

record tx_response =
  tr_tx_hash :: string
  tr_status :: tx_status
  tr_finality_height :: "u64 option"
  tr_dna_verified :: bool

definition api_submit_tx ::
  "'pk crypto_api \<Rightarrow> (hash \<Rightarrow> string) \<Rightarrow> hash \<Rightarrow> bool \<Rightarrow> tx_response" where
  "api_submit_tx C to_hex h accepted =
     \<lparr>tr_tx_hash = to_hex (blake3 C h),
      tr_status = (if accepted then TxAccepted else TxRejected),
      tr_finality_height = None,
      tr_dna_verified = False\<rparr>"

record 'k api_error =
  ae_error :: 'k
  ae_message :: string
  ae_code :: u16
  ae_request_id :: "string option"

definition error_response :: "string \<Rightarrow> 'k \<Rightarrow> u16 \<Rightarrow> 'k api_error" where
  "error_response msg kind code =
     \<lparr>ae_error = kind, ae_message = msg, ae_code = code, ae_request_id = None\<rparr>"

section \<open>What the replies say\<close>

lemma health_status:
  "hr_status (health v h peers up lag) = Healthy \<longleftrightarrow> lag \<le> 100 \<and> 0 < peers"
  "hr_status (health v h peers up lag) = Syncing \<longleftrightarrow> 100 < lag"
  "hr_status (health v h peers up lag) = Degraded \<longleftrightarrow> lag \<le> 100 \<and> peers = 0"
  by (auto simp: health_def not_less word_neq_0_conv)

text \<open>
  The reply of a submission carries the hexadecimal text of the hash of the transaction hash. It is the
  text of the transaction hash only where the hash function has a fixed point.
\<close>

lemma submit_reports_rehash:
  assumes "inj to_hex" and "blake3 C h \<noteq> h"
  shows "tr_tx_hash (api_submit_tx C to_hex h accepted) \<noteq> to_hex h"
  using assms by (simp add: api_submit_tx_def inj_eq)

end
