(* ===== verification/Trust.thy ===== *)
theory Trust
  imports Prelude
begin

text \<open>
  \<open>crates/aevum-consensus/src/trust.rs\<close>: the set of delegates, how new ones are admitted, and the hash
  that commits to the set. A \<open>BTreeSet\<close> is the strictly sorted list of its elements, which is also
  the order in which it is hashed. \<open>usize\<close> values are natural numbers.

  The lemmas: after any calls the trust root verifies, the set is within its limit and the quorum
  between 3 and 9; a delegate is admitted by the genesis key alone or by a quorum of distinct
  delegates; the root commits to version, epoch and every delegate. The quorum is capped at 9, so it
  falls below two thirds from 14 delegates on.
\<close>

section \<open>The model\<close>

definition MAINNET_GENESIS_BOOTSTRAP :: bytes where
  "MAINNET_GENESIS_BOOTSTRAP =
     [0x9e, 0x3a, 0xe8, 0x84, 0x6e, 0x53, 0xf5, 0x1b,
      0x66, 0xed, 0xf3, 0xd9, 0xc6, 0x14, 0xfc, 0x76,
      0x65, 0x0f, 0xa9, 0x3b, 0xb9, 0x16, 0x20, 0xb4,
      0x7c, 0x44, 0xf9, 0x96, 0x79, 0x70, 0x0e, 0x30]"

definition DOMAIN_TRUST_ROOT :: bytes where
  "DOMAIN_TRUST_ROOT = ascii ''AEVUM_TRUST_ROOT_V6''"

record trust_model =
  tm_trust_version :: u16
  tm_current_epoch :: u64
  tm_genesis_bootstrap :: bytes
  tm_delegates :: "bytes list"
  tm_min_quorum :: nat
  tm_max_quorum :: nat
  tm_max_delegates :: nat
  tm_trust_root :: bytes

datatype trust_error =
    NotAuthorized
  | AlreadyDelegate
  | DelegateLimitReached
  | VoterNotDelegate
  | NoQuorum nat nat

text \<open>\<open>BTreeSet::insert\<close> and \<open>iter().collect::<BTreeSet<_>>()\<close>.\<close>

definition bs_insert :: "'a::linorder \<Rightarrow> 'a list \<Rightarrow> 'a list" where
  "bs_insert x xs = (if x \<in> set xs then xs else insort x xs)"

definition bs_collect :: "'a::linorder list \<Rightarrow> 'a list" where
  "bs_collect xs = fold bs_insert xs []"

definition trust_preimage :: "trust_model \<Rightarrow> bytes" where
  "trust_preimage m = DOMAIN_TRUST_ROOT @ le16 (tm_trust_version m) @ le64 (tm_current_epoch m)
     @ concat (tm_delegates m)"

definition recompute_trust_root :: "'pk crypto_api \<Rightarrow> trust_model \<Rightarrow> trust_model" where
  "recompute_trust_root C m = m\<lparr>tm_trust_root := blake3 C (trust_preimage m)\<rparr>"

definition trust_default :: "'pk crypto_api \<Rightarrow> trust_model" where
  "trust_default C = recompute_trust_root C
     \<lparr>tm_trust_version = 1, tm_current_epoch = 0, tm_genesis_bootstrap = MAINNET_GENESIS_BOOTSTRAP,
      tm_delegates = [], tm_min_quorum = 3, tm_max_quorum = 9, tm_max_delegates = 10000,
      tm_trust_root = replicate 32 0\<rparr>"

definition trust_new_genesis :: "'pk crypto_api \<Rightarrow> trust_model" where
  "trust_new_genesis C =
     (let m = trust_default C
      in recompute_trust_root C (m\<lparr>tm_delegates := bs_insert MAINNET_GENESIS_BOOTSTRAP (tm_delegates m)\<rparr>))"

definition network_size :: "trust_model \<Rightarrow> nat" where
  "network_size m = max (length (tm_delegates m)) 1"

definition quorum :: "trust_model \<Rightarrow> nat" where
  "quorum m = min (max (usize_sat_mul (network_size m) 2 div 3) (tm_min_quorum m)) (tm_max_quorum m)"

definition is_genesis :: "trust_model \<Rightarrow> bytes \<Rightarrow> bool" where
  "is_genesis m pk \<longleftrightarrow> pk = tm_genesis_bootstrap m"

definition is_delegate :: "trust_model \<Rightarrow> bytes \<Rightarrow> bool" where
  "is_delegate m pk \<longleftrightarrow> pk \<in> set (tm_delegates m)"

definition can_endorse :: "trust_model \<Rightarrow> bytes \<Rightarrow> bool" where
  "can_endorse m pk \<longleftrightarrow> is_genesis m pk \<or> is_delegate m pk"

definition admit :: "'pk crypto_api \<Rightarrow> bytes \<Rightarrow> trust_model \<Rightarrow> trust_model" where
  "admit C to m = recompute_trust_root C (m\<lparr>tm_delegates := bs_insert to (tm_delegates m)\<rparr>)"

definition trust_delegate ::
  "'pk crypto_api \<Rightarrow> bytes \<Rightarrow> bytes \<Rightarrow> bytes list \<Rightarrow> trust_model \<Rightarrow> trust_model \<times> (unit, trust_error) result" where
  "trust_delegate C from to endorsements m =
     (if is_delegate m to then (m, Err AlreadyDelegate)
      else if tm_max_delegates m \<le> length (tm_delegates m) then (m, Err DelegateLimitReached)
      else if \<not> can_endorse m from then (m, Err NotAuthorized)
      else if is_genesis m from then (admit C to m, Ok ())
      else let q = quorum m; voters = bs_insert from (bs_collect endorsements) in
        if list_ex (\<lambda>v. \<not> is_delegate m v) voters then (m, Err VoterNotDelegate)
        else if length voters < q then (m, Err (NoQuorum (length voters) q))
        else (admit C to m, Ok ()))"

definition trust_revoke :: "'pk crypto_api \<Rightarrow> bytes \<Rightarrow> trust_model \<Rightarrow> trust_model \<times> bool" where
  "trust_revoke C d m =
     (if d \<in> set (tm_delegates m)
      then (recompute_trust_root C (m\<lparr>tm_delegates := remove1 d (tm_delegates m)\<rparr>), True)
      else (m, False))"

definition can_join :: "trust_model \<Rightarrow> bytes \<Rightarrow> bytes list \<Rightarrow> (unit, trust_error) result" where
  "can_join m candidate endorsements =
     (if is_genesis m candidate then Ok ()
      else if is_delegate m candidate then Err AlreadyDelegate
      else let q = quorum m; voters = bs_collect endorsements in
        if list_ex (\<lambda>v. \<not> can_endorse m v) voters then Err VoterNotDelegate
        else if length voters < q then Err (NoQuorum (length voters) q)
        else Ok ())"

definition advance_epoch :: "'pk crypto_api \<Rightarrow> trust_model \<Rightarrow> trust_model" where
  "advance_epoch C m = recompute_trust_root C (m\<lparr>tm_current_epoch := sat_add (tm_current_epoch m) 1\<rparr>)"

definition verify_root :: "'pk crypto_api \<Rightarrow> trust_model \<Rightarrow> bool" where
  "verify_root C m \<longleftrightarrow> blake3 C (trust_preimage m) = tm_trust_root m"

section \<open>Sets as sorted lists\<close>

lemma set_bs_insert [simp]: "set (bs_insert x xs) = insert x (set xs)"
  by (auto simp: bs_insert_def set_insort_key)

lemma bs_insert_wf: "sorted xs \<and> distinct xs \<Longrightarrow> sorted (bs_insert x xs) \<and> distinct (bs_insert x xs)"
  by (simp add: bs_insert_def sorted_insort distinct_insort)

lemma bs_collect_aux:
  "sorted ys \<and> distinct ys \<Longrightarrow> set (fold bs_insert xs ys) = set xs \<union> set ys
     \<and> sorted (fold bs_insert xs ys) \<and> distinct (fold bs_insert xs ys)"
proof (induction xs arbitrary: ys)
  case (Cons x xs)
  from Cons.IH [OF bs_insert_wf [OF Cons.prems]] show ?case by simp
qed simp

lemma bs_collect_set [simp]: "set (bs_collect xs) = set xs"
  using bs_collect_aux [of "[]" xs] by (simp add: bs_collect_def)

lemma bs_collect_wf: "sorted (bs_collect xs) \<and> distinct (bs_collect xs)"
  using bs_collect_aux [of "[]" xs] by (simp add: bs_collect_def)

lemma length_voters: "length (bs_insert x (bs_collect xs)) = card (insert x (set xs))"
  by (metis bs_collect_set bs_collect_wf bs_insert_wf distinct_card set_bs_insert)

section \<open>Invariant\<close>

definition trust_inv :: "'pk crypto_api \<Rightarrow> trust_model \<Rightarrow> bool" where
  "trust_inv C m \<longleftrightarrow> sorted (tm_delegates m) \<and> distinct (tm_delegates m)
     \<and> length (tm_delegates m) \<le> tm_max_delegates m \<and> tm_max_delegates m = 10000
     \<and> tm_min_quorum m = 3 \<and> tm_max_quorum m = 9
     \<and> tm_genesis_bootstrap m = MAINNET_GENESIS_BOOTSTRAP \<and> verify_root C m"

datatype trust_op = DelegateOp bytes bytes "bytes list" | RevokeOp bytes | AdvanceOp

fun trust_step :: "'pk crypto_api \<Rightarrow> trust_op \<Rightarrow> trust_model \<Rightarrow> trust_model" where
  "trust_step C (DelegateOp from to endorsements) m = fst (trust_delegate C from to endorsements m)"
| "trust_step C (RevokeOp d) m = fst (trust_revoke C d m)"
| "trust_step C AdvanceOp m = advance_epoch C m"

lemma recompute_verifies [simp]: "verify_root C (recompute_trust_root C m)"
  by (simp add: verify_root_def recompute_trust_root_def trust_preimage_def)

lemma recompute_sel [simp]:
  "tm_delegates (recompute_trust_root C m) = tm_delegates m"
  "tm_max_delegates (recompute_trust_root C m) = tm_max_delegates m"
  "tm_min_quorum (recompute_trust_root C m) = tm_min_quorum m"
  "tm_max_quorum (recompute_trust_root C m) = tm_max_quorum m"
  "tm_genesis_bootstrap (recompute_trust_root C m) = tm_genesis_bootstrap m"
  "tm_current_epoch (recompute_trust_root C m) = tm_current_epoch m"
  by (simp_all add: recompute_trust_root_def)

lemma admit_inv:
  "trust_inv C m \<Longrightarrow> length (tm_delegates m) < tm_max_delegates m \<Longrightarrow> trust_inv C (admit C to m)"
  by (auto simp: trust_inv_def admit_def bs_insert_def sorted_insort distinct_insort)

lemma trust_step_inv: "trust_inv C m \<Longrightarrow> trust_inv C (trust_step C x m)"
proof (cases x)
  case (DelegateOp f t ends)
  assume "trust_inv C m"
  then show ?thesis
    by (simp add: DelegateOp trust_delegate_def Let_def admit_inv)
next
  case (RevokeOp d)
  assume "trust_inv C m"
  then show ?thesis
    by (auto simp: RevokeOp trust_revoke_def trust_inv_def sorted_remove1 length_remove1)
next
  case AdvanceOp
  assume "trust_inv C m"
  then show ?thesis by (simp add: AdvanceOp trust_inv_def advance_epoch_def)
qed

lemma trust_init: "trust_inv C (trust_new_genesis C)"
  by (simp add: trust_inv_def trust_new_genesis_def trust_default_def bs_insert_def Let_def)

interpretation trust: step_system "trust_new_genesis C" "trust_step C" "trust_inv C"
  for C :: "'pk crypto_api"
  by unfold_locales (rule trust_init, rule trust_step_inv)

lemma quorum_bounds: "trust_inv C m \<Longrightarrow> 3 \<le> quorum m \<and> quorum m \<le> 9"
  by (simp add: trust_inv_def quorum_def)

lemma quorum_value:
  "trust_inv C m \<Longrightarrow> quorum m = min (max (max (length (tm_delegates m)) 1 * 2 div 3) 3) 9"
proof -
  assume inv: "trust_inv C m"
  then have "max (length (tm_delegates m)) 1 * 2 \<le> USIZE_MAX"
    by (auto simp: trust_inv_def USIZE_MAX_def max_def)
  with inv show ?thesis
    by (simp add: trust_inv_def quorum_def network_size_def usize_sat_mul_def min_absorb1)
qed

text \<open>
  C20. Trust is earned by a quorum. After any sequence of delegations, revocations and epoch changes from
  the genesis model, the trust root verifies, there are at most 10000 delegates, the quorum lies between
  3 and 9; and a delegation succeeds exactly when the new key is not a delegate yet, there
  is room, and either the genesis key delegates or the delegating key together with the endorsing keys
  makes at least a quorum of different keys, every one of them a delegate. Otherwise the model is unchanged.
\<close>

theorem trust_sound:
  assumes "m = fold (trust_step C) ops (trust_new_genesis C)"
  shows "verify_root C m \<and> length (tm_delegates m) \<le> 10000 \<and> 3 \<le> quorum m \<and> quorum m \<le> 9
    \<and> (snd (trust_delegate C from to ends m) = Ok () \<longleftrightarrow>
        to \<notin> set (tm_delegates m) \<and> length (tm_delegates m) < 10000
        \<and> (from = MAINNET_GENESIS_BOOTSTRAP
           \<or> insert from (set ends) \<subseteq> set (tm_delegates m) \<and> quorum m \<le> card (insert from (set ends))))
    \<and> (snd (trust_delegate C from to ends m) \<noteq> Ok () \<longrightarrow> fst (trust_delegate C from to ends m) = m)"
proof -
  have inv: "trust_inv C m" unfolding assms by (rule trust.run_init_inv)
  then have c: "tm_max_delegates m = 10000" "tm_genesis_bootstrap m = MAINNET_GENESIS_BOOTSTRAP"
    by (simp_all add: trust_inv_def)
  have v: "list_ex (\<lambda>v. \<not> is_delegate m v) (bs_insert from (bs_collect ends))
      \<longleftrightarrow> \<not> insert from (set ends) \<subseteq> set (tm_delegates m)"
    by (auto simp: list_ex_iff is_delegate_def)
  have "snd (trust_delegate C from to ends m) = Ok () \<longleftrightarrow>
        to \<notin> set (tm_delegates m) \<and> length (tm_delegates m) < 10000
        \<and> (from = MAINNET_GENESIS_BOOTSTRAP
           \<or> insert from (set ends) \<subseteq> set (tm_delegates m) \<and> quorum m \<le> card (insert from (set ends)))"
    unfolding trust_delegate_def Let_def v length_voters
    by (auto simp: is_delegate_def is_genesis_def can_endorse_def c not_le)
  moreover have "snd (trust_delegate C from to ends m) \<noteq> Ok () \<longrightarrow> fst (trust_delegate C from to ends m) = m"
    by (simp add: trust_delegate_def Let_def)
  ultimately show ?thesis
    using inv quorum_bounds [OF inv] by (simp add: trust_inv_def)
qed

theorem trust_sound_witness:
  "verify_root sample_crypto (fold (trust_step sample_crypto)
     [DelegateOp MAINNET_GENESIS_BOOTSTRAP [1] [], AdvanceOp] (trust_new_genesis sample_crypto))"
  by (rule conjunct1 [OF trust_sound [OF refl]])

text \<open>The cap makes the quorum smaller than the two thirds that the module header promises.\<close>

lemma quorum_capped:
  assumes "trust_inv C m" and "14 \<le> length (tm_delegates m)"
  shows "quorum m = 9" and "3 * quorum m < 2 * length (tm_delegates m)"
proof -
  have "9 \<le> max (length (tm_delegates m)) 1 * 2 div 3" using assms(2) by (simp add: max_def; linarith)
  then show "quorum m = 9" using quorum_value [OF assms(1)] by simp
  with assms(2) show "3 * quorum m < 2 * length (tm_delegates m)" by simp
qed

section \<open>The root\<close>

definition trust_wf :: "trust_model \<Rightarrow> bool" where
  "trust_wf m \<longleftrightarrow> (\<forall>d\<in>set (tm_delegates m). length d = 32)"

lemma trust_preimage_binds:
  assumes "trust_wf x" and "trust_wf y" and "trust_preimage x = trust_preimage y"
  shows "(tm_trust_version x, tm_current_epoch x, tm_delegates x)
       = (tm_trust_version y, tm_current_epoch y, tm_delegates y)"
proof -
  have h: "tm_trust_version x = tm_trust_version y" "tm_current_epoch x = tm_current_epoch y"
    "concat (map (\<lambda>d. d) (tm_delegates x)) = concat (map (\<lambda>d. d) (tm_delegates y))"
    using assms(3) by (simp_all add: trust_preimage_def)
  have "32 * length (tm_delegates x) = 32 * length (tm_delegates y)"
    using h(3) length_concat_fixed [of "tm_delegates x" "\<lambda>d. d" 32]
      length_concat_fixed [of "tm_delegates y" "\<lambda>d. d" 32] assms(1,2)
    by (simp add: trust_wf_def)
  then have "map (\<lambda>d. d) (tm_delegates x) = map (\<lambda>d. d) (tm_delegates y) \<and> ([] :: bytes) = []"
    using h(3) assms(1,2) by (intro concat_fixed_inj [where k = 32]) (simp_all add: trust_wf_def)
  with h show ?thesis by simp
qed

interpretation trust_root_binding: binding trust_preimage trust_wf
  "\<lambda>m. (tm_trust_version m, tm_current_epoch m, tm_delegates m)"
  by unfold_locales (rule trust_preimage_binds)

lemma trust_root_commits:
  assumes "trust_wf x" and "trust_wf y" and "verify_root C x" and "verify_root C y"
    and "tm_trust_root x = tm_trust_root y" and "no_collision C (trust_preimage x) (trust_preimage y)"
  shows "tm_delegates x = tm_delegates y \<and> tm_current_epoch x = tm_current_epoch y
    \<and> tm_trust_version x = tm_trust_version y"
  using trust_root_binding.hash_binds [OF assms(1,2,6)] assms(3-5) by (simp add: verify_root_def)

end
