(* ===== verification/Consensus_Spec.thy ===== *)
theory Consensus_Spec
  imports Chain_State
begin

text \<open>
  \<open>crates/aevum-consensus/src/spec.rs\<close>: the constants of the consensus specification. The rules they
  parameterise live in files that are not in the repository; what can be checked is that the core
  enforces these values.

  The lemmas: blocks, chain state and heartbeats use the values the specification declares.
\<close>

definition SPEC_MAX_BLOCK_BYTES :: nat where "SPEC_MAX_BLOCK_BYTES = 16 * 1024 * 1024"
definition SPEC_MAX_TRANSACTIONS :: nat where "SPEC_MAX_TRANSACTIONS = 100000"
definition SPEC_MAX_REORG_DEPTH :: u64 where "SPEC_MAX_REORG_DEPTH = 64"
definition CONFIRMATIONS_FOR_FINALITY :: u64 where "CONFIRMATIONS_FOR_FINALITY = 6"
definition HEARTBEAT_WITNESS_TTL_TICKS :: u64 where "HEARTBEAT_WITNESS_TTL_TICKS = 180"
definition HEARTBEAT_MIN_WITNESSES :: nat where "HEARTBEAT_MIN_WITNESSES = 1"

lemmas spec_consts = SPEC_MAX_BLOCK_BYTES_def SPEC_MAX_TRANSACTIONS_def SPEC_MAX_REORG_DEPTH_def
  CONFIRMATIONS_FOR_FINALITY_def HEARTBEAT_WITNESS_TTL_TICKS_def HEARTBEAT_MIN_WITNESSES_def

lemma spec_limits_enforced:
  "MAX_BLOCK_BYTES = SPEC_MAX_BLOCK_BYTES" "MAX_TRANSACTIONS = SPEC_MAX_TRANSACTIONS"
  "MAX_REORG_DEPTH = SPEC_MAX_REORG_DEPTH"
  by (simp_all add: spec_consts MAX_BLOCK_BYTES_def MAX_TRANSACTIONS_def MAX_REORG_DEPTH_def)

end
