(* ===== verification/Http_Interleaving.thy ===== *)
theory Http_Interleaving
  imports Http_Server
begin

text \<open>
  \<open>crates/aevum-node/src/http_server.rs\<close>, \<open>submit_tx\<close> under concurrency. The server runs its handlers on
  several workers, and the handler takes the lock of the pool three times: for \<open>len()\<close> in the guard, for
  \<open>insert\<close>, and for \<open>len()\<close> again before the atomic store into the gauge. Between these points another
  worker, or the node's own work on the pool, may run. The step relation \<open>gw_step\<close> makes each point one
  step; the phase of a worker holds the local variables of its handler.

  The lemmas: a worker that is not interrupted computes \<open>http_submit_tx\<close>; in every interleaving the pool is
  sound, but it may exceed the configured limit by the number of workers, and the gauge may end with an
  old length.
\<close>

section \<open>Workers\<close>

datatype ('pk, 'zk, 'dna) gw_thread =
    Idle
  | Received json "u64 option"
  | Guarded "('pk, 'zk, 'dna) transaction" "u64 option"
  | Inserted "('pk, 'zk, 'dna) transaction" bool
  | Counted "('pk, 'zk, 'dna) transaction" bool u64
  | Replied http_response

text \<open>From the start of the handler through the guard on the length of the pool.\<close>

definition gw_check ::
  "'pk crypto_api \<Rightarrow> ('pk, 'zk, 'dna, 'ch, 'lc) http_api \<Rightarrow> json \<Rightarrow> u64 option
   \<Rightarrow> ('pk, 'zk, 'dna, 'ch, 'lc) app_state \<Rightarrow> ('pk, 'zk, 'dna) gw_thread" where
  "gw_check C A body wall s =
     (case submit_check C A body s of Inl reply \<Rightarrow> Replied reply | Inr tx \<Rightarrow> Guarded tx wall)"

record ('pk, 'zk, 'dna, 'ch, 'lc) gateway =
  gw_app :: "('pk, 'zk, 'dna, 'ch, 'lc) app_state"
  gw_workers :: "('pk, 'zk, 'dna) gw_thread list"

definition gw_init :: "nat \<Rightarrow> ('pk, 'zk, 'dna, 'ch, 'lc) app_state \<Rightarrow> ('pk, 'zk, 'dna, 'ch, 'lc) gateway" where
  "gw_init n s = \<lparr>gw_app = s, gw_workers = replicate n Idle\<rparr>"

definition set_worker ::
  "nat \<Rightarrow> ('pk, 'zk, 'dna) gw_thread \<Rightarrow> ('pk, 'zk, 'dna, 'ch, 'lc) gateway \<Rightarrow> ('pk, 'zk, 'dna, 'ch, 'lc) gateway" where
  "set_worker i t g = g\<lparr>gw_workers := (gw_workers g)[i := t]\<rparr>"

definition set_pool ::
  "('pk, 'zk, 'dna) mempool \<Rightarrow> ('pk, 'zk, 'dna, 'ch, 'lc) gateway \<Rightarrow> ('pk, 'zk, 'dna, 'ch, 'lc) gateway" where
  "set_pool pool g = g\<lparr>gw_app := (gw_app g)\<lparr>as_mempool := pool\<rparr>\<rparr>"

definition set_gauge :: "u64 \<Rightarrow> ('pk, 'zk, 'dna, 'ch, 'lc) gateway \<Rightarrow> ('pk, 'zk, 'dna, 'ch, 'lc) gateway" where
  "set_gauge n g =
     g\<lparr>gw_app := (gw_app g)\<lparr>as_metrics := (as_metrics (gw_app g))\<lparr>nm_mempool_size := n\<rparr>\<rparr>\<rparr>"

fun gw_free :: "('pk, 'zk, 'dna) gw_thread \<Rightarrow> bool" where
  "gw_free Idle \<longleftrightarrow> True"
| "gw_free (Replied r) \<longleftrightarrow> True"
| "gw_free _ \<longleftrightarrow> False"

section \<open>Steps\<close>

inductive gw_step ::
  "'pk crypto_api \<Rightarrow> ('pk, 'zk, 'dna, 'ch, 'lc) http_api
   \<Rightarrow> ('pk, 'zk, 'dna, 'ch, 'lc) gateway \<Rightarrow> ('pk, 'zk, 'dna, 'ch, 'lc) gateway \<Rightarrow> bool"
  for C A where
  Arrive: "i < length (gw_workers g) \<Longrightarrow> gw_free (gw_workers g ! i)
     \<Longrightarrow> gw_step C A g (set_worker i (Received body wall) g)"
| Check: "i < length (gw_workers g) \<Longrightarrow> gw_workers g ! i = Received body wall
     \<Longrightarrow> gw_step C A g (set_worker i (gw_check C A body wall (gw_app g)) g)"
| Insert: "i < length (gw_workers g) \<Longrightarrow> gw_workers g ! i = Guarded tx wall
     \<Longrightarrow> mempool_insert now tx (case wall of Some t \<Rightarrow> t | None \<Rightarrow> 0) (as_mempool (gw_app g)) = (pool, accepted)
     \<Longrightarrow> gw_step C A g (set_worker i (Inserted tx accepted) (set_pool pool g))"
| Count: "i < length (gw_workers g) \<Longrightarrow> gw_workers g ! i = Inserted tx accepted
     \<Longrightarrow> gw_step C A g (set_worker i (Counted tx accepted (of_nat (pool_len (as_mempool (gw_app g))))) g)"
| Store: "i < length (gw_workers g) \<Longrightarrow> gw_workers g ! i = Counted tx accepted n
     \<Longrightarrow> gw_step C A g (set_worker i (Replied (submit_reply A tx accepted)) (set_gauge n g))"
| Work: "gw_step C A g (set_pool (node_work op (as_mempool (gw_app g))) g)"

declare gw_step.intros [intro]

inductive_cases gw_stepE: "gw_step C A g g'"

abbreviation gw_steps ::
  "'pk crypto_api \<Rightarrow> ('pk, 'zk, 'dna, 'ch, 'lc) http_api
   \<Rightarrow> ('pk, 'zk, 'dna, 'ch, 'lc) gateway \<Rightarrow> ('pk, 'zk, 'dna, 'ch, 'lc) gateway \<Rightarrow> bool" where
  "gw_steps C A \<equiv> (gw_step C A)\<^sup>*\<^sup>*"

lemma set_sel [simp]:
  "gw_workers (set_worker i t g) = (gw_workers g)[i := t]" "gw_app (set_worker i t g) = gw_app g"
  "gw_workers (set_pool p g) = gw_workers g" "as_mempool (gw_app (set_pool p g)) = p"
  "as_config (gw_app (set_pool p g)) = as_config (gw_app g)"
  "as_metrics (gw_app (set_pool p g)) = as_metrics (gw_app g)"
  "gw_workers (set_gauge n g) = gw_workers g" "as_mempool (gw_app (set_gauge n g)) = as_mempool (gw_app g)"
  "as_config (gw_app (set_gauge n g)) = as_config (gw_app g)"
  "nm_mempool_size (as_metrics (gw_app (set_gauge n g))) = n"
  "as_metrics (gw_app (set_worker i t g)) = as_metrics (gw_app g)"
  by (simp_all add: set_worker_def set_pool_def set_gauge_def)

section \<open>The invariant\<close>

definition is_guarded :: "('pk, 'zk, 'dna) gw_thread \<Rightarrow> bool" where
  "is_guarded t \<longleftrightarrow> (\<exists>tx wall. t = Guarded tx wall)"

definition guarded_count :: "('pk, 'zk, 'dna) gw_thread list \<Rightarrow> nat" where
  "guarded_count ts = length (filter is_guarded ts)"

text \<open>A worker past the guard holds a checked transaction; a counted length was within the bound.\<close>

fun thread_ok :: "'pk crypto_api \<Rightarrow> nat \<Rightarrow> ('pk, 'zk, 'dna) gw_thread \<Rightarrow> bool" where
  "thread_ok C bound (Guarded tx wall) \<longleftrightarrow> tx_checked C tx"
| "thread_ok C bound (Counted tx accepted n) \<longleftrightarrow> unat n \<le> bound"
| "thread_ok C bound _ \<longleftrightarrow> True"

definition gw_bound :: "nat \<Rightarrow> node_config \<Rightarrow> nat" where
  "gw_bound workers cfg = min MAX_MEMPOOL_TX (nc_mempool_max_tx cfg + workers)"

definition gw_inv :: "'pk crypto_api \<Rightarrow> nat \<Rightarrow> node_config \<Rightarrow> ('pk, 'zk, 'dna, 'ch, 'lc) gateway \<Rightarrow> bool" where
  "gw_inv C workers cfg g \<longleftrightarrow>
     app_inv C cfg (gw_app g) \<and> length (gw_workers g) = workers
     \<and> list_all (thread_ok C (gw_bound workers cfg)) (gw_workers g)
     \<and> pool_len (as_mempool (gw_app g)) + guarded_count (gw_workers g) \<le> nc_mempool_max_tx cfg + workers
     \<and> unat (nm_mempool_size (as_metrics (gw_app g))) \<le> gw_bound workers cfg"

lemma guarded_count_le: "guarded_count ts \<le> length ts"
  by (simp add: guarded_count_def)

lemma guarded_count_update:
  "i < length ts \<Longrightarrow> guarded_count (ts[i := t]) + (if is_guarded (ts ! i) then 1 else 0)
     = guarded_count ts + (if is_guarded t then 1 else 0)"
proof (induction ts arbitrary: i)
  case (Cons u ts)
  then show ?case by (cases i) (auto simp: guarded_count_def)
qed simp

lemma is_guarded_simps [simp]:
  "is_guarded (Guarded tx wall)" "\<not> is_guarded Idle" "\<not> is_guarded (Received body wall)"
  "\<not> is_guarded (Inserted tx accepted)" "\<not> is_guarded (Counted tx accepted n)" "\<not> is_guarded (Replied r)"
  by (simp_all add: is_guarded_def)

lemma gw_free_not_guarded: "gw_free t \<Longrightarrow> \<not> is_guarded t"
  by (cases t) simp_all

lemma list_all_update: "list_all P xs \<Longrightarrow> P x \<Longrightarrow> list_all P (xs[i := x])"
  by (auto simp: list_all_iff dest!: subsetD [OF set_update_subset_insert])

lemma pool_len_mono:
  assumes "pool_inv p" and "pool_inv q" and "map_of (mp_tx_store p) \<subseteq>\<^sub>m map_of (mp_tx_store q)"
  shows "pool_len p \<le> pool_len q"
  unfolding pool_len_card [OF assms(1)] pool_len_card [OF assms(2)]
  by (rule card_mono [OF finite_dom_map_of map_le_implies_dom_le [OF assms(3)]])

lemma insert_pool_len:
  "pool_len (fst (mempool_insert now tx tick p)) = pool_len p + (if snd (mempool_insert now tx tick p) then 1 else 0)"
  by (auto simp: mempool_insert_def pool_len_def refresh_stats_def Let_def length_update_new)

lemma pool_len_word: "app_inv C cfg s \<Longrightarrow> unat (of_nat (pool_len (as_mempool s)) :: u64) = pool_len (as_mempool s)"
  by (simp add: app_inv_def pool_inv_def pool_len_def MAX_MEMPOOL_TX_def unat_of_nat take_bit_nat_eq_self)

lemma gw_check_cases:
  obtains (replied) r where "gw_check C A body wall s = Replied r" and "http_submit_tx C A now wall body s = (r, s)"
  | (guarded) tx where "gw_check C A body wall s = Guarded tx wall" and "submitted_tx A body = Some tx"
      and "submit_parsed C s tx = None"
proof (cases "Option.bind (json_get ''tx'' body) json_as_str")
  case None
  then show thesis by (intro replied) (auto simp: gw_check_def submit_check_def http_submit_tx_unfold)
next
  case (Some hx)
  note hx = this
  show thesis
  proof (cases "Option.bind (hex_decode A hx) (tx_deserialize A)")
    case None
    with hx show thesis
      by (cases "hex_decode A hx") (auto intro: replied simp: gw_check_def submit_check_def http_submit_tx_unfold)
  next
    case (Some tx)
    then obtain bs where bs: "hex_decode A hx = Some bs" "tx_deserialize A bs = Some tx"
      by (auto simp: bind_eq_Some_conv)
    have sub: "submitted_tx A body = Some tx" by (simp add: submitted_tx_def hx bs)
    show thesis
    proof (cases "submit_parsed C s tx")
      case None
      then show thesis
        by (intro guarded [OF _ sub]) (auto simp: gw_check_def submit_check_def hx bs submit_parsed_def tx_checked_def split: if_splits)
    next
      case (Some st)
      then show thesis
        by (intro replied [of "fst (http_submit_tx C A now wall body s)"])
           (auto simp: gw_check_def submit_check_def http_submit_tx_unfold hx bs submit_parsed_def tx_checked_def split: if_splits)
    qed
  qed
qed

lemma gw_inv_init:
  assumes "app_inv C cfg s" and "pool_len (as_mempool s) \<le> nc_mempool_max_tx cfg" and "nm_mempool_size (as_metrics s) = 0"
  shows "gw_inv C n cfg (gw_init n s)"
  using assms by (auto simp: gw_inv_def gw_init_def guarded_count_def list_all_iff)

lemma gw_inv_worker:
  assumes "gw_inv C n cfg g" and "i < length (gw_workers g)" and "thread_ok C (gw_bound n cfg) t"
    and "\<not> is_guarded t \<or> is_guarded (gw_workers g ! i)"
  shows "gw_inv C n cfg (set_worker i t g)"
  using assms guarded_count_update [OF assms(2), of t]
  by (auto simp: gw_inv_def list_all_update split: if_splits)

lemma gw_inv_check:
  assumes inv: "gw_inv C n cfg g" and i: "i < length (gw_workers g)" and w: "gw_workers g ! i = Received body wall"
  shows "gw_inv C n cfg (set_worker i (gw_check C A body wall (gw_app g)) g)"
proof (cases rule: gw_check_cases [of C A body wall "gw_app g" 0])
  case (replied r)
  then show ?thesis using gw_inv_worker [OF inv i, of "Replied r"] by simp
next
  case (guarded tx)
  have cfg: "as_config (gw_app g) = cfg" using inv by (simp add: gw_inv_def app_inv_def)
  have le: "pool_len (as_mempool (gw_app g)) \<le> nc_mempool_max_tx cfg" and ok: "tx_checked C tx"
    using guarded(3) cfg by (auto simp: submit_parsed_def split: if_splits)
  have "guarded_count ((gw_workers g)[i := Guarded tx wall]) \<le> n"
    using guarded_count_le [of "(gw_workers g)[i := Guarded tx wall]"] inv by (simp add: gw_inv_def)
  with inv ok le guarded(1) show ?thesis by (simp add: gw_inv_def list_all_update)
qed

lemma gw_inv_insert:
  assumes inv: "gw_inv C n cfg g" and i: "i < length (gw_workers g)" and w: "gw_workers g ! i = Guarded tx wall"
    and ins: "mempool_insert now tx tick (as_mempool (gw_app g)) = (pool, accepted)"
  shows "gw_inv C n cfg (set_worker i (Inserted tx accepted) (set_pool pool g))"
proof -
  have "thread_ok C (gw_bound n cfg) (gw_workers g ! i)"
    using inv i by (simp add: gw_inv_def list_all_length)
  then have "tx_checked C tx" by (simp add: w)
  then have "app_inv C cfg (gw_app (set_pool pool g))"
    using app_inv_insert [of C cfg "gw_app g" tx now tick] ins inv by (simp add: gw_inv_def set_pool_def)
  moreover have "pool_len pool \<le> pool_len (as_mempool (gw_app g)) + 1"
    using insert_pool_len [of now tx tick "as_mempool (gw_app g)"] ins by (simp split: if_splits)
  ultimately show ?thesis
    using inv guarded_count_update [OF i, of "Inserted tx accepted"] w
    by (auto simp: gw_inv_def list_all_update split: if_splits)
qed

lemma gw_inv_count:
  assumes inv: "gw_inv C n cfg g" and i: "i < length (gw_workers g)"
  shows "gw_inv C n cfg (set_worker i (Counted tx accepted (of_nat (pool_len (as_mempool (gw_app g))))) g)"
proof -
  have app: "app_inv C cfg (gw_app g)" using inv by (simp add: gw_inv_def)
  then have "pool_len (as_mempool (gw_app g)) \<le> MAX_MEMPOOL_TX"
    by (simp add: app_inv_def pool_inv_def pool_len_def)
  then show ?thesis
    using inv by (intro gw_inv_worker [OF inv i]) (simp_all add: pool_len_word [OF app] gw_inv_def gw_bound_def)
qed

lemma gw_inv_work:
  assumes "gw_inv C n cfg g"
  shows "gw_inv C n cfg (set_pool (node_work op (as_mempool (gw_app g))) g)"
proof -
  have app: "app_inv C cfg (gw_app g)" using assms by (simp add: gw_inv_def)
  then have p: "pool_inv (as_mempool (gw_app g))" by (simp add: app_inv_def)
  have "pool_len (node_work op (as_mempool (gw_app g))) \<le> pool_len (as_mempool (gw_app g))"
    by (rule pool_len_mono [OF gateway.work_ok [OF p] p gateway.work_shrinks])
  with assms app_inv_work [OF app, of op] show ?thesis by (simp add: gw_inv_def set_pool_def)
qed

lemma gw_inv_step:
  assumes "gw_step C A g g'" and "gw_inv C n cfg g"
  shows "gw_inv C n cfg g'"
  using assms
proof (cases rule: gw_step.cases)
  case (Arrive i body wall)
  then show ?thesis using assms(2) by (simp add: gw_inv_worker)
next
  case (Check i body wall)
  then show ?thesis using assms(2) by (simp add: gw_inv_check)
next
  case (Insert i tx wall now pool accepted)
  then show ?thesis using assms(2) by (simp add: gw_inv_insert)
next
  case (Count i tx accepted)
  then show ?thesis using assms(2) by (simp add: gw_inv_count)
next
  case (Store i tx accepted k)
  have "thread_ok C (gw_bound n cfg) (gw_workers g ! i)"
    using assms(2) Store(2) by (simp add: gw_inv_def list_all_length)
  then have "gw_inv C n cfg (set_gauge k g)" using assms(2) Store(3) by (simp add: gw_inv_def set_gauge_def)
  with Store show ?thesis by (simp add: gw_inv_worker)
next
  case (Work op)
  then show ?thesis using assms(2) by (simp add: gw_inv_work)
qed

lemma gw_inv_steps: "gw_steps C A g g' \<Longrightarrow> gw_inv C n cfg g \<Longrightarrow> gw_inv C n cfg g'"
  by (induction rule: rtranclp_induct) (auto intro: gw_inv_step)

section \<open>A worker alone\<close>

lemma wall_case: "(case wall of Some t \<Rightarrow> t | None \<Rightarrow> 0) = wall_secs wall"
  by (simp add: wall_secs_def)

lemma submit_tried_reply:
  assumes "submitted_tx A body = Some tx" and "submit_parsed C s tx = None"
    and "mempool_insert now tx (wall_secs wall) (as_mempool s) = (pool, accepted)"
  shows "http_submit_tx C A now wall body s =
    (submit_reply A tx accepted,
     s\<lparr>as_mempool := pool, as_metrics := (as_metrics s)\<lparr>nm_mempool_size := of_nat (pool_len pool)\<rparr>\<rparr>)"
  using assms
  by (auto simp: submitted_tx_def bind_eq_Some_conv http_submit_tx_unfold submit_parsed_def tx_checked_def
      wall_secs_def submit_reply_def Let_def split: if_splits)

lemma gw_check_passed:
  assumes "submitted_tx A body = Some tx" and "submit_parsed C s tx = None"
  shows "gw_check C A body wall s = Guarded tx wall"
  using assms
  by (auto simp: submitted_tx_def bind_eq_Some_conv gw_check_def submit_check_def submit_parsed_def tx_checked_def split: if_splits)

text \<open>The steps of one worker after its check, with what the others did to the pool in between as parameters.\<close>

lemma gw_step_check:
  assumes "i < length (gw_workers g)" and "gw_workers g ! i = Received body wall"
    and "submitted_tx A body = Some tx" and "submit_parsed C (gw_app g) tx = None"
  shows "gw_step C A g (set_worker i (Guarded tx wall) g)"
  using gw_step.Check [OF assms(1,2), of C A] by (simp add: gw_check_passed [OF assms(3,4)])

lemma gw_step_insert:
  assumes "i < length (gw_workers g)" and "gw_workers g ! i = Guarded tx wall"
    and "mempool_insert now tx (wall_secs wall) (as_mempool (gw_app g)) = (pool, accepted)"
  shows "gw_step C A g (set_worker i (Inserted tx accepted) (set_pool pool g))"
  by (rule gw_step.Insert [OF assms(1,2)]) (use assms(3) in \<open>simp add: wall_case\<close>)

lemma worker_alone:
  assumes "i < length (gw_workers g)" and "gw_workers g ! i = Received body wall"
    and "http_submit_tx C A now wall body (gw_app g) = (r, s')"
  shows "(gw_step C A)\<^sup>*\<^sup>* g \<lparr>gw_app = s', gw_workers = (gw_workers g)[i := Replied r]\<rparr>"
proof (cases rule: gw_check_cases [of C A body wall "gw_app g" now])
  case (replied r')
  then have "set_worker i (Replied r) g = \<lparr>gw_app = s', gw_workers = (gw_workers g)[i := Replied r]\<rparr>"
    and "gw_check C A body wall (gw_app g) = Replied r"
    using assms(3) by (simp_all add: set_worker_def)
  with gw_step.Check [OF assms(1,2), of C A] show ?thesis by (simp add: r_into_rtranclp)
next
  case (guarded tx)
  obtain pool acc where ins: "mempool_insert now tx (wall_secs wall) (as_mempool (gw_app g)) = (pool, acc)"
    by (metis surj_pair)
  let ?g1 = "set_worker i (Guarded tx wall) g"
  let ?g2 = "set_worker i (Inserted tx acc) (set_pool pool ?g1)"
  let ?g3 = "set_worker i (Counted tx acc (of_nat (pool_len pool))) ?g2"
  let ?g4 = "set_worker i (Replied (submit_reply A tx acc)) (set_gauge (of_nat (pool_len pool)) ?g3)"
  have "gw_step C A g ?g1" by (rule gw_step_check [OF assms(1,2) guarded(2,3)])
  moreover have "gw_step C A ?g1 ?g2" by (rule gw_step_insert) (use assms(1) ins in simp_all)
  moreover have "gw_step C A ?g2 ?g3"
    using gw_step.Count [of i ?g2 tx acc C A] assms(1) by simp
  moreover have "gw_step C A ?g3 ?g4" by (rule gw_step.Store) (use assms(1) in simp_all)
  ultimately have "(gw_step C A)\<^sup>*\<^sup>* g ?g4" by (meson rtranclp.intros)
  moreover have "?g4 = \<lparr>gw_app = s', gw_workers = (gw_workers g)[i := Replied r]\<rparr>"
    using submit_tried_reply [OF guarded(2,3) ins] assms(3)
    by (auto simp: set_worker_def set_pool_def set_gauge_def)
  ultimately show ?thesis by simp
qed

section \<open>All interleavings\<close>

text \<open>C11. With any number of workers and in every interleaving of their steps and the node's own work, from a
  new pool on: every pooled transaction has the hash it is stored under and inputs where it needs them; no
  two pooled transactions spend the same nullifier; and pool and gauge stay within 50000 and within the
  configured limit plus the number of workers, because each worker may pass the guard before any of them
  inserts.\<close>

theorem gateway_interleaved:
  assumes "(gw_step C A)\<^sup>*\<^sup>* (gw_init n (snd (run_server (metrics_new t) ch mempool_new cfg sd lc))) g"
  shows "(map_of (mp_tx_store (as_mempool (gw_app g))) h = Some tx \<longrightarrow>
            recompute_hash C tx = h \<and> (is_coinbase tx \<or> is_heartbeat tx \<or> tx_inputs tx \<noteq> []))
    \<and> (map_of (mp_tx_store (as_mempool (gw_app g))) h = Some tx
        \<and> map_of (mp_tx_store (as_mempool (gw_app g))) h' = Some tx'
        \<and> k \<in> set (tx_nullifiers tx) \<and> k \<in> set (tx_nullifiers tx') \<longrightarrow> h = h')
    \<and> pool_len (as_mempool (gw_app g)) \<le> min 50000 (nc_mempool_max_tx cfg + n)
    \<and> unat (nm_mempool_size (as_metrics (gw_app g))) \<le> min 50000 (nc_mempool_max_tx cfg + n)"
proof (intro conjI impI)
  have "gw_inv C n cfg (gw_init n (snd (run_server (metrics_new t) ch mempool_new cfg sd lc)))"
    by (rule gw_inv_init [OF app_inv_run_server])
       (simp_all add: run_server_def pool_len_def mempool_new_def metrics_new_def)
  with assms have inv: "gw_inv C n cfg g" by (rule gw_inv_steps)
  then have app: "app_inv C cfg (gw_app g)" and pool: "pool_inv (as_mempool (gw_app g))"
    by (simp_all add: gw_inv_def app_inv_def)
  show "recompute_hash C tx = h" "is_coinbase tx \<or> is_heartbeat tx \<or> tx_inputs tx \<noteq> []"
    if "map_of (mp_tx_store (as_mempool (gw_app g))) h = Some tx"
    using app that by (auto simp: app_inv_def tx_checked_def)
  show "h = h'" if "map_of (mp_tx_store (as_mempool (gw_app g))) h = Some tx
      \<and> map_of (mp_tx_store (as_mempool (gw_app g))) h' = Some tx'
      \<and> k \<in> set (tx_nullifiers tx) \<and> k \<in> set (tx_nullifiers tx')"
    using pooled_nullifiers_disjoint [OF pool] that by blast
  show "pool_len (as_mempool (gw_app g)) \<le> min 50000 (nc_mempool_max_tx cfg + n)"
    using inv pool by (simp add: gw_inv_def pool_inv_def pool_len_def MAX_MEMPOOL_TX_def)
  show "unat (nm_mempool_size (as_metrics (gw_app g))) \<le> min 50000 (nc_mempool_max_tx cfg + n)"
    using inv by (simp add: gw_inv_def gw_bound_def MAX_MEMPOOL_TX_def)
qed

section \<open>The gauge can lag\<close>

text \<open>
  Two workers insert one after the other, but store the lengths they read in the opposite order: the gauge
  ends at the length after the first insertion, and nothing corrects it until the next submission.
\<close>

lemma gauge_race:
  assumes b1: "submitted_tx A b1 = Some t1" "submit_parsed C s t1 = None"
    and b2: "submitted_tx A b2 = Some t2" "submit_parsed C s t2 = None"
    and i1: "mempool_insert now t1 (wall_secs w) (as_mempool s) = (p1, a1)"
    and i2: "mempool_insert now t2 (wall_secs w) p1 = (p2, True)"
  shows "\<exists>g. (gw_step C A)\<^sup>*\<^sup>* (gw_init 2 s) g
    \<and> gw_workers g = [Replied (submit_reply A t1 a1), Replied (submit_reply A t2 True)]
    \<and> pool_len (as_mempool (gw_app g)) = pool_len p1 + 1
    \<and> nm_mempool_size (as_metrics (gw_app g)) = of_nat (pool_len p1)"
proof -
  let ?g0 = "gw_init 2 s"
  let ?g1 = "set_worker 0 (Received b1 w) ?g0"
  let ?g2 = "set_worker 1 (Received b2 w) ?g1"
  let ?g3 = "set_worker 0 (Guarded t1 w) ?g2"
  let ?g4 = "set_worker 1 (Guarded t2 w) ?g3"
  let ?g5 = "set_worker 0 (Inserted t1 a1) (set_pool p1 ?g4)"
  let ?g6 = "set_worker 0 (Counted t1 a1 (of_nat (pool_len p1))) ?g5"
  let ?g7 = "set_worker 1 (Inserted t2 True) (set_pool p2 ?g6)"
  let ?g8 = "set_worker 1 (Counted t2 True (of_nat (pool_len p2))) ?g7"
  let ?g9 = "set_worker 1 (Replied (submit_reply A t2 True)) (set_gauge (of_nat (pool_len p2)) ?g8)"
  let ?g10 = "set_worker 0 (Replied (submit_reply A t1 a1)) (set_gauge (of_nat (pool_len p1)) ?g9)"
  have g0: "gw_workers ?g0 = [Idle, Idle]" "gw_app ?g0 = s" by (simp_all add: gw_init_def numeral_2_eq_2)
  have "gw_step C A ?g0 ?g1" "gw_step C A ?g1 ?g2" by (rule gw_step.Arrive; simp add: g0)+
  moreover have "gw_step C A ?g2 ?g3" by (rule gw_step_check [OF _ _ b1(1)]) (use b1(2) g0 in simp_all)
  moreover have "gw_step C A ?g3 ?g4" by (rule gw_step_check [OF _ _ b2(1)]) (use b2(2) g0 in simp_all)
  moreover have "gw_step C A ?g4 ?g5" by (rule gw_step_insert) (use i1 g0 in simp_all)
  moreover have "gw_step C A ?g5 ?g6" using gw_step.Count [of 0 ?g5 t1 a1 C A] by (simp add: g0)
  moreover have "gw_step C A ?g6 ?g7" by (rule gw_step_insert) (use i2 g0 in simp_all)
  moreover have "gw_step C A ?g7 ?g8" using gw_step.Count [of 1 ?g7 t2 True C A] by (simp add: g0)
  moreover have "gw_step C A ?g8 ?g9" "gw_step C A ?g9 ?g10" by (rule gw_step.Store; simp add: g0)+
  ultimately have "(gw_step C A)\<^sup>*\<^sup>* ?g0 ?g10" by (meson rtranclp.intros)
  moreover have "pool_len p2 = pool_len p1 + 1"
    using insert_pool_len [of now t2 "wall_secs w" p1] i2 by simp
  ultimately show ?thesis by (intro exI [of _ ?g10]) (simp add: g0)
qed

section \<open>A sample run\<close>

abbreviation sample_received :: "(u8, unit, unit, unit, unit) gateway" where
  "sample_received \<equiv> set_worker 0 (Received (sample_body ''a'') (Some 5)) (gw_init 1 sample_node)"

abbreviation sample_outcome :: "http_response \<times> (u8, unit, unit, unit, unit) app_state" where
  "sample_outcome \<equiv> http_submit_tx sample_crypto sample_api 0 (Some 5) (sample_body ''a'') sample_node"

lemma sample_received_sel: "gw_workers sample_received ! 0 = Received (sample_body ''a'') (Some 5)"
  "length (gw_workers sample_received) = 1" "gw_app sample_received = sample_node"
  by (simp_all add: gw_init_def)

lemma sample_gateway_run:
  "(gw_step sample_crypto sample_api)\<^sup>*\<^sup>* (gw_init 1 sample_node)
     \<lparr>gw_app = snd sample_outcome, gw_workers = (gw_workers sample_received)[0 := Replied (fst sample_outcome)]\<rparr>"
proof (rule converse_rtranclp_into_rtranclp)
  show "gw_step sample_crypto sample_api (gw_init 1 sample_node) sample_received"
    by (rule gw_step.Arrive) (simp_all add: gw_init_def)
  show "(gw_step sample_crypto sample_api)\<^sup>*\<^sup>* sample_received
     \<lparr>gw_app = snd sample_outcome, gw_workers = (gw_workers sample_received)[0 := Replied (fst sample_outcome)]\<rparr>"
    by (rule worker_alone [where body = "sample_body ''a''" and wall = "Some 5" and now = 0]) (simp_all add: gw_init_def)
qed

theorem gateway_interleaved_witness:
  "recompute_hash sample_crypto sample_http_tx = tx_hash sample_http_tx
   \<and> pool_len (as_mempool (snd sample_outcome)) \<le> 50000"
proof -
  have run: "(gw_step sample_crypto sample_api)\<^sup>*\<^sup>*
      (gw_init 1 (snd (run_server (metrics_new 0) () mempool_new (default_node_config None) False ())))
      \<lparr>gw_app = snd sample_outcome, gw_workers = (gw_workers sample_received)[0 := Replied (fst sample_outcome)]\<rparr>"
    using sample_gateway_run by (simp add: sample_node_def)
  from sample_submit_accepted(2) have "map_of (mp_tx_store (as_mempool (snd sample_outcome))) (tx_hash sample_http_tx)
      = Some sample_http_tx" by simp
  moreover have "nc_mempool_max_tx (default_node_config None) = 50000" by (simp add: default_node_config_def)
  ultimately show ?thesis
    using gateway_interleaved [OF run, of "tx_hash sample_http_tx" sample_http_tx] by simp
qed

end
