(* ===== verification/Block_Relay.thy ===== *)
theory Block_Relay
  imports Block_Production Wire Chain_State
begin

text \<open>
  Blocks across components: built from a pool behind the gateway (\<open>http_server.rs\<close>, \<open>mempool.rs\<close>, \<open>block.rs\<close>),
  declared by a message and decoded (\<open>wire.rs\<close>), and applied to a chain (\<open>chain_state.rs\<close>). No new code is
  modelled here; the lemmas compose the operations. The loop that receives messages is not in the repository.

  The lemmas: decoded blocks that link are applied one after the other, and each of them is refused without
  effect when it is applied again; a message that declares a block from a pool behind the gateway decodes to
  that block.
\<close>

section \<open>Blocks that link\<close>

lemma applied_below_height:
  "chain_inv s \<Longrightarrow> map_of (cs_applied_blocks s) h = Some hash \<Longrightarrow> h \<le> cs_height s"
  by (force simp: chain_inv_def dest: map_of_SomeD)

lemma unapplied_above_height:
  "chain_inv s \<Longrightarrow> cs_height s < h \<Longrightarrow> map_of (cs_applied_blocks s) h = None"
  using applied_below_height by (cases "map_of (cs_applied_blocks s) h") fastforce+

fun links_from ::
  "'pk crypto_api \<Rightarrow> ('u, 'pk, 'zk, 'dna) jt_api \<Rightarrow> ('pk, 'zk, 'dna, 'u, 'te) transition_api
     \<Rightarrow> 'u chain_state \<Rightarrow> ('pk, 'zk, 'dna) block list \<Rightarrow> bool" where
  "links_from C J T s [] \<longleftrightarrow> True"
| "links_from C J T s (b # bs) \<longleftrightarrow>
     blk_prev_hash b = cs_last_block_hash s
     \<and> cs_height s < blk_height b \<and> cs_last_finalized_height s < blk_height b
     \<and> is_ok (run_transition T s b)
     \<and> links_from C J T (chain_step C J T (ApplyBlock b) s) bs"

lemma linked_block_accepted:
  assumes inv: "chain_inv s" and gen: "cs_genesis_applied s"
    and seal: "block_compute_hash C b = blk_block_hash b"
    and link: "blk_prev_hash b = cs_last_block_hash s" "cs_height s < blk_height b"
      "cs_last_finalized_height s < blk_height b"
    and trans: "is_ok (run_transition T s b)"
  obtains s' res where "apply_block_checked C J T b s = (s', Ok res)" and "blk_height b \<noteq> 0"
proof -
  have h: "blk_height b \<noteq> 0" using link(2) by auto
  have "map_of (cs_applied_blocks s) (blk_height b) = None"
    using inv link(2) by (rule unapplied_above_height)
  moreover obtain r where "run_transition T s b = Ok r" using trans by (auto elim: is_ok.elims)
  ultimately have "is_ok (snd (apply_block_checked C J T b s))"
    using assms h by (auto simp: apply_block_checked_def Let_def chain_inv_def)
  then show thesis using that h by (metis is_ok.elims(2) prod.collapse)
qed

lemma stale_block_refused:
  assumes "chain_inv s" and "cs_genesis_applied s" and "blk_height b \<le> cs_height s"
  shows "\<not> is_ok (snd (apply_block_checked C J T b s))"
proof
  assume "is_ok (snd (apply_block_checked C J T b s))"
  then obtain s' res where ok: "apply_block_checked C J T b s = (s', Ok res)"
    by (metis is_ok.elims(2) prod.collapse)
  show False
  proof (cases "blk_height b = 0")
    case True
    with apply_genesis_Ok(1) [OF apply_block_checked_genesis [OF ok]] assms(2) show ?thesis by simp
  next
    case False
    with apply_block_checked_Ok(5) [OF ok assms(1)] assms(3) show ?thesis by simp
  qed
qed

text \<open>What a chain looks like after a run of linked blocks.\<close>

definition tip_after :: "'u chain_state \<Rightarrow> ('pk, 'zk, 'dna) block list \<Rightarrow> 'u chain_state \<Rightarrow> bool" where
  "tip_after s bs t \<longleftrightarrow>
     chain_inv t \<and> cs_genesis_applied t
     \<and> cs_last_block_hash t = last (cs_last_block_hash s # map blk_block_hash bs)
     \<and> cs_height t = last (cs_height s # map blk_height bs)
     \<and> list_all (\<lambda>b. map_of (cs_applied_blocks t) (blk_height b) = Some (blk_block_hash b) \<and> blk_height b \<le> cs_height t) bs
     \<and> (\<forall>h hash. map_of (cs_applied_blocks s) h = Some hash \<longrightarrow> map_of (cs_applied_blocks t) h = Some hash)"

lemma linked_blocks_applied:
  assumes "chain_inv s" and "cs_genesis_applied s" and "links_from C J T s bs"
    and "list_all (\<lambda>b. block_compute_hash C b = blk_block_hash b) bs"
  shows "tip_after s bs (fold (\<lambda>b. chain_step C J T (ApplyBlock b)) bs s)"
  using assms
proof (induction bs arbitrary: s)
  case Nil
  then show ?case by (simp add: tip_after_def)
next
  case (Cons b bs)
  obtain s' res where ok: "apply_block_checked C J T b s = (s', Ok res)" and h: "blk_height b \<noteq> 0"
    by (rule linked_block_accepted [OF Cons.prems(1,2), of C b T J]) (use Cons.prems in simp_all)
  note a = apply_block_checked_Ok [OF ok Cons.prems(1) h]
  let ?t = "fold (\<lambda>b. chain_step C J T (ApplyBlock b)) bs s'"
  have s': "chain_step C J T (ApplyBlock b) s = s'" by (simp add: ok)
  have "chain_inv s'" using chain_inv_apply [OF Cons.prems(1), of C J T b] by (simp add: ok)
  then have IH: "tip_after s' bs ?t"
    by (rule Cons.IH) (use Cons.prems a(6) s' in simp_all)
  have new: "map_of (cs_applied_blocks s) (blk_height b) = None"
    using Cons.prems(1) a(5) by (rule unapplied_above_height)
  have rec: "map_of (cs_applied_blocks s') k = (if k = blk_height b then Some (blk_block_hash b) else map_of (cs_applied_blocks s) k)" for k
    by (simp add: a(11))
  have "map_of (cs_applied_blocks ?t) (blk_height b) = Some (blk_block_hash b)"
    using IH rec by (simp add: tip_after_def)
  moreover from applied_below_height [OF _ this] IH have "blk_height b \<le> cs_height ?t"
    by (simp add: tip_after_def)
  moreover have "map_of (cs_applied_blocks ?t) k = Some x" if "map_of (cs_applied_blocks s) k = Some x" for k x
  proof -
    have "map_of (cs_applied_blocks s') k = Some x" using rec [of k] new that by (auto split: if_splits)
    with IH show ?thesis by (simp add: tip_after_def)
  qed
  ultimately show ?case
    using IH a by (auto simp: tip_after_def s' simp del: chain_step.simps)
qed

lemma apply_is_step: "(\<lambda>b u. fst (apply_block_checked C J T b u)) = (\<lambda>b. chain_step C J T (ApplyBlock b))"
  by (simp add: fun_eq_iff)

section \<open>Properties\<close>

text \<open>C12. Take a chain state that was reached from the empty chain by checked applications and finalisations and
  has a genesis block, and blocks that \<open>wire_decode\<close> returned for some messages. If each block links to the
  last one, lies above the height and the finalised height, and is accepted by the state transition in the
  state it meets, then \<open>apply_block_checked\<close> applies them all: each is recorded at its height, and the last one
  is the tip. Applying any of them again afterwards, in any order and number, is refused each time and leaves
  the state alone.\<close>

theorem decoded_blocks_applied:
  assumes "s = fold (chain_step C J T) ops (chain_new C)" and "cs_genesis_applied s"
    and "list_all2 (\<lambda>w b. block_wire_decode C mk_zk fmt w = Ok b) ws bs"
    and "links_from C J T s bs" and "set again \<subseteq> set bs"
    and "t = fold (\<lambda>b u. fst (apply_block_checked C J T b u)) bs s"
  shows "cs_last_block_hash t = last (cs_last_block_hash s # map blk_block_hash bs)
    \<and> cs_canonical_tip t = cs_last_block_hash t \<and> cs_height t = last (cs_height s # map blk_height bs)
    \<and> list_all (\<lambda>b. map_of (cs_applied_blocks t) (blk_height b) = Some (blk_block_hash b)) bs
    \<and> list_all (\<lambda>b. \<not> is_ok (snd (apply_block_checked C J T b t))) bs
    \<and> fold (\<lambda>b u. fst (apply_block_checked C J T b u)) again t = t"
proof -
  have inv: "chain_inv s" unfolding assms(1) by (rule chain.run_init_inv)
  have sealed: "list_all (\<lambda>b. block_compute_hash C b = blk_block_hash b) bs"
    using assms(3) by (auto simp: block_wire_decode_iff list_all2_conv_all_nth list_all_length)
  have tip: "tip_after s bs t"
    unfolding assms(6) apply_is_step by (rule linked_blocks_applied [OF inv assms(2,4) sealed])
  then have stale: "\<not> is_ok (snd (apply_block_checked C J T b t))" if "b \<in> set bs" for b
    using that tip by (intro stale_block_refused) (auto simp: tip_after_def list_all_iff)
  then have same: "fst (apply_block_checked C J T b t) = t" if "b \<in> set bs" for b
    using that by (simp add: apply_block_checked_not_Ok)
  have "fold (\<lambda>b u. fst (apply_block_checked C J T b u)) again t = t"
    using assms(5) same by (induction again) simp_all
  with tip stale show ?thesis by (simp add: tip_after_def chain_inv_def list_all_iff)
qed

text \<open>C16. After any interleaving of requests to the gateway with the node's own work on the pool, let a block be
  built by \<open>from_candidate\<close> from a heartbeat and a coinbase that carry their computed hashes and from what
  \<open>build_block\<close> took from the pool, at most 32765 transactions. Every message of version 9 that declares this
  block and its size decodes to exactly this block: the gateway has checked the hashes of the pooled
  transactions, and no condition of the decoder remains. That the message declares the block means that all
  fields agree, that keys parse, that the proofs of the block are Halo2 proofs with the bytes of the
  message, and that its outputs name no range.\<close>

theorem gateway_block_decodes:
  assumes "s = fold (app_step C A) ops (snd (run_server m ch mempool_new cfg sd lc))"
    and "build_block max_tx max_bytes (as_mempool s) = Some (p', out)"
    and "from_candidate C cand pv = Ok b" and "cand_transactions cand = hb # cb # out"
    and "tx_hash hb = recompute_hash C hb" and "tx_hash cb = recompute_hash C cb" and "length out \<le> 32765"
    and "block_declares C mk_zk w b" and "bw_wire_version w = 9" and "bw_block_size w = blk_block_size b"
  shows "block_wire_decode C mk_zk fmt w = Ok b"
proof -
  have inv: "app_inv C cfg s" unfolding assms(1) by (rule app.run_init_inv)
  then have pool: "pool_inv (as_mempool s)" by (simp add: app_inv_def)
  have "tx_hash tx = recompute_hash C tx" if "tx \<in> set out" for tx
  proof -
    have "tx_checked C tx"
      using build_block_built(2) [OF pool assms(2) that] inv by (auto simp: app_inv_def)
    then show ?thesis by (simp add: tx_checked_def)
  qed
  moreover note built = assms(3) [unfolded from_candidate_iff]
  then have txs: "blk_transactions b = hb # cb # out" by (simp add: assms(4))
  ultimately have hashes: "list_all (\<lambda>t. tx_hash t = recompute_hash C t) (blk_transactions b)"
    using assms(5,6) by (simp add: list_all_iff)
  have "estimated_block_size (hb # cb # out) \<le> 16777216"
    using estimated_block_size_bound [of "hb # cb # out"] assms(7) by (simp add: MAX_BLOCK_BYTES_def)
  then have size: "bw_block_size w \<le> 16777216" "blk_block_size b = estimated_block_size (blk_transactions b)"
    using built txs assms(4,10) by simp_all
  have "bw_height w = blk_height b" "StateRoot (bw_state_root w) = blk_state_root b" "bw_total_supply w = blk_total_supply b"
    using assms(8) by (simp_all add: block_declares_def)
  moreover have "cand_height cand = 0 \<or> pv_state_root pv \<noteq> StateRoot zero_hash \<and> pv_new_total_supply pv \<noteq> 0"
    "blk_height b = cand_height cand" "blk_state_root b = pv_state_root pv" "blk_total_supply b = pv_new_total_supply pv"
    using built by simp_all
  ultimately have start: "bw_height w = 0 \<or> bw_state_root w \<noteq> zero_hash \<and> bw_total_supply w \<noteq> 0" by auto
  have seal: "blk_transactions_root b = compute_transactions_root C (blk_transactions b)"
    "blk_block_hash b = block_compute_hash C b"
    using built by simp_all
  show ?thesis
    unfolding block_wire_decode_iff by (intro conjI assms(8,9) hashes size seal start)
qed

section \<open>A sample relay\<close>

definition relay_block :: "(u8, unit, unit) block" where
  "relay_block = block_new sample_crypto (blk_block_hash sample_genesis) 1 0 9 [sample_declared_tx] [1] 5"

definition relay_message :: "unit block_wire" where
  "relay_message = sample_block_wire
     \<lparr>bw_block_hash := blk_block_hash relay_block, bw_prev_hash := blk_block_hash sample_genesis\<rparr>"

lemma relay_message_decodes:
  "block_wire_decode sample_crypto (\<lambda>_. ()) (\<lambda>_. []) relay_message = Ok relay_block"
proof -
  have "block_declares sample_crypto (\<lambda>_. ()) relay_message relay_block"
    by (simp add: block_declares_def relay_message_def sample_block_wire_def relay_block_def block_new_def Let_def
        sample_tx_declared)
  moreover have "tx_hash sample_declared_tx = recompute_hash sample_crypto sample_declared_tx"
    unfolding sample_declared_tx_def by (rule tx_compute_hash_sealed)
  moreover have "[1] \<noteq> zero_hash" by (simp add: zero_hash_def numeral_eq_Suc)
  ultimately show ?thesis
    unfolding block_wire_decode_iff
    by (auto simp: relay_message_def sample_block_wire_def relay_block_def block_new_def Let_def block_compute_hash_def
        block_preimage_def estimated_block_size_def)
qed

theorem decoded_blocks_applied_witness:
  "\<exists>s t. s = fold sample_step [ApplyBlock sample_genesis] (chain_new sample_crypto)
     \<and> t = fst (apply_block_checked sample_crypto sample_utxos sample_transition relay_block s)
     \<and> block_wire_decode sample_crypto (\<lambda>_. ()) (\<lambda>_. []) relay_message = Ok relay_block
     \<and> cs_canonical_tip t = blk_block_hash relay_block \<and> cs_height t = 1
     \<and> \<not> is_ok (snd (apply_block_checked sample_crypto sample_utxos sample_transition relay_block t))"
proof -
  let ?s = "fold sample_step [ApplyBlock sample_genesis] (chain_new sample_crypto)"
  have f: "blk_height relay_block = 1" "blk_prev_hash relay_block = blk_block_hash sample_genesis"
    by (simp_all add: relay_block_def)
  have "is_ok (run_transition sample_transition s relay_block)" for s
    by (simp add: run_transition_def sample_transition_def)
  then have links: "links_from sample_crypto sample_utxos sample_transition ?s [relay_block]"
    using sample_genesis_state f by (simp del: chain_step.simps)
  have gen: "cs_genesis_applied ?s" using sample_genesis_state(1) by simp
  have dec: "list_all2 (\<lambda>w b. block_wire_decode sample_crypto (\<lambda>_. ()) (\<lambda>_. []) w = Ok b) [relay_message] [relay_block]"
    by (simp add: relay_message_decodes)
  have "set [relay_block, relay_block] \<subseteq> set [relay_block]" by simp
  from decoded_blocks_applied [OF refl gen dec links this refl] f relay_message_decodes show ?thesis
    by (simp del: chain_step.simps fold_simps(2))
qed

lemma sample_submit_pool:
  "as_mempool (app_step sample_crypto sample_api (sample_submit ''a'') sample_node) =
     fold pool_step [PoolInsert 0 sample_http_tx 5] mempool_new"
  by (cases rule: submit_cases [of sample_api "sample_body ''a''" sample_crypto 0 "Some 5" sample_node])
     (use sample_submitted sample_submit_accepted in
       \<open>auto simp: wall_secs_def sample_node_def run_server_def submit_parsed_def split: if_splits\<close>)

lemma declared_by_a_message:
  fixes b :: "(u8, unit, unit) block"
  assumes "\<And>t. t \<in> set (blk_transactions b) \<Longrightarrow> tx_outputs t = []"
  obtains w :: "unit block_wire" where "block_declares sample_crypto (\<lambda>_. ()) w b" and "bw_wire_version w = 9"
    and "bw_block_size w = blk_block_size b"
proof -
  let ?in = "\<lambda>i. \<lparr>iw_tx_hash = in_tx_hash i, iw_output_index = in_output_index i, iw_nullifier = in_nullifier i,
      iw_signature = in_signature i, iw_public_key = [in_public_key i], iw_signed_hash = in_signed_hash i,
      iw_nonce = in_nonce i\<rparr>"
  let ?tx = "\<lambda>t :: (u8, unit, unit) transaction. \<lparr>tw_version = tx_version t, tw_chain_id = tx_chain_id t,
      tw_tx_type = tx_type_byte (tx_type t), tw_inputs = map ?in (tx_inputs t), tw_outputs = [], tw_fee = tx_fee t,
      tw_poh_tick = tx_poh_tick t, tw_locktime = tx_locktime t, tw_heartbeat_witnesses = tx_heartbeat_witnesses t\<rparr>"
  let ?w = "\<lparr>bw_wire_version = 9, bw_block_hash = blk_block_hash b, bw_prev_hash = blk_prev_hash b,
      bw_height = blk_height b, bw_poh_tick_start = blk_poh_tick_start b, bw_poh_tick_end = blk_poh_tick_end b,
      bw_transactions_root = [], bw_transactions = map ?tx (blk_transactions b),
      bw_state_root = root_hash (blk_state_root b), bw_total_supply = blk_total_supply b,
      bw_is_presence_block = blk_is_presence_block b, bw_block_size = blk_block_size b,
      bw_settlement_checkpoint = blk_settlement_checkpoint b\<rparr>"
  have "tx_declares sample_crypto (\<lambda>_. ()) (?tx t) t" if "t \<in> set (blk_transactions b)" for t
    using assms [OF that]
    by (simp add: tx_declares_def list.rel_map input_declares_def sample_crypto_def list.rel_refl)
  then have "block_declares sample_crypto (\<lambda>_. ()) ?w b"
    by (simp add: block_declares_def list_all2_map1 list_all2_same)
  then show thesis by (rule that) simp_all
qed

theorem gateway_block_decodes_witness:
  "\<exists>b w. from_candidate sample_crypto
        (production_candidate (tx_new_coinbase sample_crypto [] 0 2) [sample_http_tx]) production_preview = Ok b
     \<and> block_wire_decode sample_crypto (\<lambda>_. ()) (\<lambda>_. []) (w :: unit block_wire) = Ok b"
proof -
  let ?cb = "tx_new_coinbase sample_crypto [] 0 2 :: (u8, unit, unit) transaction"
    and ?hb = "new_heartbeat sample_crypto [] 2 :: (u8, unit, unit) transaction"
  let ?s = "app_step sample_crypto sample_api (sample_submit ''a'') sample_node"
  obtain p' where bb: "build_block 10 1000 (as_mempool ?s) = Some (p', [sample_http_tx])"
    unfolding sample_submit_pool by (rule single_pool_built [of sample_http_tx 5]) (simp_all add: sample_http_tx_fields)
  obtain b where b: "from_candidate sample_crypto (production_candidate ?cb [sample_http_tx]) production_preview = Ok b"
    by (rule production_block)
  have s: "?s = fold (app_step sample_crypto sample_api) [sample_submit ''a'']
      (snd (run_server (metrics_new 0) () mempool_new (default_node_config None) False ()))"
    by (simp add: sample_node_def)
  have txs: "cand_transactions (production_candidate ?cb [sample_http_tx]) = ?hb # ?cb # [sample_http_tx]"
    by (simp add: production_candidate_def)
  have "tx_outputs t = []" if "t \<in> set (blk_transactions b)" for t
    using that from_candidate_Ok(2) [OF b] unfolding txs
    by (auto simp: new_heartbeat_def tx_new_coinbase_def tx_compute_hash_def sample_http_tx_def sample_pool_tx_def tx_new_raw_def)
  then obtain w :: "unit block_wire" where w: "block_declares sample_crypto (\<lambda>_. ()) w b" "bw_wire_version w = 9"
      "bw_block_size w = blk_block_size b"
    by (rule declared_by_a_message)
  have hb: "tx_hash ?hb = recompute_hash sample_crypto ?hb"
    unfolding new_heartbeat_def by (rule tx_compute_hash_sealed)
  have cb: "tx_hash ?cb = recompute_hash sample_crypto ?cb"
    unfolding tx_new_coinbase_def by (rule tx_compute_hash_sealed)
  from gateway_block_decodes [OF s bb b txs hb cb _ w] b show ?thesis by auto
qed

end
