(* ===== verification/Error_Text.thy ===== *)
theory Error_Text
  imports Chain_State Wire
begin

text \<open>
  The text of the errors of \<open>block.rs\<close>, \<open>wire.rs\<close> and \<open>chain_state.rs\<close>: their \<open>Display\<close> prints the derived \<open>Debug\<close>
  form. The derived form is the name of the variant with its fields in braces; strings are quoted with
  escapes, where bytes above 127 stand for themselves. The form of a \<open>Hash\<close> belongs to the crypto crate and
  is the argument \<open>hf\<close>. Shown: the name of the variant can be read off the text, and a quoted string can be
  read back from what it is followed by.
\<close>

section \<open>Derived text\<close>

definition hex_char :: "nat \<Rightarrow> char" where
  "hex_char d = char_of (if d < 10 then 48 + d else 87 + d)"

text \<open>\<open>char::escape_debug\<close> inside a string, for one byte.\<close>

definition debug_char :: "char \<Rightarrow> string" where
  "debug_char c =
     (let n = of_char c :: nat in
      if c = CHR 0x22 then [CHR 0x5C, CHR 0x22]
      else if c = CHR 0x5C then [CHR 0x5C, CHR 0x5C]
      else if n = 0 then [CHR 0x5C, CHR ''0'']
      else if n = 9 then [CHR 0x5C, CHR ''t'']
      else if n = 10 then [CHR 0x5C, CHR ''n'']
      else if n = 13 then [CHR 0x5C, CHR ''r'']
      else if n < 16 then [CHR 0x5C, CHR ''u'', CHR ''{'', hex_char n, CHR ''}'']
      else if n < 32 \<or> n = 127
      then [CHR 0x5C, CHR ''u'', CHR ''{'', hex_char (n div 16), hex_char (n mod 16), CHR ''}'']
      else [c])"

definition debug_string :: "string \<Rightarrow> string" where
  "debug_string s = CHR 0x22 # concat (map debug_char s) @ [CHR 0x22]"

definition debug_u64 :: "u64 \<Rightarrow> string" where
  "debug_u64 w = show_nat (unat w)"

text \<open>A variant with named fields, and one with a single unnamed field.\<close>

definition debug_struct :: "string \<Rightarrow> (string \<times> string) list \<Rightarrow> string" where
  "debug_struct name fs =
     name @ '' { '' @ join_with '', '' (map (\<lambda>(f, v). f @ '': '' @ v) fs) @ '' }''"

definition debug_tuple :: "string \<Rightarrow> string \<Rightarrow> string" where
  "debug_tuple name v = name @ ''('' @ v @ '')''"

section \<open>Errors\<close>

fun block_error_display :: "(hash \<Rightarrow> string) \<Rightarrow> block_error \<Rightarrow> string" where
  "block_error_display hf (ZeroStateRoot h) = debug_struct ''ZeroStateRoot'' [(''height'', debug_u64 h)]"
| "block_error_display hf (ZeroSupply h s) =
     debug_struct ''ZeroSupply'' [(''height'', debug_u64 h), (''supply'', debug_u64 s)]"
| "block_error_display hf (InvalidBlockHash e a) =
     debug_struct ''InvalidBlockHash'' [(''expected'', hf e), (''actual'', hf a)]"
| "block_error_display hf (TooLarge s m) =
     debug_struct ''TooLarge'' [(''size'', show_nat s), (''max'', show_nat m)]"
| "block_error_display hf (TooManyTransactions c m) =
     debug_struct ''TooManyTransactions'' [(''count'', show_nat c), (''max'', show_nat m)]"
| "block_error_display hf (InvalidPoHTicks s e) =
     debug_struct ''InvalidPoHTicks'' [(''start'', debug_u64 s), (''end'', debug_u64 e)]"
| "block_error_display hf (InvalidTransactionsRoot e a) =
     debug_struct ''InvalidTransactionsRoot'' [(''expected'', hf e), (''actual'', hf a)]"
| "block_error_display hf (Consensus s) = debug_tuple ''Consensus'' (debug_string s)"

fun wire_error_display :: "wire_error \<Rightarrow> string" where
  "wire_error_display VersionMismatch = ''wire version mismatch''"
| "wire_error_display BlockTooLarge = ''BlockTooLarge''"
| "wire_error_display TxTooLarge = ''TxTooLarge''"
| "wire_error_display TooManyTx = ''TooManyTx''"
| "wire_error_display TooManyInputs = ''TooManyInputs''"
| "wire_error_display TooManyOutputs = ''TooManyOutputs''"
| "wire_error_display InvalidTxType = ''InvalidTxType''"
| "wire_error_display (Deserialization s) = debug_tuple ''Deserialization'' (debug_string s)"

text \<open>The text of a transition error (\<open>te\<close>) is a parameter, like the transition.\<close>

fun chain_error_display :: "(hash \<Rightarrow> string) \<Rightarrow> ('te \<Rightarrow> string) \<Rightarrow> 'te chain_state_error \<Rightarrow> string" where
  "chain_error_display hf te (Execution e) = ''execution: '' @ te e"
| "chain_error_display hf te (PreviewFailed s) = ''preview: '' @ s"
| "chain_error_display hf te (BlockAlreadyApplied h b) =
     debug_struct ''BlockAlreadyApplied'' [(''height'', debug_u64 h), (''hash'', hf b)]"
| "chain_error_display hf te (ForkRejected h e n) =
     debug_struct ''ForkRejected'' [(''height'', debug_u64 h), (''existing'', hf e), (''new'', hf n)]"
| "chain_error_display hf te (BelowFinalized h f) =
     debug_struct ''BelowFinalized'' [(''height'', debug_u64 h), (''finalized'', debug_u64 f)]"
| "chain_error_display hf te (ReorgTooDeep c a m) =
     debug_struct ''ReorgTooDeep'' [(''current'', debug_u64 c), (''attempted'', debug_u64 a), (''max'', debug_u64 m)]"
| "chain_error_display hf te ChainInvalidBlockHash = ''InvalidBlockHash''"
| "chain_error_display hf te (PrevHashMismatch e g) =
     debug_struct ''PrevHashMismatch'' [(''expected'', hf e), (''got'', hf g)]"
| "chain_error_display hf te (HeightMismatch e g) =
     debug_struct ''HeightMismatch'' [(''expected'', debug_u64 e), (''got'', debug_u64 g)]"
| "chain_error_display hf te (HeightRegression c g) =
     debug_struct ''HeightRegression'' [(''current'', debug_u64 c), (''got'', debug_u64 g)]"
| "chain_error_display hf te GenesisAlreadyApplied = ''GenesisAlreadyApplied''"
| "chain_error_display hf te GenesisNotApplied = ''GenesisNotApplied''"
| "chain_error_display hf te GenesisPrevHashNotZero = ''GenesisPrevHashNotZero''"
| "chain_error_display hf te GenesisNotEmpty = ''GenesisNotEmpty''"
| "chain_error_display hf te GenesisStateNotEmpty = ''GenesisStateNotEmpty''"
| "chain_error_display hf te PostCheckZeroAmount = ''PostCheckZeroAmount''"
| "chain_error_display hf te PostCheckDuplicateUtxo = ''PostCheckDuplicateUtxo''"
| "chain_error_display hf te PostCheckDuplicateSpent = ''PostCheckDuplicateSpent''"
| "chain_error_display hf te (PostCheckSupplyMismatch d s) =
     debug_struct ''PostCheckSupplyMismatch'' [(''derived'', debug_u64 d), (''declared'', debug_u64 s)]"
| "chain_error_display hf te CanonicalInvariantBroken = ''CanonicalInvariantBroken''"

section \<open>Reading the text back\<close>

definition is_letter :: "char \<Rightarrow> bool" where
  "is_letter c = (let n = of_char c :: nat in 65 \<le> n \<and> n \<le> 90 \<or> 97 \<le> n \<and> n \<le> 122)"

fun block_error_name :: "block_error \<Rightarrow> string" where
  "block_error_name (ZeroStateRoot _) = ''ZeroStateRoot''"
| "block_error_name (ZeroSupply _ _) = ''ZeroSupply''"
| "block_error_name (InvalidBlockHash _ _) = ''InvalidBlockHash''"
| "block_error_name (TooLarge _ _) = ''TooLarge''"
| "block_error_name (TooManyTransactions _ _) = ''TooManyTransactions''"
| "block_error_name (InvalidPoHTicks _ _) = ''InvalidPoHTicks''"
| "block_error_name (InvalidTransactionsRoot _ _) = ''InvalidTransactionsRoot''"
| "block_error_name (Consensus _) = ''Consensus''"

definition hex_digit :: "char \<Rightarrow> nat" where
  "hex_digit c = (let n = of_char c in if n < 58 then n - 48 else n - 87)"

definition read_char :: "string \<Rightarrow> (char \<times> string) option" where
  "read_char s =
     (case s of
        [] \<Rightarrow> None
      | c # r \<Rightarrow>
          if c = CHR 0x22 then None
          else if c \<noteq> CHR 0x5C then Some (c, r)
          else (case r of
              [] \<Rightarrow> None
            | d # r' \<Rightarrow>
                if d = CHR ''0'' then Some (char_of (0::nat), r')
                else if d = CHR ''t'' then Some (char_of (9::nat), r')
                else if d = CHR ''n'' then Some (char_of (10::nat), r')
                else if d = CHR ''r'' then Some (char_of (13::nat), r')
                else if d = CHR ''u''
                then (if r' ! 2 = CHR ''}'' then Some (char_of (hex_digit (r' ! 1)), drop 3 r')
                      else Some (char_of (16 * hex_digit (r' ! 1) + hex_digit (r' ! 2)), drop 4 r'))
                else Some (d, r')))"

lemma of_char_hex_char: "d < 16 \<Longrightarrow> (of_char (hex_char d) :: nat) = (if d < 10 then 48 + d else 87 + d)"
  by (simp add: hex_char_def of_char_of)

lemma hex_digit_hex_char [simp]: "d < 16 \<Longrightarrow> hex_digit (hex_char d) = d"
  by (simp add: hex_digit_def of_char_hex_char)

lemma hex_char_no_brace [simp]: "d < 16 \<Longrightarrow> hex_char d \<noteq> CHR ''}''"
  using of_char_hex_char [of d] by (auto split: if_splits)

lemma char_of_eq: "of_char c = (n :: nat) \<Longrightarrow> char_of n = c"
  by auto

lemma read_hex:
  assumes "(of_char c :: nat) < 128" "16 \<le> (of_char c :: nat)"
  shows "read_char (CHR 0x5C # CHR ''u'' # CHR ''{'' # hex_char (of_char c div 16) # hex_char (of_char c mod 16)
           # CHR ''}'' # r) = Some (c, r)"
proof -
  have "(of_char c :: nat) div 16 < 16" using assms by simp
  moreover have "16 * ((of_char c :: nat) div 16) + of_char c mod 16 = of_char c" by simp
  ultimately show ?thesis by (simp add: read_char_def del: mult_div_mod_eq)
qed

lemma read_debug_char: "read_char (debug_char c @ r) = Some (c, r)"
proof -
  let ?n = "of_char c :: nat"
  consider "c = CHR 0x22" | "c = CHR 0x5C" | "?n \<in> {0, 9, 10, 13}" | "?n < 16" "?n \<notin> {0, 9, 10, 13}"
    | "16 \<le> ?n" "?n < 32 \<or> ?n = 127"
    | "c \<noteq> CHR 0x22" "c \<noteq> CHR 0x5C" "32 \<le> ?n" "?n \<noteq> 127"
    by fastforce
  then show ?thesis
  proof cases
    case 3
    then show ?thesis by (auto simp: debug_char_def read_char_def char_of_eq)
  next
    case 4
    then have "c \<noteq> CHR 0x22" "c \<noteq> CHR 0x5C" by auto
    with 4 show ?thesis by (simp add: debug_char_def read_char_def)
  next
    case 5
    then have "c \<noteq> CHR 0x22" "c \<noteq> CHR 0x5C" by auto
    with 5 have "debug_char c = [CHR 0x5C, CHR ''u'', CHR ''{'', hex_char (?n div 16), hex_char (?n mod 16), CHR ''}'']"
      by (auto simp: debug_char_def Let_def)
    with 5 read_hex [of c r] show ?thesis by auto
  qed (simp_all add: debug_char_def read_char_def)
qed

lemma debug_char_cancel: "debug_char c @ r = debug_char d @ r' \<longleftrightarrow> c = d \<and> r = r'"
  by (metis read_debug_char option.inject prod.inject)

lemma debug_char_not_quote: "debug_char c @ r \<noteq> CHR 0x22 # r'"
  using read_debug_char [of c r] by (auto simp: read_char_def)

text \<open>A quoted string ends where its text ends: two texts that agree come from the same string.\<close>

lemma debug_string_cancel: "debug_string s @ r = debug_string t @ r' \<longleftrightarrow> s = t \<and> r = r'"
proof (induction s arbitrary: t)
  case Nil
  then show ?case
    by (cases t) (simp_all add: debug_string_def debug_char_not_quote [symmetric])
next
  case (Cons c s)
  show ?case
  proof (cases t)
    case Nil
    then show ?thesis by (simp add: debug_string_def debug_char_not_quote)
  next
    case (Cons d u)
    then show ?thesis using Cons.IH [of u] by (simp add: debug_string_def debug_char_cancel)
  qed
qed

lemma debug_struct_name:
  "list_all is_letter name \<Longrightarrow> takeWhile is_letter (debug_struct name fs) = name"
  by (simp add: debug_struct_def takeWhile_append2 list_all_iff is_letter_def)

lemma debug_tuple_name:
  "list_all is_letter name \<Longrightarrow> takeWhile is_letter (debug_tuple name v) = name"
  by (simp add: debug_tuple_def takeWhile_append2 list_all_iff is_letter_def)

text \<open>The text of a block error names its variant, and two refusals of the rules read alike are the same.\<close>

lemma block_error_display_name: "takeWhile is_letter (block_error_display hf e) = block_error_name e"
  by (cases e) (simp_all add: debug_struct_name debug_tuple_name is_letter_def)

lemma consensus_display_inj:
  "block_error_display hf (Consensus s) = block_error_display hf (Consensus t) \<longleftrightarrow> s = t"
  using debug_string_cancel [of s "[]" t "[]"] by (simp add: debug_tuple_def)

lemma block_error_display_variant:
  assumes "block_error_display hf e = block_error_display hf e'"
  shows "block_error_name e = block_error_name e'"
  using assms block_error_display_name by metis

end
