(* ===== verification/Tests_Db.thy ===== *)
theory Tests_Db
  imports Db_Error Db_Config Merge Bloom
begin

text \<open>
  The unit tests of \<open>crates/aevum-db/src\<close> (\<open>error.rs\<close>, \<open>config.rs\<close>, \<open>merge.rs\<close>, \<open>bloom.rs\<close>), run on the model. A test is a
  Boolean with the assertions of the source; the lemma of the same name with \<open>_passes\<close> evaluates it. Where a
  test calls code outside the repository, the call is an argument and the test passes for each of its values.
  Left out are the tests that only hold with luck (\<open>test_false_positive_rate\<close> and those that expect that a
  filter does not contain a key) and those that create files.
\<close>

text \<open>\<open>str::contains\<close>, and the test for an error.\<close>

definition str_contains :: "string \<Rightarrow> string \<Rightarrow> bool" where
  "str_contains s sub = list_ex (\<lambda>i. take (length sub) (drop i s) = sub) [0 ..< length s + 1]"

fun is_err :: "('a, 'e) result \<Rightarrow> bool" where
  "is_err (Err _) = True"
| "is_err _ = False"

section \<open>Errors\<close>

definition test_io :: db_error where
  "test_io = Io EcIoGeneric \<lparr>io_kind = IoOther, io_text = ''test''\<rparr> None ''test''"

definition severity_fatal :: bool where
  "severity_fatal \<longleftrightarrow>
     is_fatal (Integrity ''test'')
     \<and> is_fatal (ChecksumMismatch ''test'' 0 (replicate 32 0) (replicate 32 1))
     \<and> is_fatal (SstableTruncated ''test'' 100 50)
     \<and> is_fatal (WalSegmentMissing 42)
     \<and> is_fatal (ManifestVersionMismatch ''test'' 3 2)
     \<and> is_fatal (RecoveryFailed ''WAL missing'')
     \<and> is_fatal (Crypto ''test'')"

definition severity_recoverable :: bool where
  "severity_recoverable \<longleftrightarrow>
     is_recoverable test_io
     \<and> is_recoverable (DiskFull ''test'' 0 1)
     \<and> is_recoverable (DirectoryNotFound ''test'')
     \<and> is_recoverable (CompactionBackpressure 10 5)
     \<and> is_recoverable (RecoveryPartial 80 100)"

definition severity_user :: bool where
  "severity_user \<longleftrightarrow>
     \<not> is_fatal (NotFound (replicate 32 0) 1)
     \<and> \<not> is_fatal Closed
     \<and> \<not> is_fatal (InvalidKey ''test'' 1)
     \<and> \<not> is_fatal (Config ''test'')
     \<and> \<not> is_fatal (InvalidKey ''test'' 1)
     \<and> \<not> is_fatal (Config ''test'')
     \<and> \<not> is_fatal (SnapshotExpired 10 100)
     \<and> \<not> is_fatal (UtxoSpent (replicate 32 0) 0)"

definition retry_after_test :: bool where
  "retry_after_test \<longleftrightarrow>
     retry_after test_io = Some 100
     \<and> retry_after (DiskFull ''test'' 0 1) = Some (5 * 1000)
     \<and> retry_after (CompactionBackpressure 10 5) = Some (2 * 1000)
     \<and> retry_after (RecoveryPartial 80 100) = Some (3 * 1000)
     \<and> retry_after (NotFound (replicate 32 0) 1) = None
     \<and> retry_after Closed = None"

definition should_throttle_test :: bool where
  "should_throttle_test \<longleftrightarrow>
     should_throttle (DiskFull ''test'' 0 1)
     \<and> should_throttle (CompactionBackpressure 10 5)
     \<and> should_throttle (RecoveryPartial 80 100)
     \<and> \<not> should_throttle (NotFound (replicate 32 0) 1)"

definition error_codes_unique :: bool where
  "error_codes_unique \<longleftrightarrow>
     (let codes =
        [EcIoGeneric, EcIoDiskFull, EcIoPermissionDenied, EcIoLocked, EcIoDirectoryNotFound,
         EcCompactionBackpressure, EcCorruptionWal, EcCorruptionSstable, EcCorruptionMemtable,
         EcCorruptionManifest, EcManifestVersionMismatch, EcIntegrityViolation, EcChecksumMismatch,
         EcWalSegmentMissing, EcSstableTruncated, EcCompactionCorrupted, EcRecoveryFailed, EcRecoveryPartial,
         EcNotFound, EcAlreadyOpen, EcClosed, EcSequenceOverflow, EcInvalidKey, EcInvalidValue,
         EcBatchTooLarge, EcSnapshotExpired, EcUtxoSpent, EcUtxoInvalid, EcConfigInvalid, EcCacheFull,
         EcSerialization, EcCrypto, EcInternal];
          unique = set (map code_num codes)
      in card unique = length codes)"

definition display_formatting :: "(bytes \<Rightarrow> string) \<Rightarrow> bool" where
  "display_formatting hex \<longleftrightarrow>
     str_contains (db_display hex (NotFound (replicate 32 0xAA) 10)) ''E3000''
     \<and> str_contains (db_display hex (ChecksumMismatch ''test'' 0 (replicate 32 0) (replicate 32 1))) ''E2006''
     \<and> str_contains (db_display hex (WalSegmentMissing 42)) ''recovery impossible''
     \<and> str_contains (db_display hex (ManifestVersionMismatch ''test'' 3 2)) ''E2004''
     \<and> str_contains (db_display hex (RecoveryPartial 80 100)) ''E2011''
     \<and> str_contains (db_display hex (DirectoryNotFound ''test'')) ''E1004''
     \<and> str_contains (db_display hex (Config ''bad setting'')) ''E4000''
     \<and> str_contains (db_display hex (UtxoSpent (replicate 32 0) 0)) ''E3007''"

lemma str_contains_append: "str_contains (pre @ sub @ post) sub"
proof -
  have "length pre \<in> set [0 ..< length (pre @ sub @ post) + 1]"
    and "take (length sub) (drop (length pre) (pre @ sub @ post)) = sub" by simp_all
  then show ?thesis unfolding str_contains_def list_ex_iff by blast
qed

lemma display_contains_code:
  "show_nat (code_num (error_code_of e)) = ds \<Longrightarrow> str_contains (db_display hex e) (CHR ''E'' # ds)"
  using str_contains_append [of "''[''" "CHR ''E'' # ds" "db_message hex e"]
  by (simp add: db_display_def)

lemma display_contains_tail:
  "db_message hex e = pre @ sub \<Longrightarrow> str_contains (db_display hex e) sub"
  using str_contains_append [of "''[E'' @ show_nat (code_num (error_code_of e)) @ pre" sub "[]"]
  by (simp add: db_display_def)

lemma error_tests_pass:
  "severity_fatal" "severity_recoverable" "severity_user" "retry_after_test" "should_throttle_test"
  by (simp_all add: severity_fatal_def severity_recoverable_def severity_user_def retry_after_test_def
      should_throttle_test_def test_io_def is_fatal_def is_recoverable_def should_throttle_def)

lemma error_codes_unique_passes: "error_codes_unique"
  by (simp add: error_codes_unique_def)

lemma display_formatting_passes: "display_formatting hex"
  unfolding display_formatting_def
  by (intro conjI display_contains_code
        display_contains_tail [where pre = "''] WAL segment '' @ show_nat 42 @ '' missing '' @ em_dash @ '' ''"])
     (simp_all add: show_nat.simps, code_simp+)

section \<open>Configuration\<close>

definition default_config_is_valid :: bool where
  "default_config_is_valid \<longleftrightarrow> db_validate default_db_config = Ok ()"

definition encryption_key_debug_does_not_leak :: bool where
  "encryption_key_debug_does_not_leak \<longleftrightarrow>
     (let key = replicate 32 0x42 in
      \<not> str_contains (key_debug key) ''42'' \<and> str_contains (key_debug key) ''***'')"

definition encryption_key_rejects_weak :: bool where
  "encryption_key_rejects_weak \<longleftrightarrow> \<not> key_is_valid (replicate 32 0) \<and> \<not> key_is_valid (replicate 32 0xAA)"

definition encryption_key_accepts_strong :: bool where
  "encryption_key_accepts_strong \<longleftrightarrow> key_is_valid ((replicate 32 0)[0 := 0x42, 1 := 0x99, 2 := 0xDE])"

definition validate_rejects_weak_encryption_key :: bool where
  "validate_rejects_weak_encryption_key \<longleftrightarrow>
     is_err (db_validate (with_encryption default_db_config (replicate 32 0)))"

definition validate_rejects_small_memtable :: bool where
  "validate_rejects_small_memtable \<longleftrightarrow>
     is_err (db_validate (default_db_config\<lparr>dbc_memtable_max_bytes := 1024\<rparr>))"

definition validate_rejects_small_block :: bool where
  "validate_rejects_small_block \<longleftrightarrow> is_err (db_validate (default_db_config\<lparr>dbc_block_size := 256\<rparr>))"

definition validate_rejects_zero_max_open_files :: bool where
  "validate_rejects_zero_max_open_files \<longleftrightarrow> is_err (db_validate (default_db_config\<lparr>dbc_max_open_files := 0\<rparr>))"

definition validate_rejects_batch_zero :: bool where
  "validate_rejects_batch_zero \<longleftrightarrow> is_err (db_validate (with_sync_mode default_db_config (SyncBatch 0)))"

definition validate_rejects_batch_too_large :: bool where
  "validate_rejects_batch_too_large \<longleftrightarrow>
     is_err (db_validate (with_sync_mode default_db_config (SyncBatch 70000)))"

definition validate_rejects_inconsistent_sizes :: bool where
  "validate_rejects_inconsistent_sizes \<longleftrightarrow>
     is_err (db_validate (with_block_size (with_memtable_size default_db_config 8192) 8192))"

definition validate_rejects_wal_too_small :: bool where
  "validate_rejects_wal_too_small \<longleftrightarrow>
     is_err (db_validate (with_wal_segment_size
       (with_memtable_size default_db_config (10 * 1024 * 1024)) (1024 * 1024)))"

definition validate_accepts_consistent_config :: bool where
  "validate_accepts_consistent_config \<longleftrightarrow>
     is_ok (db_validate (with_wal_segment_size
       (with_memtable_size default_db_config (64 * 1024 * 1024)) (32 * 1024 * 1024)))"

definition validate_rejects_empty_path :: bool where
  "validate_rejects_empty_path \<longleftrightarrow> is_err (db_validate (with_path []))"

text \<open>The file system of this test has no such path.\<close>

definition validate_path_accepts_nonexistent :: "fs_api \<Rightarrow> bool" where
  "validate_path_accepts_nonexistent FS \<longleftrightarrow>
     is_ok (db_validate_path FS (with_path ''/tmp/aevum_test_nonexistent_dir_12345''))"

definition with_builders :: bool where
  "with_builders \<longleftrightarrow>
     (let cfg = with_max_open_files
        (with_wal_segment_size
          (with_block_size
            (with_memtable_size
              (with_sync_mode
                (with_encryption default_db_config (replicate 32 0x55))
                (SyncBatch 200))
              (128 * 1024 * 1024))
            8192)
          (32 * 1024 * 1024))
        5000
      in dbc_encryption_key cfg \<noteq> None
         \<and> dbc_sync_mode cfg = SyncBatch 200
         \<and> dbc_memtable_max_bytes cfg = 128 * 1024 * 1024
         \<and> dbc_block_size cfg = 8192
         \<and> dbc_wal_segment_bytes cfg = 32 * 1024 * 1024
         \<and> dbc_max_open_files cfg = 5000)"

lemmas config_builders = default_db_config_def with_path_def with_encryption_def with_sync_mode_def
  with_memtable_size_def with_block_size_def with_wal_segment_size_def with_max_open_files_def
  default_sync_mode_def default_compaction_def

lemma key_tests_pass:
  "encryption_key_rejects_weak" "encryption_key_accepts_strong" "encryption_key_debug_does_not_leak"
  by code_simp+

lemma config_accepting_tests_pass:
  "default_config_is_valid" "validate_accepts_consistent_config" "with_builders"
  by (simp_all add: default_config_is_valid_def validate_accepts_consistent_config_def with_builders_def
      db_validate_def config_builders USIZE_MAX_def Let_def)

lemma config_rejecting_tests_pass:
  "validate_rejects_weak_encryption_key" "validate_rejects_small_memtable" "validate_rejects_small_block"
  "validate_rejects_zero_max_open_files" "validate_rejects_batch_zero" "validate_rejects_batch_too_large"
  "validate_rejects_inconsistent_sizes" "validate_rejects_wal_too_small" "validate_rejects_empty_path"
  by (simp_all add: validate_rejects_weak_encryption_key_def validate_rejects_small_memtable_def
      validate_rejects_small_block_def validate_rejects_zero_max_open_files_def validate_rejects_batch_zero_def
      validate_rejects_batch_too_large_def validate_rejects_inconsistent_sizes_def
      validate_rejects_wal_too_small_def validate_rejects_empty_path_def
      db_validate_def config_builders key_is_valid_def list_all_length USIZE_MAX_def)

lemma validate_path_accepts_nonexistent_passes:
  "\<not> fs_exists FS ''/tmp/aevum_test_nonexistent_dir_12345'' \<Longrightarrow> validate_path_accepts_nonexistent FS"
  by (simp add: validate_path_accepts_nonexistent_def db_validate_path_def with_path_def)

section \<open>Merge\<close>

definition test_entry :: "string \<Rightarrow> u64 \<Rightarrow> string item" where
  "test_entry k s = Inr (ascii k, \<lparr>me_seq = s, me_value = ''v''\<rparr>)"

definition ordered_merge :: bool where
  "ordered_merge \<longleftrightarrow>
     (let mi = merge_new
        [[test_entry ''a'' 1, test_entry ''c'' 3],
         [test_entry ''b'' 2, test_entry ''d'' 4]]
      in map_option (\<lambda>(es, err). (map he_key es, err)) (merge_collect mi)
           = Some ([ascii ''a'', ascii ''b'', ascii ''c'', ascii ''d''], None))"

definition merge_empty :: bool where
  "merge_empty \<longleftrightarrow>
     (let mi = merge_new [[]] :: string merging_iterator
      in map_option (\<lambda>(es, err). length es) (merge_collect mi) = Some 0)"

text \<open>Taking entries one by one; the evaluator can run this, and it agrees with \<open>merge_collect\<close>.\<close>

definition entry_of :: "('v heap_entry option, db_error) result \<Rightarrow> 'v heap_entry option" where
  "entry_of r = (case r of Ok x \<Rightarrow> x | _ \<Rightarrow> None)"

fun take_entries :: "nat \<Rightarrow> 'v merging_iterator \<Rightarrow> 'v heap_entry list \<times> 'v merging_iterator" where
  "take_entries 0 s = ([], s)"
| "take_entries (Suc n) s =
     (case next_entry s of (s', r) \<Rightarrow> case entry_of r of
        None \<Rightarrow> ([], s)
      | Some e \<Rightarrow> (case take_entries n s' of (es, t) \<Rightarrow> (e # es, t)))"

lemma merge_collect_take:
  "take_entries n s = (es, t) \<Longrightarrow> snd (next_entry t) = Ok None \<Longrightarrow> merge_collect s = Some (es, None)"
proof (induction n arbitrary: s es)
  case 0
  then show ?case by (subst merge_collect.simps) (auto split: prod.splits)
next
  case (Suc n)
  show ?case
    using Suc.prems Suc.IH
    by (subst merge_collect.simps)
      (auto simp: entry_of_def split: prod.splits option.splits result.splits)
qed

lemma ordered_merge_run:
  "case take_entries 4 (merge_new
        [[test_entry ''a'' 1, test_entry ''c'' 3],
         [test_entry ''b'' 2, test_entry ''d'' 4]]) of (es, t) \<Rightarrow>
     map he_key es = [ascii ''a'', ascii ''b'', ascii ''c'', ascii ''d''] \<and> snd (next_entry t) = Ok None"
  by code_simp

lemma merge_empty_run: "snd (next_entry (merge_new [[] :: string item list])) = Ok None"
  by code_simp

lemma merge_tests_pass: "ordered_merge" "merge_empty"
  using ordered_merge_run merge_collect_take [OF take_entries.simps(1) merge_empty_run]
  by (auto simp: ordered_merge_def merge_empty_def dest!: merge_collect_take split: prod.splits)

section \<open>Bloom filter\<close>

text \<open>Keys are byte strings. \<open>bloom_new\<close> gives \<open>None\<close> for an overflow, which the tests do not meet; they hold for
  every hash function and every estimate of the number of hash functions.\<close>

definition test_empty_filter_returns_false :: "(bytes \<Rightarrow> u64 \<Rightarrow> u64) \<Rightarrow> u32 \<Rightarrow> bool" where
  "test_empty_filter_returns_false hk est \<longleftrightarrow>
     (case bloom_new est 100 10 of None \<Rightarrow> False | Some bloom \<Rightarrow> \<not> may_contain hk bloom (ascii ''anything''))"

definition test_add_and_contain :: "(bytes \<Rightarrow> u64 \<Rightarrow> u64) \<Rightarrow> u32 \<Rightarrow> bool" where
  "test_add_and_contain hk est \<longleftrightarrow>
     (case bloom_new est 100 10 of None \<Rightarrow> False | Some bloom0 \<Rightarrow>
        let bloom1 = bloom_add hk (ascii ''hello'') bloom0;
            bloom = bloom_add hk (ascii ''world'') bloom1
        in may_contain hk bloom (ascii ''hello'') \<and> may_contain hk bloom (ascii ''world''))"

definition test_count :: "(bytes \<Rightarrow> u64 \<Rightarrow> u64) \<Rightarrow> u32 \<Rightarrow> bool" where
  "test_count hk est \<longleftrightarrow>
     (case bloom_new est 100 10 of None \<Rightarrow> False | Some bloom0 \<Rightarrow>
        bf_count bloom0 = 0
        \<and> (let bloom1 = bloom_add hk (ascii ''a'') bloom0;
               bloom2 = bloom_add hk (ascii ''b'') bloom1;
               bloom3 = bloom_add hk (ascii ''c'') bloom2
           in bf_count bloom3 = 3))"

definition test_from_bytes_empty :: bool where
  "test_from_bytes_empty \<longleftrightarrow> bloom_from_bytes [] = None \<and> bloom_from_bytes (replicate 3 0xFF) = None"

definition test_from_bytes_truncated :: bool where
  "test_from_bytes_truncated \<longleftrightarrow> bloom_from_bytes (replicate 13 0) = None"

definition large_key :: "nat \<Rightarrow> bytes" where
  "large_key i = ascii (''large_key_'' @ show_nat i)"

definition test_large_filter :: "(bytes \<Rightarrow> u64 \<Rightarrow> u64) \<Rightarrow> u32 \<Rightarrow> bool" where
  "test_large_filter hk est \<longleftrightarrow>
     (let n = 10000 in
      case bloom_new est n 10 of None \<Rightarrow> False | Some bloom0 \<Rightarrow>
        let bloom = fold (\<lambda>i. bloom_add hk (large_key i)) [0 ..< n] bloom0
        in list_all (\<lambda>i. may_contain hk bloom (large_key i)) [0 ..< n])"

definition test_different_bits_per_key :: "(bytes \<Rightarrow> u64 \<Rightarrow> u64) \<Rightarrow> u32 \<Rightarrow> u32 \<Rightarrow> bool" where
  "test_different_bits_per_key hk est7 est14 \<longleftrightarrow>
     (case (bloom_new est7 1000 7, bloom_new est14 1000 14) of
        (Some b7, Some b14) \<Rightarrow>
          let fill = fold (\<lambda>i. bloom_add hk (ascii (CHR ''k'' # show_nat i))) [0 ..< 1000]
          in size_bytes (fill b14) > size_bytes (fill b7)
      | _ \<Rightarrow> False)"

definition test_from_raw_empty :: "(bytes \<Rightarrow> u64 \<Rightarrow> u64) \<Rightarrow> bool" where
  "test_from_raw_empty hk \<longleftrightarrow>
     (let bloom = from_raw [] 7
      in bf_num_hashes bloom = 7 \<and> \<not> may_contain hk bloom (ascii ''anything''))"

definition test_add_on_empty_raw_does_not_panic :: "(bytes \<Rightarrow> u64 \<Rightarrow> u64) \<Rightarrow> bool" where
  "test_add_on_empty_raw_does_not_panic hk \<longleftrightarrow>
     (let bloom = bloom_add hk (ascii ''test'') (from_raw [] 7);
          (h1, h2) = double_hash hk (ascii ''test'')
      in h2 \<noteq> 0)"

lemma empty_filter_contains_nothing:
  "bloom_wf f \<Longrightarrow> set (bf_bits f) \<subseteq> {0} \<Longrightarrow> \<not> may_contain hk f k"
proof -
  assume w: "bloom_wf f" and z: "set (bf_bits f) \<subseteq> {0}"
  have "bf_bits f ! (p div 64) = 0" if "p < length (bf_bits f) * 64" for p
    using z nth_mem [OF less_mult_imp_div_less [OF that]] by auto
  then have "bits_set (bf_bits f) = {}" by (auto simp: bits_set_def)
  moreover have "probe_positions hk f k \<noteq> {}"
    using w by (auto simp: probe_positions_def bloom_wf_def word_le_nat_alt split: prod.splits)
  ultimately show ?thesis by (simp add: may_contain_iff [OF w])
qed

lemma added_is_found:
  assumes "bloom_wf f" and "k \<in> set ks"
  shows "may_contain hk (fold (bloom_add hk) ks f) k"
  using bloom_run [OF assms(1), of hk ks] assms(2) by (auto simp: may_contain_iff)

lemma bloom_new_small:
  assumes p: "expected * unat (max bits 1) = p" and "p + 127 \<le> USIZE_MAX"
  obtains f where "bloom_new est expected bits = Some f" and "bloom_wf f" and "set (bf_bits f) \<subseteq> {0}"
    and "bf_count f = 0" and "length (bf_bits f) = (if p \<le> 64 then 127 else p + 63) div 64"
proof -
  have "\<not> USIZE_MAX < p" "\<not> USIZE_MAX < max p 64 + 63" using assms(2) by (simp_all add: max_def)
  then have "bloom_new est expected bits = Some
      \<lparr>bf_bits = replicate ((max p 64 + 63) div 64) 0, bf_num_hashes = clamp_hashes est, bf_count = 0\<rparr>"
    unfolding bloom_new_def Let_def p by simp
  with bloom_constructors_wf(1) [OF this] that show thesis by (auto simp: max_def)
qed

lemma bits_per_key: "unat (max (7 :: u32) 1) = 7" "unat (max (10 :: u32) 1) = 10" "unat (max (14 :: u32) 1) = 14"
  by code_simp+

lemma bloom_filter_tests_pass:
  "test_empty_filter_returns_false hk est" "test_add_and_contain hk est" "test_count hk est"
proof -
  obtain f where f: "bloom_new est 100 10 = Some f" "bloom_wf f" "set (bf_bits f) \<subseteq> {0}" "bf_count f = 0"
    by (rule bloom_new_small [of 100 10 1000 est]) (simp_all add: bits_per_key USIZE_MAX_def)
  then show "test_empty_filter_returns_false hk est"
    by (simp add: test_empty_filter_returns_false_def empty_filter_contains_nothing)
  show "test_add_and_contain hk est"
    using added_is_found [OF f(2), of _ "[ascii ''hello'', ascii ''world'']" hk]
    by (simp add: test_add_and_contain_def f(1))
  show "test_count hk est"
    using bloom_run [OF f(2), of hk "[ascii ''a'', ascii ''b'', ascii ''c'']"] f(4)
    by (simp add: test_count_def f(1))
qed

lemma test_large_filter_passes: "test_large_filter hk est"
proof -
  obtain f where f: "bloom_new est 10000 10 = Some f" "bloom_wf f"
    by (rule bloom_new_small [of 10000 10 100000 est]) (simp_all add: bits_per_key USIZE_MAX_def)
  have "list_all (\<lambda>i. may_contain hk (fold (bloom_add hk) (map large_key [0 ..< n]) f) (large_key i)) [0 ..< n]" for n
    by (auto simp: list_all_iff intro: added_is_found [OF f(2)])
  from this [of 10000] show ?thesis
    unfolding test_large_filter_def Let_def f(1) option.case fold_map comp_def .
qed

lemma test_different_bits_per_key_passes: "test_different_bits_per_key hk est7 est14"
proof -
  obtain f where f: "bloom_new est7 1000 7 = Some f" "bloom_wf f" "length (bf_bits f) = 110"
    by (rule bloom_new_small [of 1000 7 7000 est7]) (simp_all add: bits_per_key USIZE_MAX_def)
  obtain g where g: "bloom_new est14 1000 14 = Some g" "bloom_wf g" "length (bf_bits g) = 219"
    by (rule bloom_new_small [of 1000 14 14000 est14]) (simp_all add: bits_per_key USIZE_MAX_def)
  have len: "length (bf_bits (fold (\<lambda>i. bloom_add hk (key i)) is h)) = length (bf_bits h)" if "bloom_wf h" for key "is" h
    using that by (induction "is" arbitrary: h) (simp_all add: bloom_add_wf bloom_add_sel)
  show ?thesis
    unfolding test_different_bits_per_key_def f(1) g(1) size_bytes_def Let_def prod.case option.case
      len [OF f(2)] len [OF g(2)] f(3) g(3) by simp
qed

lemma or_one_nonzero: "(w :: u64) OR 1 \<noteq> 0"
  by (metis bit_0_eq bit_1_0 bit_or_iff bot_apply bot_bool_def)

lemma bloom_raw_tests_pass:
  "test_from_bytes_empty" "test_from_bytes_truncated" "test_from_raw_empty hk"
  "test_add_on_empty_raw_does_not_panic hk"
  using empty_filter_contains_nothing [OF bloom_constructors_wf(2), of "[]" 7 hk "ascii ''anything''"]
  by (simp_all add: test_from_bytes_empty_def test_from_bytes_truncated_def test_from_raw_empty_def
      test_add_on_empty_raw_does_not_panic_def bloom_from_bytes_def from_raw_def clamp_hashes_def
      double_hash_def or_one_nonzero)

end
