(* ===== verification/Tests_Net.thy ===== *)
theory Tests_Net
  imports Dht Auth Trust Consensus_Spec
begin

text \<open>
  The unit tests of \<open>crates/aevum-p2p/src/dht.rs\<close>, \<open>crates/aevum-api/src/auth.rs\<close>,
  \<open>crates/aevum-consensus/src/trust.rs\<close> and \<open>spec.rs\<close>, run on the model. A test is a Boolean with the assertions of
  the source. A generated key pair enters as its public key and the signing function of its private key;
  what a test needs of them is the hypothesis of its lemma. Left out are \<open>random_nodes_is_random\<close>, which passes
  with high probability only, \<open>add_and_find\<close>, which is too long to evaluate in the kernel, and the test that
  only checks that functions exist.
\<close>

section \<open>Routing table\<close>

definition test_addr :: sock_addr where
  "test_addr = ([127, 0, 0, 1], 9733)"

definition test_id :: "u8 \<Rightarrow> node_id" where
  "test_id b = (replicate 32 0)[0 := b]"

definition dht_cleanup_removes_dead :: bool where
  "dht_cleanup_removes_dead \<longleftrightarrow>
     (let dht0 = dht_new (replicate 32 0);
          dht1 = add_or_update (replicate 32 1) test_addr 1000 dht0;
          dht2 = add_or_update (replicate 32 2) test_addr 5000 dht1
      in case dht_cleanup 6000 3600 dht2 of
           None \<Rightarrow> False
         | Some dht \<Rightarrow> total_nodes dht = 1)"

definition dht_refresh_targets_test :: "(nat \<Rightarrow> nat) \<Rightarrow> bool" where
  "dht_refresh_targets_test random \<longleftrightarrow>
     (let dht = fold (\<lambda>i. add_or_update (test_id (push_bit i 1)) test_addr 1000) [0 ..< 5] (dht_new (replicate 32 0));
          targets = refresh_targets random dht
      in length targets = 5)"

lemma dht_cleanup_removes_dead_passes: "dht_cleanup_removes_dead"
  by code_simp

text \<open>Every choice of a node gives one target per bucket in use.\<close>

lemma length_refresh_targets:
  "length (refresh_targets random t) = length (filter (\<lambda>b. b \<noteq> []) (dht_buckets t))"
proof -
  have "length (concat (map (\<lambda>(i, bucket). if bucket = [] then [] else [dn_node_id (bucket ! (random i mod length bucket))])
      (enumerate n bs))) = length (filter (\<lambda>b. b \<noteq> []) bs)" for n and bs :: "dht_node list list"
    by (induction bs arbitrary: n) auto
  then show ?thesis by (simp add: refresh_targets_def)
qed

lemma refresh_buckets_used:
  "length (filter (\<lambda>b. b \<noteq> []) (dht_buckets
     (fold (\<lambda>i. add_or_update (test_id (push_bit i 1)) test_addr 1000) [0 ..< 5] (dht_new (replicate 32 0))))) = 5"
  by code_simp

lemma dht_refresh_targets_passes: "dht_refresh_targets_test random"
  by (simp only: dht_refresh_targets_test_def Let_def length_refresh_targets refresh_buckets_used)

section \<open>Authentication\<close>

definition sign_request ::
  "'pk crypto_api \<Rightarrow> 'pk \<Rightarrow> (bytes \<Rightarrow> bytes) \<Rightarrow> bytes \<Rightarrow> u64 \<Rightarrow> u64 \<Rightarrow> 'pk signed_request" where
  "sign_request C pk sign body timestamp nonce =
     (let req = \<lparr>sr_body = body, sr_public_key = pk, sr_signature = [], sr_timestamp = timestamp,
                 sr_nonce = nonce, sr_chain_id = 1, sr_endpoint = 0, sr_api_version = 2\<rparr>;
          payload = build_payload C req
      in req\<lparr>sr_signature := sign payload\<rparr>)"

definition valid_signature_passes :: "'pk crypto_api \<Rightarrow> 'pk \<Rightarrow> (bytes \<Rightarrow> bytes) \<Rightarrow> bool" where
  "valid_signature_passes C pk sign \<longleftrightarrow>
     (let auth = auth_tick 1000 (auth_new auth_config_default);
          req = sign_request C pk sign (ascii ''test'') 1000 1
      in snd (auth_verify C req auth) = Valid)"

definition auth_wrong_signature_fails :: "'pk crypto_api \<Rightarrow> 'pk \<Rightarrow> 'pk \<Rightarrow> (bytes \<Rightarrow> bytes) \<Rightarrow> bool" where
  "auth_wrong_signature_fails C pk pk2 sign2 \<longleftrightarrow>
     (let auth = auth_tick 1000 (auth_new auth_config_default);
          req = (sign_request C pk2 sign2 (ascii ''test'') 1000 1)\<lparr>sr_public_key := pk\<rparr>
      in snd (auth_verify C req auth) = InvalidSignature)"

definition expired_timestamp_fails :: "'pk crypto_api \<Rightarrow> 'pk \<Rightarrow> (bytes \<Rightarrow> bytes) \<Rightarrow> bool" where
  "expired_timestamp_fails C pk sign \<longleftrightarrow>
     (let auth = auth_tick 1000 (auth_new auth_config_default);
          req = sign_request C pk sign (ascii ''test'') 500 1
      in snd (auth_verify C req auth) = Expired)"

definition future_timestamp_fails :: "'pk crypto_api \<Rightarrow> 'pk \<Rightarrow> (bytes \<Rightarrow> bytes) \<Rightarrow> bool" where
  "future_timestamp_fails C pk sign \<longleftrightarrow>
     (let auth = auth_tick 1000 (auth_new auth_config_default);
          req = sign_request C pk sign (ascii ''test'') 2000 1
      in snd (auth_verify C req auth) = FutureTimestamp)"

definition replay_nonce_fails :: "'pk crypto_api \<Rightarrow> 'pk \<Rightarrow> (bytes \<Rightarrow> bytes) \<Rightarrow> bool" where
  "replay_nonce_fails C pk sign \<longleftrightarrow>
     (let auth = auth_tick 1000 (auth_new auth_config_default);
          req = sign_request C pk sign (ascii ''test'') 1000 1;
          (auth1, r1) = auth_verify C req auth;
          (auth2, r2) = auth_verify C req auth1
      in r1 = Valid \<and> r2 = Replay)"

definition different_chain_id_produces_different_payload :: "'pk crypto_api \<Rightarrow> 'pk \<Rightarrow> (bytes \<Rightarrow> bytes) \<Rightarrow> bool" where
  "different_chain_id_produces_different_payload C pk sign \<longleftrightarrow>
     (let req1 = sign_request C pk sign (ascii ''test'') 1000 1;
          req2 = req1\<lparr>sr_chain_id := 999\<rparr>
      in build_payload C req1 \<noteq> build_payload C req2)"

lemma auth_time_tests_pass:
  "expired_timestamp_fails C pk sign" "future_timestamp_fails C pk sign"
  by (simp_all add: expired_timestamp_fails_def future_timestamp_fails_def sign_request_def auth_tick_def
      auth_new_def auth_config_default_def auth_verify_def sat_add_def sat_sub_def Let_def)

lemma auth_signature_tests_pass:
  assumes "\<And>m. pk_verify C pk m (sign m)"
  shows "valid_signature_passes C pk sign" and "replay_nonce_fails C pk sign"
  using assms
  by (simp_all add: valid_signature_passes_def replay_nonce_fails_def sign_request_def auth_tick_def
      auth_new_def auth_config_default_def auth_verify_def sat_add_def sat_sub_def nonce_contains_def
      nonce_cache_new_def nonce_insert_def build_payload_def payload_preimage_def Let_def)

lemma auth_wrong_signature_passes:
  assumes "\<And>m. \<not> pk_verify C pk m (sign2 m)"
  shows "auth_wrong_signature_fails C pk pk2 sign2"
  using assms
  by (simp add: auth_wrong_signature_fails_def sign_request_def auth_tick_def auth_new_def auth_config_default_def
      auth_verify_def sat_add_def sat_sub_def nonce_contains_def nonce_cache_new_def build_payload_def payload_preimage_def Let_def)

lemma different_chain_id_passes:
  assumes "\<And>x y. no_collision C x y"
  shows "different_chain_id_produces_different_payload C pk sign"
proof -
  have "blake3 C x \<noteq> blake3 C y" if "x \<noteq> y" for x y
    using assms that unfolding no_collision_def by blast
  then show ?thesis
    by (simp add: different_chain_id_produces_different_payload_def sign_request_def build_payload_def
        payload_preimage_def Let_def)
qed

section \<open>Trust\<close>

definition rpk :: "u8 \<Rightarrow> bytes" where
  "rpk seed = (replicate 32 0)[0 := seed]"

definition trust_test_genesis :: "'pk crypto_api \<Rightarrow> bool" where
  "trust_test_genesis C \<longleftrightarrow> (let m = trust_new_genesis C in can_endorse m MAINNET_GENESIS_BOOTSTRAP)"

definition trust_test_delegate :: "'pk crypto_api \<Rightarrow> bool" where
  "trust_test_delegate C \<longleftrightarrow>
     (let m0 = trust_new_genesis C;
          (m, r) = trust_delegate C MAINNET_GENESIS_BOOTSTRAP (rpk 1) [] m0
      in is_ok r \<and> is_delegate m (rpk 1))"

definition trust_test_quorum :: "'pk crypto_api \<Rightarrow> bool" where
  "trust_test_quorum C \<longleftrightarrow>
     (let m0 = trust_new_genesis C;
          d1 = rpk 1; d2 = rpk 2;
          (m1, r1) = trust_delegate C MAINNET_GENESIS_BOOTSTRAP d1 [] m0;
          (m2, r2) = trust_delegate C MAINNET_GENESIS_BOOTSTRAP d2 [] m1
      in is_ok r1 \<and> is_ok r2 \<and> snd (trust_delegate C d1 (rpk 3) [d2] m2) = Err (NoQuorum 2 3))"

definition trust_test_verify_root :: "'pk crypto_api \<Rightarrow> bool" where
  "trust_test_verify_root C \<longleftrightarrow> (let m = trust_new_genesis C in verify_root C m)"

lemma rpk_eq: "rpk b = b # replicate 31 0"
  by (simp add: rpk_def numeral_eq_Suc)

lemma rpk_neq [simp]:
  "rpk a = rpk b \<longleftrightarrow> a = b"
  "a \<noteq> 0x9e \<Longrightarrow> rpk a \<noteq> MAINNET_GENESIS_BOOTSTRAP" "a \<noteq> 0x9e \<Longrightarrow> MAINNET_GENESIS_BOOTSTRAP \<noteq> rpk a"
  by (auto simp: rpk_eq MAINNET_GENESIS_BOOTSTRAP_def)

lemma bs_insert_sel [simp]:
  "set (bs_insert x xs) = insert x (set xs)" "length (bs_insert x xs) = (if x \<in> set xs then 0 else 1) + length xs"
  by (auto simp: bs_insert_def set_insort_key)

lemma test_recompute_sel [simp]:
  "tm_delegates (recompute_trust_root C m) = tm_delegates m" "tm_max_delegates (recompute_trust_root C m) = tm_max_delegates m"
  "tm_genesis_bootstrap (recompute_trust_root C m) = tm_genesis_bootstrap m"
  "tm_min_quorum (recompute_trust_root C m) = tm_min_quorum m" "tm_max_quorum (recompute_trust_root C m) = tm_max_quorum m"
  "verify_root C (recompute_trust_root C m)"
  by (simp_all add: recompute_trust_root_def verify_root_def trust_preimage_def)

lemmas trust_run = trust_new_genesis_def trust_default_def can_endorse_def is_genesis_def trust_delegate_def
  is_delegate_def admit_def quorum_def network_size_def usize_sat_mul_def USIZE_MAX_def bs_collect_def Let_def

lemma trust_tests_pass:
  "trust_test_genesis C" "trust_test_delegate C" "trust_test_quorum C" "trust_test_verify_root C"
  by (simp_all add: trust_test_genesis_def trust_test_delegate_def trust_test_quorum_def trust_test_verify_root_def
      trust_run list_ex_iff)

section \<open>Specification\<close>

definition constants_consistent :: bool where
  "constants_consistent \<longleftrightarrow>
     SPEC_MAX_BLOCK_BYTES = 16 * 1024 * 1024
     \<and> SPEC_MAX_TRANSACTIONS = 100000
     \<and> SPEC_MAX_REORG_DEPTH = 64
     \<and> CONFIRMATIONS_FOR_FINALITY = 6"

lemma constants_consistent_passes: "constants_consistent"
  by (simp add: constants_consistent_def spec_consts)

end
