(* ===== verification/Tests_Wire.thy ===== *)
theory Tests_Wire
  imports Wire_Zero_Copy
begin

text \<open>
  The unit tests of \<open>crates/aevum-core/src/wire_zero_copy.rs\<close>, run on the model. A test is a Boolean with the
  assertions of the source. Left out is \<open>zero_copy_no_allocation\<close>, which compares addresses of memory.
\<close>

section \<open>Zero-copy views\<close>

definition make_block_wire :: "u64 \<Rightarrow> u32 \<Rightarrow> bytes" where
  "make_block_wire height tx_count =
     le16 EXPECTED_WIRE_VERSION
     @ replicate 32 (ucast height)
     @ replicate 32 0
     @ le64 height
     @ le64 (height * 100)
     @ le64 (height * 100 + 50)
     @ replicate 32 0
     @ le32 tx_count"

definition make_input_wire :: bytes where
  "make_input_wire =
     replicate 32 0 @ le32 0 @ replicate 32 0 @ le32 0 @ replicate 32 0 @ replicate 32 0 @ le64 0"

definition make_output_wire :: bytes where
  "make_output_wire =
     le64 0 @ replicate 32 0 @ replicate 32 0 @ replicate 32 0 @ replicate 32 0 @ le64 0 @ le32 0
     @ replicate 32 0 @ replicate 32 0 @ replicate 8 0 @ replicate 8 0 @ le64 0 @ le32 0"

definition make_tx_wire :: "u64 \<Rightarrow> u64 \<Rightarrow> u32 \<Rightarrow> u32 \<Rightarrow> bytes" where
  "make_tx_wire fee poh_tick inputs outputs =
     le16 EXPECTED_WIRE_VERSION
     @ le32 1
     @ le32 2
     @ [0]
     @ le32 inputs
     @ concat (replicate (unat inputs) make_input_wire)
     @ le32 outputs
     @ concat (replicate (unat outputs) make_output_wire)
     @ le64 fee
     @ replicate 32 (ucast fee)
     @ le64 poh_tick
     @ le64 0
     @ le32 0"

definition parse_block_header :: bool where
  "parse_block_header \<longleftrightarrow>
     (case block_view_parse (make_block_wire 42 7) of None \<Rightarrow> False | Some view \<Rightarrow>
        bv_height view = 42 \<and> bv_tx_count view = 7 \<and> bv_has_transactions view)"

definition parse_tx_view :: bool where
  "parse_tx_view \<longleftrightarrow>
     (case tx_view_parse (make_tx_wire 500 1000 2 1) of None \<Rightarrow> False | Some view \<Rightarrow>
        tv_fee view = 500 \<and> tv_poh_tick view = 1000 \<and> tv_input_count view = 2 \<and> tv_output_count view = 1
        \<and> \<not> tv_is_coinbase view \<and> \<not> tv_is_heartbeat view)"

definition parse_coinbase_tx :: bool where
  "parse_coinbase_tx \<longleftrightarrow>
     (case tx_view_parse (make_tx_wire 0 100 0 1) of None \<Rightarrow> False | Some view \<Rightarrow>
        tv_is_coinbase view \<and> tv_input_count view = 0)"

definition parsed_len_is_exact :: bool where
  "parsed_len_is_exact \<longleftrightarrow>
     (let d = make_tx_wire 100 0 1 1 in
      case tx_view_parse d of None \<Rightarrow> False | Some view \<Rightarrow>
        tv_parsed_len view = length d \<and> length (tv_raw view) = length d)"

definition fast_check_min_fee_works :: bool where
  "fast_check_min_fee_works \<longleftrightarrow>
     (let d = make_tx_wire 100 0 1 1 in check_min_fee d 50 \<and> \<not> check_min_fee d 200)"

definition fast_check_min_fee_short_data :: bool where
  "fast_check_min_fee_short_data \<longleftrightarrow> \<not> check_min_fee (replicate 10 0) 50"

definition version_mismatch_rejected :: bool where
  "version_mismatch_rejected \<longleftrightarrow>
     (let d = (make_block_wire 1 1)[0 := 99] in block_view_parse d = None)"

definition short_data_rejected :: bool where
  "short_data_rejected \<longleftrightarrow>
     block_view_parse (replicate 10 0) = None \<and> tx_view_parse (replicate 10 0) = None"

definition block_tx_iter_multiple :: bool where
  "block_tx_iter_multiple \<longleftrightarrow>
     (let d = make_block_wire 1 3
            @ concat (map (\<lambda>i. make_tx_wire (100 + i * 10) (i * 100) 1 1) [0, 1, 2])
      in case block_view_parse d of None \<Rightarrow> False | Some view \<Rightarrow>
           bv_tx_count view = 3
           \<and> (case iter_new d BLOCK_HEADER_SIZE 3 of None \<Rightarrow> False | Some iter \<Rightarrow>
                map tv_fee (iter_collect iter) = [100, 110, 120]))"

text \<open>What the test builders write is an encoding in the sense of the parser's specification.\<close>

definition test_wire_tx :: "u64 \<Rightarrow> u64 \<Rightarrow> u32 \<Rightarrow> u32 \<Rightarrow> wire_tx" where
  "test_wire_tx fee poh_tick inputs outputs =
     \<lparr>wt_version = 1, wt_chain_id = 2, wt_type = 0,
      wt_inputs = replicate (unat inputs) \<lparr>wi_head = replicate 68 0, wi_body = [], wi_tail = replicate 72 0\<rparr>,
      wt_outputs = replicate (unat outputs) \<lparr>wi_head = replicate 144 0, wi_body = [], wi_tail = replicate 92 0\<rparr>,
      wt_fee = fee, wt_hash = replicate 32 (ucast fee), wt_poh_tick = poh_tick, wt_locktime = 0, wt_witnesses = []\<rparr>"

lemma make_item_encoded:
  "make_input_wire = encode_item \<lparr>wi_head = replicate 68 0, wi_body = [], wi_tail = replicate 72 0\<rparr>"
  "make_output_wire = encode_item \<lparr>wi_head = replicate 144 0, wi_body = [], wi_tail = replicate 92 0\<rparr>"
  by code_simp+

lemma test_wire_tx_ok: "wire_tx_ok (test_wire_tx fee poh_tick inputs outputs)"
  using unat_lt_pow [of inputs] unat_lt_pow [of outputs]
  by (simp add: wire_tx_ok_def test_wire_tx_def items_ok_def item_ok_def list_all_length)

lemma make_tx_encoded: "make_tx_wire fee poh_tick inputs outputs = encode_tx (test_wire_tx fee poh_tick inputs outputs)"
  by (simp add: make_tx_wire_def encode_tx_def test_wire_tx_def encode_items_def make_item_encoded)

lemma parse_made_tx:
  "tx_view_parse (make_tx_wire fee poh_tick inputs outputs @ r) = Some (view_of (test_wire_tx fee poh_tick inputs outputs))"
  unfolding make_tx_encoded by (rule tx_view_parse_encoded [OF test_wire_tx_ok])

lemma test_view_sel [simp]:
  "tv_fee (view_of (test_wire_tx f t n m)) = f" "tv_poh_tick (view_of (test_wire_tx f t n m)) = t"
  "tv_input_count (view_of (test_wire_tx f t n m)) = n" "tv_output_count (view_of (test_wire_tx f t n m)) = m"
  "tv_tx_type (view_of (test_wire_tx f t n m)) = 0"
  "tv_parsed_len (view_of (test_wire_tx f t n m)) = length (make_tx_wire f t n m)"
  "tv_raw (view_of (test_wire_tx f t n m)) = make_tx_wire f t n m"
  by (simp_all add: view_of_def make_tx_encoded) (simp_all add: test_wire_tx_def)

lemma make_block_encoded:
  "make_block_wire h n = encode_header (replicate 32 (ucast h)) (replicate 32 0) h (h * 100) (h * 100 + 50) (replicate 32 0) n"
  by (simp add: make_block_wire_def encode_header_def)

lemma parse_made_block:
  obtains v where "block_view_parse (make_block_wire h n @ r) = Some v" and "bv_height v = h" and "bv_tx_count v = n"
  unfolding make_block_encoded by (simp add: block_view_parse_encoded)

lemma wire_header_tests_pass:
  "parse_block_header" "version_mismatch_rejected" "short_data_rejected" "fast_check_min_fee_short_data"
  by code_simp+

lemma wire_tx_tests_pass:
  "parse_tx_view" "parse_coinbase_tx" "parsed_len_is_exact"
  using parse_made_tx [where r = "[]"]
  by (simp_all add: parse_tx_view_def parse_coinbase_tx_def parsed_len_is_exact_def tv_is_coinbase_def
      tv_is_heartbeat_def Let_def)

lemma fast_check_min_fee_works_passes: "fast_check_min_fee_works"
proof -
  obtain c where "fee_reader (cursor_new (make_tx_wire 100 0 1 1)) = Some (100, c)"
    using fee_reader_encoded [OF test_wire_tx_ok, of 100 0 1 1 "[]"] by (auto simp: make_tx_encoded test_wire_tx_def)
  then show ?thesis by (simp add: fast_check_min_fee_works_def check_min_fee_def)
qed

lemma block_tx_iter_multiple_passes: "block_tx_iter_multiple"
proof -
  let ?ts = "map (\<lambda>i. test_wire_tx (100 + i * 10) (i * 100) 1 1) [0, 1, 2]"
  let ?d = "make_block_wire 1 3 @ concat (map (\<lambda>i. make_tx_wire (100 + i * 10) (i * 100) 1 1) [0, 1, 2])"
  let ?it = "\<lparr>it_cursor = cursor_new (concat (map encode_tx ?ts)), it_remaining = 3\<rparr>"
  obtain v where v: "block_view_parse ?d = Some v" "bv_tx_count v = 3" by (rule parse_made_block)
  have "length (make_block_wire 1 3) = BLOCK_HEADER_SIZE"
    by (simp add: make_block_wire_def BLOCK_HEADER_SIZE_def)
  then have it: "iter_new ?d BLOCK_HEADER_SIZE 3 = Some ?it"
    by (simp add: iter_new_def make_tx_encoded)
  have "list_all wire_tx_ok ?ts" by (simp add: test_wire_tx_ok)
  then have "iter_collect ?it = map view_of ?ts"
    by (rule iter_collect_encoded [where r = "[]"]) (simp_all add: cursor_new_def cur_ok_def cur_rest_def)
  then show ?thesis
    unfolding block_tx_iter_multiple_def Let_def v(1) it option.case by (simp add: v(2))
qed

end
