(* ===== verification/Tests_Core.thy ===== *)
theory Tests_Core
  imports Economics Escrow Compute Namespace Address
begin

text \<open>
  The unit tests of \<open>crates/aevum-core/src\<close> (\<open>transaction.rs\<close>, \<open>economics.rs\<close>, \<open>escrow.rs\<close>, \<open>compute.rs\<close>,
  \<open>compute_namespace.rs\<close>, \<open>address.rs\<close>), run on the model. A test is a Boolean with the assertions of the source;
  generated keys and the functions outside the repository are arguments, and what a test needs of them is
  the hypothesis of its lemma. One test fails: \<open>emitted_matches_brute_force\<close> expects less than the maximal
  supply at a height where the emission has reached it.
\<close>

section \<open>Transactions\<close>

definition coinbase_has_taint_zero :: "'pk crypto_api \<Rightarrow> ('u, 'pk, 'zk, 'dna) jt_api \<Rightarrow> 'pk \<Rightarrow> bool" where
  "coinbase_has_taint_zero C J pk \<longleftrightarrow>
     (let out = output_new_coinbase C J pk 100 1 0 in out_taint_distance out = 0)"

definition strict_is_coinbase :: "'pk crypto_api \<Rightarrow> bool" where
  "strict_is_coinbase C \<longleftrightarrow>
     is_coinbase (tx_new_coinbase C [] 0 CHAIN_ID_MAINNET :: ('pk, unit, unit) transaction)"

definition heartbeat_rejects_stale :: "'pk crypto_api \<Rightarrow> bool" where
  "heartbeat_rejects_stale C \<longleftrightarrow>
     (let w = [replicate 32 0 @ le64 50];
          tx = new_heartbeat C w CHAIN_ID_MAINNET :: ('pk, unit, unit) transaction
      in \<not> is_ok (verify_heartbeat tx 300))"

lemma transaction_tests_pass:
  "coinbase_has_taint_zero C J pk" "strict_is_coinbase C" "heartbeat_rejects_stale C"
  by (simp_all add: coinbase_has_taint_zero_def output_new_coinbase_def strict_is_coinbase_def is_coinbase_def
      tx_new_coinbase_def tx_compute_hash_def heartbeat_rejects_stale_def new_heartbeat_def verify_heartbeat_def
      is_heartbeat_def witness_ts_def from_le_bytes_le_bytes take_bit_word_eq_self sat_sub_def Let_def)

section \<open>Economics\<close>

definition reward_halving :: bool where
  "reward_halving \<longleftrightarrow> block_reward 0 = 10000 * SAT \<and> block_reward HALVING_INTERVAL = 5000 * SAT"

definition emission_safe :: bool where
  "emission_safe \<longleftrightarrow> emitted (- 1) \<le> MAX_SUPPLY"

definition fee_semantics :: bool where
  "fee_semantics \<longleftrightarrow>
     (let (net, dev) = fee 1000000 in net > 0 \<and> dev > 0 \<and> unat net + unat dev \<le> 1000000)"

definition coinbase_ok :: "'pk crypto_api \<Rightarrow> ('u, 'pk, 'zk, 'dna) jt_api \<Rightarrow> 'pk \<Rightarrow> 'pk \<Rightarrow> bool" where
  "coinbase_ok C J pk pk' \<longleftrightarrow>
     (case create_coinbase C J pk 100 1000000 pk' 0 100 of Ok tx \<Rightarrow> tx_outputs tx \<noteq> [] | _ \<Rightarrow> False)"

definition supply_cap_rejected :: "'pk crypto_api \<Rightarrow> ('u, 'pk, 'zk, 'dna) jt_api \<Rightarrow> 'pk \<Rightarrow> 'pk \<Rightarrow> bool" where
  "supply_cap_rejected C J pk pk' \<longleftrightarrow> \<not> is_ok (create_coinbase C J pk 0 0 pk' MAX_SUPPLY 0)"

definition invalid_supply_rejected :: "'pk crypto_api \<Rightarrow> ('u, 'pk, 'zk, 'dna) jt_api \<Rightarrow> 'pk \<Rightarrow> 'pk \<Rightarrow> bool" where
  "invalid_supply_rejected C J pk pk' \<longleftrightarrow> \<not> is_ok (create_coinbase C J pk 0 0 pk' (MAX_SUPPLY + 1) 0)"

definition emitted_matches_brute_force :: bool where
  "emitted_matches_brute_force \<longleftrightarrow>
     (let height = 500000; e = emitted height in e > 0 \<and> e < MAX_SUPPLY)"

lemmas economics_run = create_coinbase_def fee_def block_reward_def econ_consts sat_mul_def sat_add_def sat_sub_def Let_def

lemma second_period: "\<not> (63 :: u64) \<le> 1"
  by (simp add: word_le_nat_alt)

lemma economics_tests_pass:
  "reward_halving" "fee_semantics" "coinbase_ok C J pk pk'" "supply_cap_rejected C J pk pk'"
  "invalid_supply_rejected C J pk pk'"
  by (simp_all add: reward_halving_def fee_semantics_def coinbase_ok_def supply_cap_rejected_def
      invalid_supply_rejected_def tx_compute_hash_def tx_new_raw_def second_period economics_run)

lemma emission_safe_passes: "emission_safe"
  by (simp add: emission_safe_def word_le_nat_alt unat_emitted_capped econ_consts)

lemma emitted_matches_brute_force_fails: "\<not> emitted_matches_brute_force"
  by (simp add: emitted_matches_brute_force_def word_less_nat_alt unat_emitted emitted_spec_def econ_consts)

section \<open>Escrow\<close>

definition test_escrow_distribution_with_winner :: "'pk crypto_api \<Rightarrow> 'pk \<Rightarrow> 'pk \<Rightarrow> 'pk \<Rightarrow> bool" where
  "test_escrow_distribution_with_winner C customer miner1 miner2 \<longleftrightarrow>
     (case Option.bind (Option.bind (escrow_new C customer 100000 zero_hash 0 1000)
              (add_share miner1 700)) (add_share miner2 300) of
        None \<Rightarrow> False
      | Some c \<Rightarrow>
          let contract = set_winner miner1 c in
          (case distribute_reward contract of None \<Rightarrow> False
           | Some payouts \<Rightarrow>
               (case (find (\<lambda>(k, _). k = miner1) payouts, find (\<lambda>(k, _). k = miner2) payouts) of
                  (Some (_, winner_payout), Some (_, miner2_payout)) \<Rightarrow> winner_payout > miner2_payout
                | _ \<Rightarrow> False)))"

definition test_escrow_refund :: "'pk crypto_api \<Rightarrow> 'pk \<Rightarrow> bool" where
  "test_escrow_refund C customer \<longleftrightarrow>
     (case Option.bind (escrow_new C customer 100000 zero_hash 0 1000) escrow_refund of
        None \<Rightarrow> False
      | Some (contract, payouts) \<Rightarrow>
          length payouts = 1 \<and> snd (payouts ! 0) > 0 \<and> snd (payouts ! 0) < 100000)"

definition test_no_shares_no_payouts :: "'pk crypto_api \<Rightarrow> 'pk \<Rightarrow> bool" where
  "test_no_shares_no_payouts C customer \<longleftrightarrow>
     Option.bind (escrow_new C customer 100000 zero_hash 0 1000) distribute_reward = Some []"

lemma escrow_tests_pass:
  "test_escrow_refund C customer" "test_no_shares_no_payouts C customer"
  "miner1 \<noteq> miner2 \<Longrightarrow> test_escrow_distribution_with_winner C customer miner1 miner2"
  by (simp_all add: test_escrow_refund_def test_no_shares_no_payouts_def test_escrow_distribution_with_winner_def
      escrow_new_def escrow_refund_def distribute_reward_def add_share_def set_winner_def add_bonus_def
      chk_add_def chk_sub_def chk_mul_def chk_sum_def Let_def)

section \<open>Compute tasks\<close>

definition dummy_task :: "task_type \<Rightarrow> compute_task" where
  "dummy_task ttype =
     \<lparr>ct_task_id = zero_hash, ct_task_type = ttype, ct_input_data = [1, 2, 3], ct_reward = 1000,
      ct_deadline = 0, ct_verification_key = zero_hash, ct_issuer = replicate 32 0,
      ct_total_combinations = 1000000, ct_chunk_size = 1000\<rparr>"

definition media_checks_hash :: "'pk crypto_api \<Rightarrow> bool" where
  "media_checks_hash C \<longleftrightarrow>
     (let d = ascii ''generated_image'';
          expected = blake3 C d;
          task = (dummy_task ImageGeneration)\<lparr>ct_verification_key := expected\<rparr>
      in verify_solution C task d \<and> \<not> verify_solution C task (ascii ''wrong''))"

definition empty_rejected :: "'pk crypto_api \<Rightarrow> bool" where
  "empty_rejected C \<longleftrightarrow> \<not> verify_solution C (dummy_task DrugDiscovery) []"

definition custom_verification :: "'pk crypto_api \<Rightarrow> bool" where
  "custom_verification C \<longleftrightarrow>
     (let namespace = replicate 32 42;
          d = ascii ''solution'';
          expected = blake3 C (ascii ''AEVUM.CUSTOM.V2'' @ namespace @ d);
          task = (dummy_task (CustomTask namespace))\<lparr>ct_verification_key := expected\<rparr>
      in verify_solution C task d)"

definition get_chunk_splits_with_remainder :: bool where
  "get_chunk_splits_with_remainder \<longleftrightarrow>
     (let task = dummy_task DrugDiscovery in
      case (get_chunk task 0 4, get_chunk task 3 4) of
        (Some (s, e), Some (s2, e2)) \<Rightarrow> s = 0 \<and> e > s \<and> s2 < e2
      | _ \<Rightarrow> False)"

lemmas solution_run = verify_solution_def solution_hash_def verify_media_def verify_custom_def dummy_task_def Let_def

lemma compute_tests_pass:
  "empty_rejected C" "custom_verification C" "get_chunk_splits_with_remainder"
  by (simp_all add: empty_rejected_def custom_verification_def get_chunk_splits_with_remainder_def get_chunk_def
      solution_run sat_add_def sat_mul_def) (simp_all add: ascii_def)

lemma media_checks_hash_passes:
  assumes "no_collision C (ascii ''wrong'') (ascii ''generated_image'')"
  shows "media_checks_hash C"
proof -
  have "ascii ''wrong'' \<noteq> ascii ''generated_image''" "ascii ''wrong'' \<noteq> []" "ascii ''generated_image'' \<noteq> []"
    by (simp_all flip: length_0_conv add: ascii_def)
  with assms show ?thesis by (auto simp: media_checks_hash_def no_collision_def solution_run)
qed

section \<open>Namespaces\<close>

definition test_category_from_u8 :: bool where
  "test_category_from_u8 \<longleftrightarrow> category_from_u8 0 = Some GeneralCompute \<and> category_from_u8 99 = None"

definition financial_requires_zk :: bool where
  "financial_requires_zk \<longleftrightarrow> policy_default_for FinancialCompute = ZkOnly"

definition namespace_id_versioned :: "'pk crypto_api \<Rightarrow> bool" where
  "namespace_id_versioned C \<longleftrightarrow>
     id_from_label C (ascii ''test'') 1 = id_from_label C (ascii ''test'') 1
     \<and> id_from_label C (ascii ''test'') 1 \<noteq> id_from_label C (ascii ''test'') 2"

definition registry_rejects_duplicate :: "'pk crypto_api \<Rightarrow> bool" where
  "registry_rejects_duplicate C \<longleftrightarrow>
     (let r = registry_new 10;
          ns = namespace_new C (ascii ''t'') 1 GeneralCompute;
          (r1, first) = register ns r;
          (r2, second) = register ns r1
      in is_ok first \<and> \<not> is_ok second)"

lemma namespace_tests_pass:
  "test_category_from_u8" "financial_requires_zk" "registry_rejects_duplicate C"
  by (simp_all add: test_category_from_u8_def category_from_u8_def financial_requires_zk_def
      registry_rejects_duplicate_def registry_new_def namespace_new_def register_def Let_def)

lemma namespace_id_versioned_passes:
  assumes "\<And>x y. no_collision C x y"
  shows "namespace_id_versioned C"
proof -
  have "blake3 C x \<noteq> blake3 C y" if "x \<noteq> y" for x y
    using assms that unfolding no_collision_def by blast
  then show ?thesis by (simp add: namespace_id_versioned_def id_from_label_def)
qed

section \<open>Addresses\<close>

definition new_address_is_version_0x02 :: "'pk crypto_api \<Rightarrow> 'rl rl_api \<Rightarrow> 'pk \<Rightarrow> bool" where
  "new_address_is_version_0x02 C R pk \<longleftrightarrow>
     (let addr = address_new C R pk AcceptAll in addr_version addr = 0x02 \<and> is_standard addr)"

definition with_version_creates_legacy :: "'pk crypto_api \<Rightarrow> 'rl rl_api \<Rightarrow> 'pk \<Rightarrow> bool" where
  "with_version_creates_legacy C R pk \<longleftrightarrow>
     (let addr = address_with_version C R pk AcceptAll 0x01 in addr_version addr = 0x01 \<and> is_legacy addr)"

definition version_01_and_02_different_hashes :: "'pk crypto_api \<Rightarrow> 'rl rl_api \<Rightarrow> 'pk \<Rightarrow> bool" where
  "version_01_and_02_different_hashes C R pk \<longleftrightarrow>
     (let policy = AcceptAll;
          addr1 = address_with_version C R pk policy 0x01;
          addr2 = address_with_version C R pk policy 0x02
      in addr_version addr1 \<noteq> addr_version addr2)"

lemma address_tests_pass:
  "new_address_is_version_0x02 C R pk" "with_version_creates_legacy C R pk"
  "version_01_and_02_different_hashes C R pk"
  by (simp_all add: new_address_is_version_0x02_def with_version_creates_legacy_def
      version_01_and_02_different_hashes_def address_new_def address_with_version_def is_standard_def is_legacy_def
      CURRENT_VERSION_def LEGACY_VERSION_def Let_def)

end
