(* ===== verification/Tests_Ledger.thy ===== *)
theory Tests_Ledger
  imports Mempool L2_State
begin

text \<open>
  The unit tests of \<open>crates/aevum-node/src/mempool.rs\<close> and of \<open>crates/aevum-l2/src\<close> (\<open>l2_transaction.rs\<close>,
  \<open>l2_state.rs\<close>), run on the model. A test is a Boolean with the assertions of the source. A generated key pair
  enters as its public key and the signing function of its private key, the constructor of \<open>JtUtxo\<close> as a
  function; what a test needs of them is the hypothesis of its lemma.
\<close>

section \<open>Layer-2 transactions\<close>

definition tx_hash_deterministic :: "'pk crypto_api \<Rightarrow> 'pk \<Rightarrow> bool" where
  "tx_hash_deterministic C pk \<longleftrightarrow>
     (let tx1 = l2_new_unsigned C 1 pk pk 1000 10 0 (0, 0, 0, 0) 100 42;
          tx2 = l2_new_unsigned C 1 pk pk 1000 10 0 (0, 0, 0, 0) 100 42
      in l2t_tx_hash tx1 = l2t_tx_hash tx2)"

definition sign_and_verify :: "'pk crypto_api \<Rightarrow> 'pk \<Rightarrow> (bytes \<Rightarrow> bytes) \<Rightarrow> bool" where
  "sign_and_verify C pk sign \<longleftrightarrow>
     (let tx = l2_sign sign (l2_new_unsigned C 1 pk pk 1000 10 0 (0, 0, 0, 0) 100 0)
      in l2_verify_signature C tx \<and> l2_is_valid C tx)"

definition l2_wrong_signature_fails :: "'pk crypto_api \<Rightarrow> 'pk \<Rightarrow> (bytes \<Rightarrow> bytes) \<Rightarrow> bool" where
  "l2_wrong_signature_fails C pk1 sign2 \<longleftrightarrow>
     (let tx = l2_sign sign2 (l2_new_unsigned C 1 pk1 pk1 1000 10 0 (0, 0, 0, 0) 100 0)
      in \<not> l2_verify_signature C tx)"

definition fee_calculation :: bool where
  "fee_calculation \<longleftrightarrow>
     (let f = calculate_fee 1000000;
          founder = founder_cut f;
          community = community_cut f
      in f = 100 \<and> founder = 10 \<and> community = 90)"

definition dna_inheritance :: "'pk \<Rightarrow> bool" where
  "dna_inheritance pk \<longleftrightarrow>
     (let utxo = l2_utxo_new pk 1000 (replicate 32 1) 0 (5, 10, 100, 42);
          dna = inherit_dna [utxo]
      in fst dna = 6 \<and> fst (snd dna) = 10)"

definition binding_salt_changes_hash :: "'pk crypto_api \<Rightarrow> 'pk \<Rightarrow> bool" where
  "binding_salt_changes_hash C pk \<longleftrightarrow>
     (let tx1 = l2_new_unsigned C 1 pk pk 1000 10 0 (0, 0, 0, 0) 100 1;
          tx2 = l2_new_unsigned C 1 pk pk 1000 10 0 (0, 0, 0, 0) 100 2
      in l2t_tx_hash tx1 \<noteq> l2t_tx_hash tx2)"

lemma l2_plain_tests_pass: "tx_hash_deterministic C pk" "fee_calculation" "dna_inheritance pk"
  by (simp_all add: tx_hash_deterministic_def fee_calculation_def dna_inheritance_def calculate_fee_def founder_cut_def
      community_cut_def FOUNDER_SHARE_BPS_def sat_add_def sat_sub_def sat_mul_def inherit_dna_def dna_step_def
      l2_utxo_new_def Let_def)

lemma sign_and_verify_passes:
  "(\<And>m. pk_verify C pk m (sign m)) \<Longrightarrow> sign_and_verify C pk sign"
  by (simp add: sign_and_verify_def l2_sign_def l2_new_unsigned_def l2_verify_signature_def l2_sign_msg_def
      l2_is_valid_def l2_compute_hash_def l2_preimage_def Let_def)

lemma l2_wrong_signature_passes:
  "(\<And>m. \<not> pk_verify C pk1 m (sign2 m)) \<Longrightarrow> l2_wrong_signature_fails C pk1 sign2"
  by (simp add: l2_wrong_signature_fails_def l2_sign_def l2_verify_signature_def l2_sign_msg_def l2_new_unsigned_def
      Let_def)

lemma binding_salt_passes:
  assumes "\<And>x y. no_collision C x y"
  shows "binding_salt_changes_hash C pk"
proof -
  have "blake3 C x \<noteq> blake3 C y" if "x \<noteq> y" for x y
    using assms that unfolding no_collision_def by blast
  then show ?thesis
    by (simp add: binding_salt_changes_hash_def l2_new_unsigned_def l2_compute_hash_def l2_preimage_def Let_def)
qed

section \<open>Layer-2 state\<close>

definition l2_make_tx :: "'pk crypto_api \<Rightarrow> 'pk \<Rightarrow> (bytes \<Rightarrow> bytes) \<Rightarrow> u64 \<Rightarrow> u64 \<Rightarrow> u64 \<Rightarrow> 'pk l2_transaction" where
  "l2_make_tx C pk sign nonce amount fee =
     l2_sign sign (l2_new_unsigned C 1 pk pk amount fee nonce (0, 0, 0, 0) 100 0)"

definition valid_transaction :: "'pk crypto_api \<Rightarrow> 'pk \<Rightarrow> (bytes \<Rightarrow> bytes) \<Rightarrow> bool" where
  "valid_transaction C pk sign \<longleftrightarrow>
     (let state = l2_credit (pk_bytes C pk) 10000 (l2_new (replicate 32 1) (replicate 32 2));
          tx = l2_make_tx C pk sign 0 1000 100;
          (state', result) = process_transaction C tx state
      in is_ok result \<and> l2_balance state' (pk_bytes C pk) = 9900)"

definition insufficient_balance_fails :: "'pk crypto_api \<Rightarrow> 'pk \<Rightarrow> (bytes \<Rightarrow> bytes) \<Rightarrow> bool" where
  "insufficient_balance_fails C pk sign \<longleftrightarrow>
     (let state = l2_credit (pk_bytes C pk) 500 (l2_new (replicate 32 1) (replicate 32 2));
          tx = l2_make_tx C pk sign 0 1000 100
      in \<not> is_ok (snd (process_transaction C tx state)))"

definition replay_detected :: "'pk crypto_api \<Rightarrow> 'pk \<Rightarrow> (bytes \<Rightarrow> bytes) \<Rightarrow> bool" where
  "replay_detected C pk sign \<longleftrightarrow>
     (let state = l2_credit (pk_bytes C pk) 10000 (l2_new (replicate 32 1) (replicate 32 2));
          tx = l2_make_tx C pk sign 0 1000 100;
          (state', result) = process_transaction C tx state
      in is_ok result \<and> snd (process_transaction C tx state') = Err ReplayDetected)"

text \<open>A generated key is neither the founder's nor the fund's address, which are constant bytes.\<close>

lemma l2_made_tx:
  assumes "\<And>m. pk_verify C pk m (sign m)" and "amount \<noteq> 0"
  shows "l2_is_valid C (l2_make_tx C pk sign nonce amount fee)"
    and "l2t_amount (l2_make_tx C pk sign nonce amount fee) = amount"
    and "l2t_fee (l2_make_tx C pk sign nonce amount fee) = fee"
    and "l2t_nonce (l2_make_tx C pk sign nonce amount fee) = nonce"
    and "l2t_from (l2_make_tx C pk sign nonce amount fee) = pk"
    and "l2t_to (l2_make_tx C pk sign nonce amount fee) = pk"
  using assms
  by (simp_all add: l2_make_tx_def l2_sign_def l2_new_unsigned_def l2_verify_signature_def l2_sign_msg_def
      l2_is_valid_def l2_compute_hash_def l2_preimage_def Let_def)

lemmas l2_run = process_transaction_def build_context_def l2_credit_def l2_new_def l2_nonce_def l2_balance_def
  bt_get0_def apply_balances_def distribute_fee_def sat_add_def sat_sub_def Let_def

lemma l2_state_tests_pass:
  assumes "\<And>m. pk_verify C pk m (sign m)" and "pk_bytes C pk \<noteq> replicate 32 1" and "pk_bytes C pk \<noteq> replicate 32 2"
  shows "valid_transaction C pk sign" and "insufficient_balance_fails C pk sign" and "replay_detected C pk sign"
  using l2_made_tx [OF assms(1), of 1000 0 100] assms(2,3)
  by (simp_all add: valid_transaction_def insufficient_balance_fails_def replay_detected_def l2_run)

section \<open>Mempool\<close>

definition pool_make_tx ::
  "'pk crypto_api \<Rightarrow> ('u, 'pk, 'zk, 'dna) jt_api \<Rightarrow> (u64 \<Rightarrow> u8 \<Rightarrow> 'u) \<Rightarrow> u64 \<Rightarrow> u8 \<Rightarrow> ('pk, 'zk, 'dna) transaction" where
  "pool_make_tx C J mk_utxo fee seed =
     (let utxo = mk_utxo fee seed;
          tx = tx_new_raw 1 2 [] [from_jt_utxo J utxo 0] fee 0 0
      in tx_compute_hash C tx)"

definition insert_and_retrieve_by_fee ::
  "'pk crypto_api \<Rightarrow> ('u, 'pk, 'zk, 'dna) jt_api \<Rightarrow> (u64 \<Rightarrow> u8 \<Rightarrow> 'u) \<Rightarrow> bool" where
  "insert_and_retrieve_by_fee C J mk_utxo \<longleftrightarrow>
     (let pool0 = mempool_new;
          (pool1, a1) = mempool_insert 0 (pool_make_tx C J mk_utxo 10 1) 0 pool0;
          (pool2, a2) = mempool_insert 0 (pool_make_tx C J mk_utxo 100 2) 0 pool1;
          (pool3, a3) = mempool_insert 0 (pool_make_tx C J mk_utxo 50 3) 0 pool2
      in a1 \<and> a2 \<and> a3
         \<and> (case build_block 10 MAX_MEMPOOL_BYTES pool3 of None \<Rightarrow> False | Some (_, txs) \<Rightarrow>
              length txs = 3 \<and> tx_fee (txs ! 0) \<ge> tx_fee (txs ! 1) \<and> tx_fee (txs ! 1) \<ge> tx_fee (txs ! 2)))"

definition duplicate_rejected ::
  "'pk crypto_api \<Rightarrow> ('u, 'pk, 'zk, 'dna) jt_api \<Rightarrow> (u64 \<Rightarrow> u8 \<Rightarrow> 'u) \<Rightarrow> bool" where
  "duplicate_rejected C J mk_utxo \<longleftrightarrow>
     (let tx = pool_make_tx C J mk_utxo 100 1;
          (pool1, a1) = mempool_insert 0 tx 0 mempool_new;
          (pool2, a2) = mempool_insert 0 tx 0 pool1
      in a1 \<and> \<not> a2)"

definition remove_transactions_works ::
  "'pk crypto_api \<Rightarrow> ('u, 'pk, 'zk, 'dna) jt_api \<Rightarrow> (u64 \<Rightarrow> u8 \<Rightarrow> 'u) \<Rightarrow> bool" where
  "remove_transactions_works C J mk_utxo \<longleftrightarrow>
     (let tx1 = pool_make_tx C J mk_utxo 10 1;
          tx2 = pool_make_tx C J mk_utxo 20 2;
          pool1 = fst (mempool_insert 0 tx1 0 mempool_new);
          pool2 = fst (mempool_insert 0 tx2 0 pool1);
          pool3 = remove_transactions [tx_hash tx1] pool2
      in case build_block 10 MAX_MEMPOOL_BYTES pool3 of None \<Rightarrow> False | Some (_, txs) \<Rightarrow>
           length txs = 1 \<and> tx_fee (txs ! 0) = 20)"

definition bucket_distribution :: bool where
  "bucket_distribution \<longleftrightarrow>
     bucket_of 1 = 0 \<and> bucket_of 2 = 1 \<and> bucket_of 4 = 2 \<and> bucket_of 100 = 6 \<and> bucket_of 1000 = 9"

lemma bucket_values:
  "bucket_of 1 = 0" "bucket_of 2 = 1" "bucket_of 4 = 2" "bucket_of 10 = 3" "bucket_of 20 = 4" "bucket_of 50 = 5"
  "bucket_of 100 = 6" "bucket_of 1000 = 9"
  by (simp_all add: bucket_of_def leading_zeros_def bit_length.simps FEE_BUCKETS_def)

lemma bucket_distribution_passes: "bucket_distribution"
  by (simp add: bucket_distribution_def bucket_values)

lemma pool_made_tx:
  "tx_fee (pool_make_tx C J mk_utxo fee seed) = fee" "tx_nullifiers (pool_make_tx C J mk_utxo fee seed) = []"
  "estimated_size (pool_make_tx C J mk_utxo fee seed) = 237"
  by (simp_all add: pool_make_tx_def tx_compute_hash_def tx_new_raw_def tx_nullifiers_def estimated_size_def
      usize_sat_add_def usize_sat_mul_def USIZE_MAX_def Let_def)

lemmas pool_run = mempool_insert_def mempool_new_def pool_made_tx bucket_values MIN_FEE_def MAX_MEMPOOL_TX_def
  MAX_MEMPOOL_BYTES_def FEE_BUCKETS_def refresh_stats_def Let_def

lemma duplicate_rejected_passes: "duplicate_rejected C J mk_utxo"
  by (simp add: duplicate_rejected_def pool_run)

text \<open>A pool whose references are known and fit gives back all its transactions, by bucket.\<close>

lemma drained_pool:
  assumes "s = fold pool_step ops mempool_new" and "mp_tx_store s = store" and "concat (mp_buckets s) = refs"
    and "length (mp_index s) \<le> 10" and "refs_size refs \<le> MAX_MEMPOOL_BYTES"
    and "\<forall>r \<in> set refs. \<forall>tx. map_of store (ref_hash r) = Some tx \<longrightarrow> ref_fee r = tx_fee tx"
  obtains s' out where "build_block 10 MAX_MEMPOOL_BYTES s = Some (s', out)" and "length out = length (mp_index s)"
    and "distinct (map tx_hash out)" and "set out \<subseteq> snd ` set store"
    and "sorted_wrt (\<lambda>x y. bucket_of (tx_fee y) \<le> bucket_of (tx_fee x)) out"
proof -
  have "faithful s" using assms(2,3,6) by (simp add: faithful_def)
  moreover have "refs_size (concat (mp_buckets s)) \<le> MAX_MEMPOOL_BYTES" using assms(3,5) by simp
  ultimately obtain s' out where "build_block 10 MAX_MEMPOOL_BYTES s = Some (s', out)"
    "length out = min (max 10 1) (pool_len s)" "distinct (map tx_hash out)"
    "list_all (\<lambda>tx. map_of (mp_tx_store s) (tx_hash tx) = Some tx) out"
    "sorted_wrt (\<lambda>x y. bucket_of (tx_fee y) \<le> bucket_of (tx_fee x)) out"
    using build_block_fits [OF assms(1), of MAX_MEMPOOL_BYTES 10] by blast
  with that show thesis using assms(2,4) by (force simp: pool_len_def list_all_iff dest: map_of_SomeD)
qed

lemma insert_and_retrieve_passes:
  fixes C :: "'pk crypto_api" and J :: "('u, 'pk, 'zk, 'dna) jt_api" and mk_utxo :: "u64 \<Rightarrow> u8 \<Rightarrow> 'u"
  defines "t1 \<equiv> pool_make_tx C J mk_utxo 10 1" and "t2 \<equiv> pool_make_tx C J mk_utxo 100 2"
    and "t3 \<equiv> pool_make_tx C J mk_utxo 50 3"
  assumes hashes: "distinct [tx_hash t1, tx_hash t2, tx_hash t3]"
  shows "insert_and_retrieve_by_fee C J mk_utxo"
proof -
  define s where "s = fold pool_step [PoolInsert 0 t1 0, PoolInsert 0 t2 0, PoolInsert 0 t3 0] mempool_new"
  have t: "tx_fee t1 = 10" "tx_fee t2 = 100" "tx_fee t3 = 50" "tx_nullifiers t1 = []" "tx_nullifiers t2 = []"
    "tx_nullifiers t3 = []" "estimated_size t1 = 237" "estimated_size t2 = 237" "estimated_size t3 = 237"
    by (simp_all add: t1_def t2_def t3_def pool_made_tx)
  define r where "r = (\<lambda>tx :: ('pk, 'zk, 'dna) transaction. \<lparr>ref_hash = tx_hash tx, ref_fee = tx_fee tx, ref_size = 237,
     ref_poh_tick = 0, ref_inserted_at = 0\<rparr>)"
  from hashes have ne: "tx_hash t1 \<noteq> tx_hash t2" "tx_hash t2 \<noteq> tx_hash t1" "tx_hash t1 \<noteq> tx_hash t3"
    "tx_hash t3 \<noteq> tx_hash t1" "tx_hash t2 \<noteq> tx_hash t3" "tx_hash t3 \<noteq> tx_hash t2"
    by auto
  have f: "mp_tx_store s = [(tx_hash t1, t1), (tx_hash t2, t2), (tx_hash t3, t3)]" "length (mp_index s) = 3"
    "mp_buckets s = (replicate 64 [])[3 := [r t1], 6 := [r t2], 5 := [r t3]]"
    using ne by (simp_all add: s_def r_def pool_run t)
  have c: "concat (mp_buckets s) = [r t1, r t3, r t2]" unfolding f by (simp add: numeral_eq_Suc)
  obtain s' out where b: "build_block 10 MAX_MEMPOOL_BYTES s = Some (s', out)" "length out = 3"
    "set out \<subseteq> {t1, t2, t3}" "sorted_wrt (\<lambda>x y. bucket_of (tx_fee y) \<le> bucket_of (tx_fee x)) out"
    by (rule drained_pool [OF s_def f(1) c])
       (use f(2) ne in \<open>auto simp: refs_size_def r_def MAX_MEMPOOL_BYTES_def split: if_splits\<close>)
  have fees: "tx_fee x \<ge> tx_fee y" if "x \<in> {t1, t2, t3}" "y \<in> {t1, t2, t3}" "bucket_of (tx_fee y) \<le> bucket_of (tx_fee x)" for x y
    using that by (auto simp: t bucket_values)
  have "tx_fee (out ! 0) \<ge> tx_fee (out ! 1)" "tx_fee (out ! 1) \<ge> tx_fee (out ! 2)"
  proof -
    obtain x y z where o: "out = [x, y, z]" using b(2) by (auto simp: numeral_eq_Suc length_Suc_conv)
    show "tx_fee (out ! 0) \<ge> tx_fee (out ! 1)" "tx_fee (out ! 1) \<ge> tx_fee (out ! 2)"
      using b(3,4) fees unfolding o by (simp_all add: fees)
  qed
  moreover have "snd (mempool_insert 0 t1 0 mempool_new)"
    "snd (mempool_insert 0 t2 0 (fst (mempool_insert 0 t1 0 mempool_new)))"
    "snd (mempool_insert 0 t3 0 (fst (mempool_insert 0 t2 0 (fst (mempool_insert 0 t1 0 mempool_new)))))"
    using ne by (simp_all add: pool_run t)
  moreover have "fst (mempool_insert 0 t3 0 (fst (mempool_insert 0 t2 0 (fst (mempool_insert 0 t1 0 mempool_new))))) = s"
    by (simp add: s_def)
  ultimately show ?thesis
    unfolding insert_and_retrieve_by_fee_def Let_def t1_def [symmetric] t2_def [symmetric] t3_def [symmetric]
    by (simp add: case_prod_unfold b(1,2))
qed

lemma remove_transactions_passes:
  fixes C :: "'pk crypto_api" and J :: "('u, 'pk, 'zk, 'dna) jt_api" and mk_utxo :: "u64 \<Rightarrow> u8 \<Rightarrow> 'u"
  defines "t1 \<equiv> pool_make_tx C J mk_utxo 10 1" and "t2 \<equiv> pool_make_tx C J mk_utxo 20 2"
  assumes hashes: "tx_hash t1 \<noteq> tx_hash t2"
  shows "remove_transactions_works C J mk_utxo"
proof -
  define s where "s = fold pool_step [PoolInsert 0 t1 0, PoolInsert 0 t2 0, PoolRemove [tx_hash t1]] mempool_new"
  have t: "tx_fee t1 = 10" "tx_fee t2 = 20" "tx_nullifiers t1 = []" "tx_nullifiers t2 = []"
    "estimated_size t1 = 237" "estimated_size t2 = 237"
    by (simp_all add: t1_def t2_def pool_made_tx)
  define r where "r = (\<lambda>tx :: ('pk, 'zk, 'dna) transaction. \<lparr>ref_hash = tx_hash tx, ref_fee = tx_fee tx, ref_size = 237,
     ref_poh_tick = 0, ref_inserted_at = 0\<rparr>)"
  have f: "mp_tx_store s = [(tx_hash t2, t2)]" "length (mp_index s) = 1"
    "mp_buckets s = (replicate 64 [])[3 := [r t1], 4 := [r t2]]"
    using hashes by (simp_all add: s_def r_def remove_transactions_def remove_one_def remove_stored_def
        forget_nullifiers_def pool_run t)
  have c: "concat (mp_buckets s) = [r t1, r t2]" unfolding f by (simp add: numeral_eq_Suc)
  obtain s' out where b: "build_block 10 MAX_MEMPOOL_BYTES s = Some (s', out)" "length out = 1" "set out \<subseteq> {t2}"
    by (rule drained_pool [OF s_def f(1) c])
       (use f(2) hashes in \<open>auto simp: refs_size_def r_def MAX_MEMPOOL_BYTES_def split: if_splits\<close>)
  have "remove_transactions [tx_hash t1] (fst (mempool_insert 0 t2 0 (fst (mempool_insert 0 t1 0 mempool_new)))) = s"
    by (simp add: s_def)
  then show ?thesis
    unfolding remove_transactions_works_def Let_def t1_def [symmetric] t2_def [symmetric]
    using b t by (cases out) simp_all
qed

end
