(* ===== verification/Spec2Isabelle.thy ===== *)
theory Spec2Isabelle
  imports Transaction Block Economics State_Root Chain_State Genesis Presence Settlement Escrow
    Compute Namespace Address Wire Wire_Zero_Copy Dna_Range Mempool L2_Transaction L2_State
    Node_Config Http_Server Block_Production Peers Dht Bloom Merge Db_Config Db_Error Auth Handlers
    Trust Consensus_Spec Http_Interleaving Block_Relay
    Error_Text Tests_Db Tests_Net Tests_Wire Tests_Core Tests_Ledger
begin

text \<open>
  \<^bold>\<open>Aevum: a verification library for the crates of the node.\<close>

  The repository holds a layer-1 blockchain with a layer 2, a key-value store, a peer-to-peer layer and
  two HTTP interfaces. This library models the Rust sources under \<open>crates/\<close> file by file and proves what
  makes each component correct, and how the components work together.

  \<^bold>\<open>How the parts interact.\<close> Transactions (\<open>aevum-core\<close>) reach a node through the gateway
  (\<open>aevum-node/http_server.rs\<close>), which checks them and puts them into the pool (\<open>mempool.rs\<close>). A block is
  built from the pool, a heartbeat and a coinbase (\<open>economics.rs\<close>), travels in the wire format (\<open>wire.rs\<close>,
  \<open>wire_zero_copy.rs\<close>), is decoded into a block with computed hashes and applied by \<open>chain_state.rs\<close>, whose state is committed
  by \<open>state_root.rs\<close>. The rules for the body of a block (\<open>validate_internal\<close> of \<open>block.rs\<close>) have no caller in the
  repository: neither decoding nor application checks them. Presence records, settlements, escrows, compute tasks, DNA ranges and acceptance
  policies are data of the core with their own hashes and rules. Layer 2 (\<open>aevum-l2\<close>) keeps accounts. The
  store (\<open>aevum-db\<close>), the peer tables (\<open>aevum-p2p\<close>), the request authentication (\<open>aevum-api\<close>) and the
  delegation of trust (\<open>aevum-consensus\<close>) stand beside it.

  \<^bold>\<open>Theories and sources.\<close>
  \<^item> \<open>Prelude\<close>: machine words with saturating and checked arithmetic, little-endian bytes, the three-valued
    \<open>result\<close> (\<open>Ok\<close>, \<open>Err\<close>, \<open>Panic\<close>), ordered maps, the parameter record of the crypto crate, and the locales
    \<open>binding\<close> (an encoding determines its data, so the hash commits to it), \<open>step_system\<close> and
    \<open>monotone_system\<close> (invariants and growing quantities of sequences of calls).
  \<^item> \<open>Merkle\<close>, \<open>Transaction\<close>, \<open>Block\<close>: \<open>transaction.rs\<close> and \<open>block.rs\<close>. Records for transactions, candidates
    and blocks; preimages of the hashes; \<open>verify_heartbeat\<close>; \<open>validate_internal\<close> with its checks in order.
    Shown: what the hashes and the transaction root commit to, and the exact sets of accepted heartbeats
    and blocks.
  \<^item> \<open>Economics\<close>: \<open>economics.rs\<close>. The closed form of the emission equals the capped sum of the rewards; what
    a coinbase pays, and when it is built.
  \<^item> \<open>State_Root\<close>, \<open>Chain_State\<close>, \<open>Genesis\<close>: \<open>state_root.rs\<close>, \<open>chain_state.rs\<close>, \<open>genesis.rs\<close>. When a state
    root exists, what it is, and which error is reported otherwise; accepted blocks extend the chain, errors change nothing, the canonical
    height never falls and no accepted block reorganises the chain; the unguarded path of presence records.
  \<^item> \<open>Presence\<close>, \<open>Settlement\<close>: \<open>presence.rs\<close>, \<open>settlement.rs\<close>, \<open>ledger.rs\<close>. Termination and exactness of the
    depth-first search for cycles; committee signatures come from as many different members; a
    verified history is linked and ordered.
  \<^item> \<open>Escrow\<close>, \<open>Compute\<close>, \<open>Namespace\<close>, \<open>Address\<close>, \<open>Dna_Range\<close>: the files of these names in \<open>aevum-core\<close>.
    Payouts add up to the pool; chunks tile the search space; the registry keeps its limits; the policy
    decides acceptance; ranges partition the genesis supply under splits and bridges.
  \<^item> \<open>Wire\<close>, \<open>Wire_Zero_Copy\<close>: \<open>wire.rs\<close>, \<open>wire_zero_copy.rs\<close>. The repository has no encoder
    (serde derives it), so decoding is compared with the relation \<open>block_declares\<close>: it returns exactly the declared
    block, with computed hashes, and otherwise the error of the first failed check; the cursor accepts exactly the byte language of transactions, and iteration
    over a block yields its items.
  \<^item> \<open>L2_Transaction\<close>, \<open>L2_State\<close>: \<open>aevum-l2\<close>. Conservation of value, refinement of an abstract ledger,
    sequential nonces, no replay.
  \<^item> \<open>Mempool\<close>, \<open>Node_Config\<close>, \<open>Http_Server\<close>: \<open>aevum-node\<close>. The invariant of index, store, nullifiers and fee
    buckets over any calls; that the byte counter is the size of the pool while equal hashes mean equal
    transactions; when \<open>build_block\<close> returns and when it does not; the accepted configurations
    and what the fingerprint commits to; the handlers, with the pool behind the locale \<open>tx_pool\<close>.
    The node's own work on the pool is building, removal and expiry; \<open>Mempool::insert\<close> and \<open>insert_simple\<close> have no
    caller besides the gateway.
  \<^item> \<open>Http_Interleaving\<close>: \<open>submit_tx\<close> on several workers, as a step relation with one step per use of the
    lock of the pool. One worker alone computes the handler; in every interleaving the pool is sound and
    exceeds its limit by at most the number of workers; the gauge can lag.
  \<^item> \<open>Block_Production\<close>: pool, economics and block checks together. A block built from the pool is valid
    exactly when its transactions are valid one by one; a block with the coinbase of the economic module never passes the check.
  \<^item> \<open>Block_Relay\<close>: gateway, pool, wire and chain together. Decoded blocks that link are all applied, and are
    refused without effect when they are applied again; every message that declares a block from the pool
    behind the gateway decodes to it.
  \<^item> \<open>Error_Text\<close>: the text of the errors of \<open>block.rs\<close>, \<open>wire.rs\<close> and \<open>chain_state.rs\<close>. The text names the
    variant, and a quoted string can be read back.
  \<^item> \<open>Db_Error\<close>, \<open>Db_Config\<close>, \<open>Bloom\<close>, \<open>Merge\<close>: \<open>aevum-db\<close>. Codes and severities; the first broken rule is
    reported; the filter answers exactly by the set positions; the merge is complete and ordered.
  \<^item> \<open>Peers\<close>, \<open>Dht\<close>: \<open>aevum-p2p\<close>. Counters equal what they count within their limits; the routing table is
    well formed and the search in it ends.
  \<^item> \<open>Auth\<close>, \<open>Handlers\<close>: \<open>aevum-api\<close>. No replay while a nonce is remembered; the replies.
  \<^item> \<open>Trust\<close>, \<open>Consensus_Spec\<close>: \<open>aevum-consensus\<close>. Delegation by quorum, the trust root; the constants.
  \<^item> \<open>Tests_Core\<close>, \<open>Tests_Wire\<close>, \<open>Tests_Ledger\<close>, \<open>Tests_Db\<close>, \<open>Tests_Net\<close>: the unit tests of the repository as Boolean
    definitions with the assertions of the source, evaluated on the model. All of them pass but one
    (\<open>emitted_matches_brute_force_fails\<close>). They compare the model with what the authors expect of the code.

  \<^bold>\<open>State and operations.\<close> A struct is a \<open>record\<close> with a field prefix, an enum a \<open>datatype\<close>. A method that
  changes its object returns the changed object; a lock that is held for a whole call makes the call one
  step. Where a handler releases the lock in between (\<open>submit_tx\<close>), the step relation \<open>gw_step\<close> lets other
  workers run at that point. Sequences of calls are lists of an operation datatype folded over the state, and invariants are
  proved for them once through the locales. Hash maps are association lists or maps, ordered maps and sets
  are strictly sorted lists, \<open>VecDeque\<close> and \<open>Vec\<close> are lists.

  \<^bold>\<open>Numbers.\<close> Fixed-width integers are words. Plain arithmetic is checked, and an overflow is the value
  \<open>Panic\<close> (or \<^term>\<open>None\<close>); \<open>saturating\<close> operations are their saturating functions, casts and atomic counters
  wrap. A \<open>usize\<close> is a natural number, compared with its maximum where a product could exceed it.

  \<^bold>\<open>Loops.\<close> All loops are structural or have a termination proof, except the loop of \<open>build_block\<close>, which
  need not end: it is a partial function with \<^term>\<open>None\<close> for divergence, and both its return and its divergence
  are proved. No definition uses fuel.

  \<^bold>\<open>Parameters.\<close> Code outside the repository is an argument: BLAKE3 and public keys (\<open>crypto_api\<close>), JtUtxo
  (\<open>jt_api\<close>), the state transition (\<open>transition_api\<close>), the message channel and address store (\<open>net_api\<close>),
  chain orchestrator, lifecycle, hex and bincode (\<open>http_api\<close>), the file system (\<open>fs_api\<close>). Clocks, random
  numbers and environment variables are arguments too. Collision resistance is only assumed of the
  two byte strings at hand (\<open>no_collision\<close>), and the witnesses instantiate every parameter.

  \<^bold>\<open>Not modelled.\<close> \<open>aevum-core/mod.rs\<close> only declares modules; \<open>aevum-consensus/traits.rs\<close> only has signatures,
  and the rules that implement them are not in the repository. The byte layer of serde and bincode, the
  actix runtime, logging and the wiping of key memory have no value to state. The floating-point formula
  for the size of a Bloom filter enters as its result. The crates \<open>aevum-crypto\<close>, \<open>aevum-zk\<close> and
  \<open>aevum-execution\<close> are not in the repository. Of the unit tests, those are left out that depend on random
  numbers or on the values of a hash function, that compare addresses in memory or create files, and
  \<open>add_and_find\<close> of the routing table, which is too long to evaluate in the kernel.
\<close>

end
